(* ===== verification/Etb_Prelude.thy ===== *)
theory Etb_Prelude
  imports Main "HOL-Library.Word"
begin

text \<open>
  The shared vocabulary of the model of etb3: results of C functions, C strings, bytes,
  decimal formatting, first-match tables, and the named collections the component theories
  add to.

  A C function that returns \<open>bool\<close> and fills an out-parameter is a function into
  \<open>'a res\<close>: \<open>Inr\<close> is the \<open>true\<close> return with the out-parameter, \<open>Inl (Fail msg)\<close> the
  \<open>false\<close> return with the text last written to the \<open>error\<close> buffer (empty when the code
  writes none). The other constructors of \<open>etb_error\<close> are undefined behaviour of C at the
  point where the code would meet it: a null pointer handed to \<open>strcmp\<close> or \<open>strlen\<close>,
  a read or write outside an object, a signed overflow, the use of an object that was never
  initialised. They are values of the model, so that
  a theorem can say that they never occur, or exhibit an input for which they do.
\<close>

section \<open>Results\<close>

datatype etb_error = Fail string | Null_deref | Out_of_bounds | Signed_overflow | Uninitialised

type_synonym 'a res = "etb_error + 'a"

definition undefined_behaviour :: "etb_error \<Rightarrow> bool" where
  "undefined_behaviour e \<longleftrightarrow>
     e = Null_deref \<or> e = Out_of_bounds \<or> e = Signed_overflow \<or> e = Uninitialised"

text \<open>A result is safe when it is not undefined behaviour: a value, or an ordinary failure.\<close>

definition safe :: "'a res \<Rightarrow> bool" where
  "safe r \<longleftrightarrow> (case r of Inl e \<Rightarrow> \<not> undefined_behaviour e | Inr _ \<Rightarrow> True)"

definition bind_res :: "'a res \<Rightarrow> ('a \<Rightarrow> 'b res) \<Rightarrow> 'b res" where
  "bind_res m f = (case m of Inl e \<Rightarrow> Inl e | Inr a \<Rightarrow> f a)"

named_theorems res_simps \<open>evaluation of results\<close>

lemma bind_res_Inl [simp, res_simps]: "bind_res (Inl e) f = Inl e"
  by (simp add: bind_res_def)

lemma bind_res_Inr [simp, res_simps]: "bind_res (Inr a) f = f a"
  by (simp add: bind_res_def)

lemma bind_res_eq_Inr [simp]:
  "bind_res m f = Inr b \<longleftrightarrow> (\<exists>a. m = Inr a \<and> f a = Inr b)"
  by (cases m) auto

lemma bind_res_eq_Inl:
  "bind_res m f = Inl e \<longleftrightarrow> m = Inl e \<or> (\<exists>a. m = Inr a \<and> f a = Inl e)"
  by (cases m) auto

lemma bind_res_cong [fundef_cong]:
  "m = m' \<Longrightarrow> (\<And>a. m' = Inr a \<Longrightarrow> f a = f' a) \<Longrightarrow> bind_res m f = bind_res m' f'"
  by (cases m') (auto simp: bind_res_def)

lemma safe_Inr [simp, intro]: "safe (Inr a)"
  by (simp add: safe_def)

lemma safe_Fail [simp, intro]: "safe (Inl (Fail msg))"
  by (simp add: safe_def undefined_behaviour_def)

lemma safe_Inl: "safe (Inl e) \<longleftrightarrow> (\<exists>msg. e = Fail msg)"
  by (cases e) (auto simp: safe_def undefined_behaviour_def)

lemma safe_bind [intro]:
  "safe m \<Longrightarrow> (\<And>a. m = Inr a \<Longrightarrow> safe (f a)) \<Longrightarrow> safe (bind_res m f)"
  by (cases m) (auto simp: safe_def)

text \<open>A caller that overwrites the error text of a failing call.\<close>

definition on_fail :: "string \<Rightarrow> 'a res \<Rightarrow> 'a res" where
  "on_fail msg r = (case r of Inl (Fail _) \<Rightarrow> Inl (Fail msg) | _ \<Rightarrow> r)"

lemma on_fail_Inr [simp, res_simps]: "on_fail msg (Inr a) = Inr a"
  by (simp add: on_fail_def)

lemma on_fail_Fail [simp, res_simps]: "on_fail msg (Inl (Fail m)) = Inl (Fail msg)"
  by (simp add: on_fail_def)

lemma on_fail_eq_Inr [simp]: "on_fail msg r = Inr a \<longleftrightarrow> r = Inr a"
  by (auto simp: on_fail_def split: sum.splits etb_error.splits)

lemma safe_on_fail [simp]: "safe (on_fail msg r) \<longleftrightarrow> safe r"
  by (auto simp: on_fail_def safe_def undefined_behaviour_def
      split: sum.splits etb_error.splits)

lemma on_fail_cong [fundef_cong]: "m = m' \<Longrightarrow> r = r' \<Longrightarrow> on_fail m r = on_fail m' r'"
  by simp

text \<open>A \<open>for\<close> loop whose body may return early: the left fold over results.\<close>

primrec fold_res :: "('a \<Rightarrow> 's \<Rightarrow> 's res) \<Rightarrow> 'a list \<Rightarrow> 's \<Rightarrow> 's res" where
  "fold_res f [] s = Inr s"
| "fold_res f (x # xs) s = bind_res (f x s) (fold_res f xs)"

lemma fold_res_append [simp]:
  "fold_res f (xs @ ys) s = bind_res (fold_res f xs s) (fold_res f ys)"
  by (induction xs arbitrary: s) (auto simp: bind_res_def split: sum.splits)

lemma fold_res_cong [fundef_cong]:
  "xs = ys \<Longrightarrow> s = t \<Longrightarrow> (\<And>x u. x \<in> set ys \<Longrightarrow> f x u = g x u)
    \<Longrightarrow> fold_res f xs s = fold_res g ys t"
proof (induction xs arbitrary: ys s t)
  case Nil
  then show ?case by auto
next
  case (Cons x xs)
  then obtain zs where ys: "ys = x # zs" "xs = zs" by (cases ys) auto
  have "fold_res f xs u = fold_res g zs u" for u
    using Cons.IH [OF ys(2) refl] Cons.prems(3) ys(1) by simp
  then have "fold_res f xs = fold_res g zs" by blast
  moreover have "f x s = g x t" using Cons.prems ys by simp
  ultimately show ?case using ys by simp
qed

text \<open>The invariant rule of such a loop, and its safety rule.\<close>

lemma fold_res_invariant:
  assumes "fold_res f xs s = Inr t" and "I s"
    and "\<And>x u v. x \<in> set xs \<Longrightarrow> I u \<Longrightarrow> f x u = Inr v \<Longrightarrow> I v"
  shows "I t"
  using assms
proof (induction xs arbitrary: s)
  case Nil
  then show ?case by simp
next
  case (Cons x xs)
  from Cons.prems(1) obtain u where u: "f x s = Inr u" "fold_res f xs u = Inr t" by auto
  have "I u" using Cons.prems(3) [of x s u] Cons.prems(2) u(1) by simp
  then show ?case using Cons.IH [OF u(2)] Cons.prems(3) by (meson list.set_intros(2))
qed

lemma fold_res_safe:
  assumes "I s" and "\<And>x u. x \<in> set xs \<Longrightarrow> I u \<Longrightarrow> safe (f x u)"
    and "\<And>x u v. x \<in> set xs \<Longrightarrow> I u \<Longrightarrow> f x u = Inr v \<Longrightarrow> I v"
  shows "safe (fold_res f xs s)"
  using assms
proof (induction xs arbitrary: s)
  case Nil
  then show ?case by simp
next
  case (Cons x xs)
  have "safe (fold_res f xs u)" if "f x s = Inr u" for u
    using Cons.IH [of u] Cons.prems that by (meson list.set_intros)
  then show ?case using Cons.prems(1,2) by auto
qed

section \<open>C strings and bytes\<close>

text \<open>
  A C string is the list of its characters before the terminating NUL. A nullable
  \<open>char *\<close> is a \<open>string option\<close>.
\<close>

type_synonym byte = "8 word"
type_synonym u32 = "32 word"
type_synonym u64 = "64 word"

definition c_str :: "string \<Rightarrow> string" where
  "c_str s = takeWhile (\<lambda>c. c \<noteq> CHR 0x00) s"

lemma c_str_id: "CHR 0x00 \<notin> set s \<Longrightarrow> c_str s = s"
  unfolding c_str_def by (induction s) auto

definition char_of_byte :: "byte \<Rightarrow> char" where
  "char_of_byte b = char_of (unat b)"

definition byte_of_char :: "char \<Rightarrow> byte" where
  "byte_of_char c = of_char c"

definition bytes_of_string :: "string \<Rightarrow> byte list" where
  "bytes_of_string s = map byte_of_char s"

definition string_of_bytes :: "byte list \<Rightarrow> string" where
  "string_of_bytes bs = map char_of_byte bs"

lemma char_of_byte_of_char [simp]: "char_of_byte (byte_of_char c) = c"
proof -
  have "(of_char c :: nat) < 256"
    using of_char_mod_256 [of c, where 'a = nat] by (metis mod_less_divisor zero_less_numeral)
  moreover have "(of_char c :: byte) = of_nat (of_char c)"
    by (simp add: of_nat_of_char)
  ultimately have "unat (of_char c :: byte) = of_char c"
    by (simp add: unat_of_nat)
  then show ?thesis by (simp add: char_of_byte_def byte_of_char_def)
qed

lemma string_of_bytes_of_string [simp]: "string_of_bytes (bytes_of_string s) = s"
  by (simp add: string_of_bytes_def bytes_of_string_def comp_def)

lemma set_string_of_bytes: "set (string_of_bytes bs) = char_of_byte ` set bs"
  by (simp add: string_of_bytes_def)

lemma length_string_of_bytes [simp]: "length (string_of_bytes bs) = length bs"
  by (simp add: string_of_bytes_def)

lemma length_bytes_of_string [simp]: "length (bytes_of_string s) = length s"
  by (simp add: bytes_of_string_def)

text \<open>\<open>strcmp(a, b) == 0\<close>: undefined when either pointer is null.\<close>

definition c_streq :: "string option \<Rightarrow> string option \<Rightarrow> bool res" where
  "c_streq a b =
     (case (a, b) of (Some s, Some t) \<Rightarrow> Inr (s = t) | _ \<Rightarrow> Inl Null_deref)"

lemma c_streq_Some [simp]: "c_streq (Some s) (Some t) = Inr (s = t)"
  by (simp add: c_streq_def)

lemma c_streq_eq_Inr [simp]:
  "c_streq a b = Inr r \<longleftrightarrow> (\<exists>s t. a = Some s \<and> b = Some t \<and> r = (s = t))"
  by (auto simp: c_streq_def split: option.splits)

text \<open>\<open>%s\<close> of \<open>printf\<close>; the C libraries the project builds on print a null pointer so.\<close>

definition fmt_s :: "string option \<Rightarrow> string" where
  "fmt_s s = (case s of None \<Rightarrow> ''(null)'' | Some t \<Rightarrow> t)"

section \<open>Decimal numbers\<close>

definition digit_char :: "nat \<Rightarrow> char" where
  "digit_char d = char_of (48 + d)"

fun dec :: "nat \<Rightarrow> string" where
  "dec n = (if n < 10 then [digit_char n] else dec (n div 10) @ [digit_char (n mod 10)])"

declare dec.simps [simp del]

definition digit_value :: "char \<Rightarrow> nat" where
  "digit_value c = of_char c - 48"

definition dec_value :: "string \<Rightarrow> nat" where
  "dec_value s = foldl (\<lambda>n c. 10 * n + digit_value c) 0 s"

definition is_digit :: "char \<Rightarrow> bool" where
  "is_digit c \<longleftrightarrow> 48 \<le> (of_char c :: nat) \<and> (of_char c :: nat) \<le> 57"

lemma of_char_digit_char [simp]: "d < 10 \<Longrightarrow> of_char (digit_char d) = (48 + d :: nat)"
  by (simp add: digit_char_def)

lemma digit_value_digit_char [simp]: "d < 10 \<Longrightarrow> digit_value (digit_char d) = d"
  by (simp add: digit_value_def)

lemma is_digit_digit_char [simp]: "d < 10 \<Longrightarrow> is_digit (digit_char d)"
  by (simp add: is_digit_def)

lemma dec_digits: "c \<in> set (dec n) \<Longrightarrow> is_digit c"
proof (induction n rule: dec.induct)
  case (1 n)
  show ?case
  proof (cases "n < 10")
    case True
    then show ?thesis using "1.prems" by (simp add: dec.simps [of n])
  next
    case False
    then show ?thesis using 1 by (auto simp: dec.simps [of n])
  qed
qed

lemma dec_not_Nil [simp]: "dec n \<noteq> []"
  by (simp add: dec.simps [of n])

lemma dec_value_dec [simp]: "dec_value (dec n) = n"
proof (induction n rule: dec.induct)
  case (1 n)
  show ?case
  proof (cases "n < 10")
    case True
    then show ?thesis by (simp add: dec.simps [of n] dec_value_def)
  next
    case False
    then have "foldl (\<lambda>n c. 10 * n + digit_value c) 0 (dec (n div 10)) = n div 10"
      using 1 by (simp add: dec_value_def)
    then show ?thesis using False by (simp add: dec.simps [of n] dec_value_def)
  qed
qed

lemma length_dec_le: "n < 10 ^ k \<Longrightarrow> 0 < k \<Longrightarrow> length (dec n) \<le> k"
proof (induction n arbitrary: k rule: dec.induct)
  case (1 n)
  show ?case
  proof (cases "n < 10")
    case True
    then show ?thesis using "1.prems" by (simp add: dec.simps [of n])
  next
    case False
    then obtain j where k: "k = Suc j" "0 < j"
      using "1.prems" by (cases k; cases "k - 1") auto
    have "n div 10 < 10 ^ j" using "1.prems" k by (simp add: less_mult_imp_div_less mult.commute)
    then show ?thesis using "1.IH" [OF False, of j] False k by (simp add: dec.simps [of n])
  qed
qed

text \<open>\<open>%lld\<close> of a signed 64-bit value.\<close>

definition fmt_int :: "u64 \<Rightarrow> string" where
  "fmt_int w = (if sint w < 0 then CHR ''-'' # dec (nat (- sint w)) else dec (nat (sint w)))"

section \<open>First-match tables\<close>

text \<open>
  Every table of the code is a growable array scanned from index 0 for the first item that
  matches; pushing appends. Capacity doubling never changes the contents, so the arrays are
  lists. Allocation is taken to succeed: the code's out-of-memory branches have no branch here,
  except where a size read from the wire decides whether an allocation can succeed.
\<close>

lemma find_append:
  "List.find P (xs @ ys) = (case List.find P xs of None \<Rightarrow> List.find P ys | Some x \<Rightarrow> Some x)"
  by (induction xs) auto

lemma find_Some_iff': "List.find P xs = Some x \<Longrightarrow> P x \<and> x \<in> set xs"
  by (induction xs) (auto split: if_splits)

lemma find_None_iff': "List.find P xs = None \<longleftrightarrow> (\<forall>x \<in> set xs. \<not> P x)"
  by (induction xs) auto

text \<open>The contract of the string sets: an item is appended unless it is present.\<close>

locale unique_store =
  fixes contains :: "'a list \<Rightarrow> 'a \<Rightarrow> bool" and add :: "'a list \<Rightarrow> 'a \<Rightarrow> 'a list"
  assumes contains_iff: "contains xs x \<longleftrightarrow> x \<in> set xs"
    and add_eq: "add xs x = (if contains xs x then xs else xs @ [x])"
begin

lemma set_add: "set (add xs x) = insert x (set xs)"
  by (auto simp: add_eq contains_iff)

lemma distinct_add: "distinct xs \<Longrightarrow> distinct (add xs x)"
  by (auto simp: add_eq contains_iff)

lemma add_idem: "add (add xs x) x = add xs x"
  by (auto simp: add_eq contains_iff)

lemma set_add_all: "set (foldl add xs ys) = set xs \<union> set ys"
  by (induction ys arbitrary: xs) (auto simp: set_add)

lemma distinct_add_all: "distinct xs \<Longrightarrow> distinct (foldl add xs ys)"
  by (induction ys arbitrary: xs) (auto simp: distinct_add)

lemma add_prefix: "\<exists>zs. add xs x = xs @ zs"
  by (auto simp: add_eq)

end

text \<open>A text is split in one way only at the first of a separating character.\<close>

lemma split_at_inject:
  "c \<notin> set xs \<Longrightarrow> c \<notin> set ys \<Longrightarrow> xs @ c # us = ys @ c # vs \<longleftrightarrow> xs = ys \<and> us = vs"
proof (induction xs arbitrary: ys)
  case Nil
  then show ?case by (cases ys) auto
next
  case (Cons x xs)
  then show ?case by (cases ys) auto
qed

end
