(* ===== verification/Symbol_Table.thy ===== *)
theory Symbol_Table
  imports Etb_Prelude
begin

text \<open>
  The global symbol table: \<open>src/core/symbol_table.c\<close>. The returned pointer is one of the
  table's own strings, which never move once stored (growing the table moves only the array of
  pointers), so a pointer is the index of its string.
\<close>

type_synonym etb_symbol_table = "string list"

text \<open>The scan for the first equal string, from index \<open>i\<close>.\<close>

fun symbol_scan :: "etb_symbol_table \<Rightarrow> string \<Rightarrow> nat \<Rightarrow> nat option" where
  "symbol_scan [] text i = None"
| "symbol_scan (s # items) text i = (if s = text then Some i else symbol_scan items text (i + 1))"

definition etb_symbol_intern :: "etb_symbol_table \<Rightarrow> string \<Rightarrow> nat \<times> etb_symbol_table" where
  "etb_symbol_intern table text =
     (case symbol_scan table text 0 of
        Some index \<Rightarrow> (index, table)
      | None \<Rightarrow> (length table, table @ [text]))"

lemma symbol_scan_Some:
  "symbol_scan items text i = Some k \<Longrightarrow> i \<le> k \<and> k - i < length items \<and> items ! (k - i) = text"
proof (induction items arbitrary: i)
  case Nil
  then show ?case by simp
next
  case (Cons s items)
  then show ?case by (cases "s = text") (fastforce simp: nth_Cons' split: if_splits)+
qed

lemma symbol_scan_None: "symbol_scan items text i = None \<longleftrightarrow> text \<notin> set items"
  by (induction items arbitrary: i) auto

definition symbol_contains :: "etb_symbol_table \<Rightarrow> string \<Rightarrow> bool" where
  "symbol_contains table text \<longleftrightarrow> symbol_scan table text 0 \<noteq> None"

definition symbol_add :: "etb_symbol_table \<Rightarrow> string \<Rightarrow> etb_symbol_table" where
  "symbol_add table text = snd (etb_symbol_intern table text)"

lemma symbol_contains_iff: "symbol_contains table s \<longleftrightarrow> s \<in> set table"
  by (simp add: symbol_contains_def symbol_scan_None)

interpretation symbols: unique_store symbol_contains symbol_add
proof unfold_locales
  fix xs :: etb_symbol_table and x
  show "symbol_contains xs x \<longleftrightarrow> x \<in> set xs" by (rule symbol_contains_iff)
  show "symbol_add xs x = (if symbol_contains xs x then xs else xs @ [x])"
    by (auto simp: symbol_contains_def symbol_add_def etb_symbol_intern_def split: option.splits)
qed

text \<open>The returned pointer points at the text.\<close>

lemma intern_points_at:
  assumes "etb_symbol_intern table text = (k, table')"
  shows "k < length table' \<and> table' ! k = text"
  using assms symbol_scan_Some [of table "text" 0 k]
  by (auto simp: etb_symbol_intern_def split: option.splits)

lemma intern_keeps:
  assumes "etb_symbol_intern table text = (k, table')" and "j < length table"
  shows "j < length table' \<and> table' ! j = table ! j"
  using assms by (auto simp: etb_symbol_intern_def nth_append split: option.splits)

text \<open>
  Interned pointers compare like their strings: in a table built by interning, two texts get
  the same pointer exactly when they are the same string, and a pointer handed out earlier still
  points at its text.
\<close>

theorem etb_symbol_intern_identity:
  assumes d: "distinct table" and s: "etb_symbol_intern table s = (i, table1)"
    and t: "etb_symbol_intern table1 t = (j, table2)"
  shows "(i = j \<longleftrightarrow> s = t) \<and> table2 ! i = s \<and> table2 ! j = t \<and> distinct table2"
proof -
  have "table1 = symbol_add table s" "table2 = symbol_add table1 t"
    using s t by (simp_all add: symbol_add_def)
  then have "distinct table2" using d symbols.distinct_add by simp
  moreover have i: "i < length table2" "table2 ! i = s"
    using intern_points_at [OF s] intern_keeps [OF t] by auto
  moreover have j: "j < length table2" "table2 ! j = t"
    using intern_points_at [OF t] by auto
  ultimately show ?thesis using nth_eq_iff_index_eq by blast
qed

lemma etb_symbol_intern_identity_witness:
  "fst (etb_symbol_intern [] ''a'') \<noteq> fst (etb_symbol_intern [''a''] ''b'') \<and>
   snd (etb_symbol_intern [''a''] ''b'') ! 1 = ''b''"
proof -
  have run: "etb_symbol_intern [] ''a'' = (0, [''a''])"
    "etb_symbol_intern [''a''] ''b'' = (1, [''a'', ''b''])"
    by (simp_all add: etb_symbol_intern_def)
  show ?thesis using etb_symbol_intern_identity [OF _ run] by (simp add: run)
qed

end
