(* ===== verification/Ast.thy ===== *)
theory Ast
  imports Etb_Prelude
begin

text \<open>
  Terms, atoms, literals, clauses and programs: \<open>include/etb/term.h\<close>, \<open>include/etb/ast.h\<close>,
  \<open>src/core/term.c\<close> and \<open>src/core/ast.c\<close>. The structs are records whose pointers are
  optional, so that a field the kind does not use is \<open>None\<close> as it is NULL in C. The arrays
  \<open>items/count/capacity\<close> are lists. \<open>wf_term\<close> and \<open>wf_atom\<close> say which fields a kind
  uses; on well-formed data the code's field-by-field comparisons are equality.
\<close>

section \<open>Terms\<close>

datatype etb_term_kind =
    ETB_TERM_SYMBOL | ETB_TERM_VARIABLE | ETB_TERM_INTEGER | ETB_TERM_STRING | ETB_TERM_NULL

record etb_term =
  t_kind :: etb_term_kind
  t_text :: "string option"
  t_integer :: u64

text \<open>
  The enumerators carry the numbers of the header; the numbers go on the wire
  (\<open>etb_write_term\<close>), and they order the kinds.
\<close>

fun term_kind_code :: "etb_term_kind \<Rightarrow> nat" where
  "term_kind_code ETB_TERM_SYMBOL = 0"
| "term_kind_code ETB_TERM_VARIABLE = 1"
| "term_kind_code ETB_TERM_INTEGER = 2"
| "term_kind_code ETB_TERM_STRING = 3"
| "term_kind_code ETB_TERM_NULL = 4"

lemma term_kind_code_inject [simp]: "term_kind_code k = term_kind_code l \<longleftrightarrow> k = l"
  by (cases k; cases l) simp_all

instantiation etb_term_kind :: linorder
begin

definition less_eq_etb_term_kind :: "etb_term_kind \<Rightarrow> etb_term_kind \<Rightarrow> bool" where
  "less_eq_etb_term_kind k l \<longleftrightarrow> term_kind_code k \<le> term_kind_code l"

definition less_etb_term_kind :: "etb_term_kind \<Rightarrow> etb_term_kind \<Rightarrow> bool" where
  "less_etb_term_kind k l \<longleftrightarrow> term_kind_code k < term_kind_code l"

instance
  by intro_classes (auto simp: less_eq_etb_term_kind_def less_etb_term_kind_def
      dest: antisym [of "term_kind_code _"])

end

definition etb_term_make_symbol :: "string option \<Rightarrow> etb_term" where
  "etb_term_make_symbol text = \<lparr>t_kind = ETB_TERM_SYMBOL, t_text = text, t_integer = 0\<rparr>"

definition etb_term_make_variable :: "string option \<Rightarrow> etb_term" where
  "etb_term_make_variable text = \<lparr>t_kind = ETB_TERM_VARIABLE, t_text = text, t_integer = 0\<rparr>"

definition etb_term_make_string :: "string option \<Rightarrow> etb_term" where
  "etb_term_make_string text = \<lparr>t_kind = ETB_TERM_STRING, t_text = text, t_integer = 0\<rparr>"

definition etb_term_make_integer :: "u64 \<Rightarrow> etb_term" where
  "etb_term_make_integer value = \<lparr>t_kind = ETB_TERM_INTEGER, t_text = None, t_integer = value\<rparr>"

definition etb_term_make_null :: etb_term where
  "etb_term_make_null = \<lparr>t_kind = ETB_TERM_NULL, t_text = None, t_integer = 0\<rparr>"

definition etb_term_clone :: "etb_term \<Rightarrow> etb_term" where
  "etb_term_clone t = \<lparr>t_kind = t_kind t, t_text = t_text t, t_integer = t_integer t\<rparr>"

lemma etb_term_clone_id [simp]: "etb_term_clone t = t"
  by (simp add: etb_term_clone_def)

definition etb_term_equals :: "etb_term \<Rightarrow> etb_term \<Rightarrow> bool" where
  "etb_term_equals lhs rhs =
     (if t_kind lhs \<noteq> t_kind rhs then False
      else if t_kind lhs = ETB_TERM_INTEGER then t_integer lhs = t_integer rhs
      else (case (t_text lhs, t_text rhs) of
              (Some s, Some u) \<Rightarrow> s = u
            | (s, u) \<Rightarrow> s = None \<and> u = None))"

definition etb_term_is_ground :: "etb_term \<Rightarrow> bool" where
  "etb_term_is_ground t \<longleftrightarrow> t_kind t \<noteq> ETB_TERM_VARIABLE"

lemmas etb_term_make_defs =
  etb_term_make_symbol_def etb_term_make_variable_def etb_term_make_string_def
  etb_term_make_integer_def etb_term_make_null_def

text \<open>The fields each kind uses, as the \<open>etb_term_make\<close> functions fill them.\<close>

definition wf_term :: "etb_term \<Rightarrow> bool" where
  "wf_term t \<longleftrightarrow>
     (case t_kind t of
        ETB_TERM_INTEGER \<Rightarrow> t_text t = None
      | ETB_TERM_NULL \<Rightarrow> t_text t = None \<and> t_integer t = 0
      | _ \<Rightarrow> t_text t \<noteq> None \<and> t_integer t = 0)"

lemma wf_term_make [simp]:
  "wf_term (etb_term_make_symbol (Some s))" "wf_term (etb_term_make_variable (Some s))"
  "wf_term (etb_term_make_string (Some s))" "wf_term (etb_term_make_integer i)"
  "wf_term etb_term_make_null"
  by (simp_all add: wf_term_def etb_term_make_defs)

lemma etb_term_equals_alt:
  "etb_term_equals t u \<longleftrightarrow>
     t_kind t = t_kind u \<and>
     (if t_kind t = ETB_TERM_INTEGER then t_integer t = t_integer u else t_text t = t_text u)"
  by (auto simp: etb_term_equals_def split: option.splits)

lemma etb_term_equals_refl [simp]: "etb_term_equals t t"
  by (simp add: etb_term_equals_alt)

lemma etb_term_equals_sym: "etb_term_equals t u \<Longrightarrow> etb_term_equals u t"
  by (auto simp: etb_term_equals_alt)

lemma etb_term_equals_trans:
  "etb_term_equals t u \<Longrightarrow> etb_term_equals u v \<Longrightarrow> etb_term_equals t v"
  by (auto simp: etb_term_equals_alt split: if_splits)

lemma etb_term_equals_eq:
  "wf_term t \<Longrightarrow> wf_term u \<Longrightarrow> etb_term_equals t u \<longleftrightarrow> t = u"
  by (cases t; cases u)
    (auto simp: wf_term_def etb_term_equals_alt split: etb_term_kind.splits if_splits)

section \<open>Atoms\<close>

datatype etb_temporal_kind =
    ETB_TEMPORAL_NONE | ETB_TEMPORAL_EXPIRES_AT | ETB_TEMPORAL_ANCHORED_AT

datatype etb_atom_kind = ETB_ATOM_PREDICATE | ETB_ATOM_SAYS | ETB_ATOM_SPEAKS_FOR

record etb_delegation_attrs =
  d_scope :: "string option"
  d_expires_at :: u64
  d_max_depth :: u32

record etb_atom =
  a_kind :: etb_atom_kind
  a_principal :: "string option"
  a_delegate :: "string option"
  a_predicate :: "string option"
  a_terms :: "etb_term list"
  a_temporal_kind :: etb_temporal_kind
  a_temporal_value :: u64
  a_delegation :: etb_delegation_attrs

definition etb_atom_init :: etb_atom where
  "etb_atom_init =
     \<lparr>a_kind = ETB_ATOM_PREDICATE, a_principal = None, a_delegate = None, a_predicate = None,
      a_terms = [], a_temporal_kind = ETB_TEMPORAL_NONE, a_temporal_value = 0,
      a_delegation = \<lparr>d_scope = None, d_expires_at = 0, d_max_depth = 0\<rparr>\<rparr>"

definition etb_atom_clone :: "etb_atom \<Rightarrow> etb_atom" where
  "etb_atom_clone atom = etb_atom_init
     \<lparr>a_kind := a_kind atom,
      a_principal := a_principal atom,
      a_delegate := a_delegate atom,
      a_predicate := a_predicate atom,
      a_temporal_kind := a_temporal_kind atom,
      a_temporal_value := a_temporal_value atom,
      a_delegation := \<lparr>d_scope = d_scope (a_delegation atom),
                       d_expires_at = d_expires_at (a_delegation atom),
                       d_max_depth = d_max_depth (a_delegation atom)\<rparr>,
      a_terms := map etb_term_clone (a_terms atom)\<rparr>"

lemma etb_atom_clone_id [simp]: "etb_atom_clone a = a"
  by (cases a; cases "a_delegation a")
    (simp add: etb_atom_clone_def etb_atom_init_def map_idI)

definition etb_atom_is_ground :: "etb_atom \<Rightarrow> bool" where
  "etb_atom_is_ground atom \<longleftrightarrow>
     a_kind atom = ETB_ATOM_SPEAKS_FOR \<or> list_all etb_term_is_ground (a_terms atom)"

text \<open>Two nullable strings agree: both null, or both present and equal.\<close>

definition etb_text_agrees :: "string option \<Rightarrow> string option \<Rightarrow> bool" where
  "etb_text_agrees s t =
     (case (s, t) of (None, None) \<Rightarrow> True | (Some u, Some v) \<Rightarrow> u = v | _ \<Rightarrow> False)"

lemma etb_text_agrees_eq [simp]: "etb_text_agrees s t \<longleftrightarrow> s = t"
  by (auto simp: etb_text_agrees_def split: option.splits)

definition etb_atom_equals :: "etb_atom \<Rightarrow> etb_atom \<Rightarrow> bool" where
  "etb_atom_equals lhs rhs =
     (if a_kind lhs \<noteq> a_kind rhs then False
      else if \<not> etb_text_agrees (a_principal lhs) (a_principal rhs) then False
      else if \<not> etb_text_agrees (a_delegate lhs) (a_delegate rhs) then False
      else if \<not> etb_text_agrees (a_predicate lhs) (a_predicate rhs) then False
      else if a_temporal_kind lhs \<noteq> a_temporal_kind rhs
              \<or> a_temporal_value lhs \<noteq> a_temporal_value rhs
              \<or> length (a_terms lhs) \<noteq> length (a_terms rhs) then False
      else if \<not> etb_text_agrees (d_scope (a_delegation lhs)) (d_scope (a_delegation rhs)) then False
      else if d_expires_at (a_delegation lhs) \<noteq> d_expires_at (a_delegation rhs)
              \<or> d_max_depth (a_delegation lhs) \<noteq> d_max_depth (a_delegation rhs) then False
      else list_all2 etb_term_equals (a_terms lhs) (a_terms rhs))"

definition wf_atom :: "etb_atom \<Rightarrow> bool" where
  "wf_atom a \<longleftrightarrow>
     (case a_kind a of
        ETB_ATOM_PREDICATE \<Rightarrow> a_predicate a \<noteq> None
      | ETB_ATOM_SAYS \<Rightarrow> a_principal a \<noteq> None \<and> a_predicate a \<noteq> None
      | ETB_ATOM_SPEAKS_FOR \<Rightarrow> a_principal a \<noteq> None \<and> a_delegate a \<noteq> None)
     \<and> list_all wf_term (a_terms a)"

lemma etb_atom_equals_refl [simp]: "etb_atom_equals a a"
  by (simp add: etb_atom_equals_def list_all2_refl)

lemma list_all2_term_equals_eq:
  "list_all wf_term ts \<Longrightarrow> list_all wf_term us \<Longrightarrow> list_all2 etb_term_equals ts us \<longleftrightarrow> ts = us"
proof (induction ts arbitrary: us)
  case Nil
  then show ?case by (cases us) simp_all
next
  case (Cons t ts)
  then show ?case by (cases us) (auto simp: etb_term_equals_eq)
qed

lemma etb_atom_equals_sym: "etb_atom_equals a b \<Longrightarrow> etb_atom_equals b a"
  by (auto simp: etb_atom_equals_def list_all2_conv_all_nth split: if_splits
      intro: etb_term_equals_sym)

text \<open>
  On atoms whose terms were built by the constructors, the code's atom comparison, which
  walks the fields one by one, decides equality; so the tables that search with it are sets of
  atoms.
\<close>

lemma etb_atom_equals_iff_eq:
  assumes "list_all wf_term (a_terms a)" and "list_all wf_term (a_terms b)"
  shows "etb_atom_equals a b \<longleftrightarrow> a = b"
  using assms
  by (cases a; cases b; cases "a_delegation a"; cases "a_delegation b")
    (auto simp: etb_atom_equals_def list_all2_term_equals_eq list_all2_lengthD
      dest: list_all2_lengthD)

section \<open>Literals, clauses, programs\<close>

record etb_literal =
  l_negated :: bool
  l_atom :: etb_atom

record etb_capability_decl =
  c_name :: "string option"
  c_arity :: nat
  c_path :: "string option"
  c_deterministic :: bool
  c_proof_admissible :: bool
  c_timeout_ms :: u32

record etb_clause =
  cl_head :: etb_atom
  cl_body :: "etb_literal list"
  cl_source_line :: nat

text \<open>The tagged union \<open>etb_statement\<close>: its tag \<open>etb_stmt_kind\<close> is the constructor.\<close>

datatype etb_statement = ETB_STMT_CLAUSE etb_clause | ETB_STMT_CAPABILITY etb_capability_decl

type_synonym etb_program = "etb_statement list"

definition etb_literal_list_push :: "etb_literal list \<Rightarrow> etb_literal \<Rightarrow> etb_literal list" where
  "etb_literal_list_push list literal = list @ [literal]"

definition etb_term_list_push :: "etb_term list \<Rightarrow> etb_term \<Rightarrow> etb_term list" where
  "etb_term_list_push list t = list @ [t]"

definition etb_program_push :: "etb_program \<Rightarrow> etb_statement \<Rightarrow> etb_program" where
  "etb_program_push program statement = program @ [statement]"

definition wf_literal :: "etb_literal \<Rightarrow> bool" where
  "wf_literal l \<longleftrightarrow> wf_atom (l_atom l)"

definition wf_clause :: "etb_clause \<Rightarrow> bool" where
  "wf_clause c \<longleftrightarrow> wf_atom (cl_head c) \<and> list_all wf_literal (cl_body c)"

definition wf_statement :: "etb_statement \<Rightarrow> bool" where
  "wf_statement s \<longleftrightarrow>
     (case s of ETB_STMT_CLAUSE c \<Rightarrow> wf_clause c | ETB_STMT_CAPABILITY d \<Rightarrow> c_name d \<noteq> None)"

definition wf_program :: "etb_program \<Rightarrow> bool" where
  "wf_program p \<longleftrightarrow> list_all wf_statement p"

end
