(* ===== verification/Canon.thy ===== *)
theory Canon
  imports Ast
begin

text \<open>
  The canonical text of terms and atoms and the relation key of an atom:
  \<open>src/core/canon.c\<close>. The growing buffer of \<open>etb_append\<close> is the string written so far;
  \<open>etb_append\<close> takes the length of its argument first, so a null argument is undefined
  behaviour, while a null argument of \<open>%s\<close> prints \<open>(null)\<close>.

  The relation key decides which table a fact lives in. Keys are unambiguous for names that
  contain no slash and avoid the two reserved prefixes; the section ends with the atoms whose
  keys collide.
\<close>

section \<open>Canonical text\<close>

definition etb_append :: "string \<Rightarrow> string option \<Rightarrow> string res" where
  "etb_append buffer text =
     (case text of None \<Rightarrow> Inl Null_deref | Some s \<Rightarrow> Inr (buffer @ s))"

lemma etb_append_Some [simp, res_simps]: "etb_append buffer (Some s) = Inr (buffer @ s)"
  by (simp add: etb_append_def)

lemma etb_append_None [simp, res_simps]: "etb_append buffer None = Inl Null_deref"
  by (simp add: etb_append_def)

definition etb_term_canonical_text :: "etb_term \<Rightarrow> string" where
  "etb_term_canonical_text t =
     (case t_kind t of
        ETB_TERM_SYMBOL \<Rightarrow> (case t_text t of None \<Rightarrow> '''' | Some s \<Rightarrow> s)
      | ETB_TERM_VARIABLE \<Rightarrow> ''?'' @ (case t_text t of None \<Rightarrow> ''_'' | Some s \<Rightarrow> s)
      | ETB_TERM_STRING \<Rightarrow>
          [CHR 0x22] @ (case t_text t of None \<Rightarrow> '''' | Some s \<Rightarrow> s) @ [CHR 0x22]
      | ETB_TERM_INTEGER \<Rightarrow> fmt_int (t_integer t)
      | ETB_TERM_NULL \<Rightarrow> ''null'')"

text \<open>The loop over the terms: a comma after every term but the last.\<close>

fun canonical_terms :: "etb_term list \<Rightarrow> string \<Rightarrow> string res" where
  "canonical_terms [] buffer = Inr buffer"
| "canonical_terms (t # ts) buffer =
     bind_res (etb_append buffer (Some (etb_term_canonical_text t))) (\<lambda>buffer.
       bind_res (if ts \<noteq> [] then etb_append buffer (Some '','') else Inr buffer)
         (canonical_terms ts))"

definition fmt_scope :: "string option \<Rightarrow> string" where
  "fmt_scope scope = (case scope of None \<Rightarrow> ''*'' | Some s \<Rightarrow> s)"

definition etb_atom_canonical_text :: "etb_atom \<Rightarrow> string res" where
  "etb_atom_canonical_text atom =
     (if a_kind atom = ETB_ATOM_SPEAKS_FOR then
        Inr (fmt_s (a_principal atom) @ '' speaks_for '' @ fmt_s (a_delegate atom) @ ''['' @
             fmt_scope (d_scope (a_delegation atom)) @ ''|'' @
             dec (unat (d_expires_at (a_delegation atom))) @ ''|'' @
             dec (unat (d_max_depth (a_delegation atom))) @ '']'')
      else
        bind_res (if a_kind atom = ETB_ATOM_SAYS
                  then bind_res (etb_append '''' (a_principal atom))
                         (\<lambda>buffer. etb_append buffer (Some '' says ''))
                  else Inr '''') (\<lambda>buffer.
        bind_res (etb_append buffer (a_predicate atom)) (\<lambda>buffer.
        bind_res (if a_terms atom = [] then Inr buffer
                  else bind_res (etb_append buffer (Some ''('')) (\<lambda>buffer.
                       bind_res (canonical_terms (a_terms atom) buffer) (\<lambda>buffer.
                         etb_append buffer (Some '')''))))
          (\<lambda>buffer.
             if a_temporal_kind atom = ETB_TEMPORAL_NONE then Inr buffer
             else etb_append buffer (Some
               ((if a_temporal_kind atom = ETB_TEMPORAL_EXPIRES_AT then ''@'' else '' at '') @
                dec (unat (a_temporal_value atom))))))))"

text \<open>The text as one expression, for an atom whose names are present.\<close>

fun terms_text :: "etb_term list \<Rightarrow> string" where
  "terms_text [] = ''''"
| "terms_text [t] = etb_term_canonical_text t"
| "terms_text (t # u # ts) = etb_term_canonical_text t @ '','' @ terms_text (u # ts)"

lemma canonical_terms_eq: "canonical_terms ts buffer = Inr (buffer @ terms_text ts)"
proof (induction ts arbitrary: buffer)
  case Nil
  then show ?case by simp
next
  case (Cons t ts)
  then show ?case by (cases ts) (simp_all del: bind_res_eq_Inr canonical_terms.simps(2)
      add: canonical_terms.simps(2) [of t])
qed

definition temporal_text :: "etb_atom \<Rightarrow> string" where
  "temporal_text a =
     (case a_temporal_kind a of
        ETB_TEMPORAL_NONE \<Rightarrow> ''''
      | ETB_TEMPORAL_EXPIRES_AT \<Rightarrow> ''@'' @ dec (unat (a_temporal_value a))
      | ETB_TEMPORAL_ANCHORED_AT \<Rightarrow> '' at '' @ dec (unat (a_temporal_value a)))"

definition args_text :: "etb_atom \<Rightarrow> string" where
  "args_text a = (if a_terms a = [] then '''' else ''('' @ terms_text (a_terms a) @ '')'')"

lemma canonical_predicate:
  "a_kind a = ETB_ATOM_PREDICATE \<Longrightarrow> a_predicate a = Some p \<Longrightarrow>
     etb_atom_canonical_text a = Inr (p @ args_text a @ temporal_text a)"
  by (simp add: etb_atom_canonical_text_def canonical_terms_eq args_text_def temporal_text_def
      split: etb_temporal_kind.split)

lemma canonical_says:
  "a_kind a = ETB_ATOM_SAYS \<Longrightarrow> a_principal a = Some q \<Longrightarrow> a_predicate a = Some p \<Longrightarrow>
     etb_atom_canonical_text a = Inr (q @ '' says '' @ p @ args_text a @ temporal_text a)"
  by (simp add: etb_atom_canonical_text_def canonical_terms_eq args_text_def temporal_text_def
      split: etb_temporal_kind.split)

text \<open>Printing succeeds exactly on the atoms whose printed names are present.\<close>

lemma etb_atom_canonical_text_ok:
  "(\<exists>s. etb_atom_canonical_text a = Inr s) \<longleftrightarrow>
     (a_kind a = ETB_ATOM_SAYS \<longrightarrow> a_principal a \<noteq> None) \<and>
     (a_kind a \<noteq> ETB_ATOM_SPEAKS_FOR \<longrightarrow> a_predicate a \<noteq> None)"
  by (cases "a_kind a"; cases "a_principal a"; cases "a_predicate a")
    (simp_all add: etb_atom_canonical_text_def canonical_terms_eq)

lemma etb_atom_canonical_text_wf: "wf_atom a \<Longrightarrow> \<exists>s. etb_atom_canonical_text a = Inr s"
  by (simp add: etb_atom_canonical_text_ok wf_atom_def split: etb_atom_kind.splits)

lemma etb_atom_canonical_text_Inl:
  "etb_atom_canonical_text a = Inl e \<Longrightarrow> e = Null_deref"
  by (cases "a_kind a"; cases "a_principal a"; cases "a_predicate a")
    (auto simp: etb_atom_canonical_text_def canonical_terms_eq split: if_splits)

section \<open>Relation keys\<close>

definition etb_atom_relation_key :: "etb_atom \<Rightarrow> string" where
  "etb_atom_relation_key atom =
     (if a_kind atom = ETB_ATOM_SPEAKS_FOR then ''__speaks_for__/2''
      else if a_kind atom = ETB_ATOM_SAYS then
        ''__says__/'' @ fmt_s (a_principal atom) @ ''/'' @ fmt_s (a_predicate atom) @ ''/'' @
        dec (length (a_terms atom))
      else fmt_s (a_predicate atom) @ ''/'' @ dec (length (a_terms atom)))"

text \<open>
  The data a key is meant to stand for: the kind, the asserting principal of a \<open>says\<close> atom, the
  predicate and the arity.
\<close>

definition atom_signature :: "etb_atom \<Rightarrow> etb_atom_kind \<times> string option \<times> string option \<times> nat" where
  "atom_signature a =
     (case a_kind a of
        ETB_ATOM_PREDICATE \<Rightarrow> (ETB_ATOM_PREDICATE, None, a_predicate a, length (a_terms a))
      | ETB_ATOM_SAYS \<Rightarrow> (ETB_ATOM_SAYS, a_principal a, a_predicate a, length (a_terms a))
      | ETB_ATOM_SPEAKS_FOR \<Rightarrow> (ETB_ATOM_SPEAKS_FOR, None, None, 0))"

text \<open>The two reserved first segments; the proofs need only that they hold no slash and differ.\<close>

definition says_segment :: string where
  "says_segment = ''__says__''"

definition speaks_for_segment :: string where
  "speaks_for_segment = ''__speaks_for__''"

lemma reserved_segments:
  "CHR ''/'' \<notin> set says_segment" "CHR ''/'' \<notin> set speaks_for_segment"
  "says_segment \<noteq> speaks_for_segment"
  by (simp_all add: says_segment_def speaks_for_segment_def)

definition plain_name :: "string option \<Rightarrow> bool" where
  "plain_name n \<longleftrightarrow> (\<exists>s. n = Some s \<and> CHR ''/'' \<notin> set s \<and>
     s \<noteq> says_segment \<and> s \<noteq> speaks_for_segment)"

definition plain_atom :: "etb_atom \<Rightarrow> bool" where
  "plain_atom a \<longleftrightarrow>
     (case a_kind a of
        ETB_ATOM_PREDICATE \<Rightarrow> plain_name (a_predicate a)
      | ETB_ATOM_SAYS \<Rightarrow> plain_name (a_predicate a) \<and> plain_name (a_principal a)
      | ETB_ATOM_SPEAKS_FOR \<Rightarrow> True)"

lemma slash_split:
  assumes "CHR ''/'' \<notin> set u" and "CHR ''/'' \<notin> set v"
  shows "u @ CHR ''/'' # x = v @ CHR ''/'' # y \<longleftrightarrow> u = v \<and> x = y"
  using assms
proof (induction u arbitrary: v)
  case Nil
  then show ?case by (cases v) auto
next
  case (Cons c u)
  then show ?case by (cases v) auto
qed

lemma slash_not_in_dec: "CHR ''/'' \<notin> set (dec n)"
  using dec_digits [of "CHR ''/''" n] by (auto simp: is_digit_def)

lemma dec_inject [simp]: "dec m = dec n \<longleftrightarrow> m = n"
  by (metis dec_value_dec)

lemma dec_2: "dec 2 = ''2''"
  by code_simp

text \<open>The segments of a key: the key is its segments joined by slashes.\<close>

lemma key_of_plain:
  assumes "plain_atom a"
  shows "etb_atom_relation_key a =
     (case atom_signature a of
        (ETB_ATOM_PREDICATE, _, Some p, n) \<Rightarrow> p @ ''/'' @ dec n
      | (ETB_ATOM_SAYS, Some q, Some p, n) \<Rightarrow> says_segment @ ''/'' @ q @ ''/'' @ p @ ''/'' @ dec n
      | _ \<Rightarrow> speaks_for_segment @ ''/'' @ dec 2)"
  using assms
  by (auto simp: plain_atom_def plain_name_def atom_signature_def etb_atom_relation_key_def
      fmt_s_def dec_2 says_segment_def speaks_for_segment_def split: etb_atom_kind.splits)

text \<open>
  On atoms with plain names the relation key determines, and is determined by, the kind,
  principal, predicate and arity: two atoms share a relation exactly when they agree on those.
\<close>

theorem etb_atom_relation_key_inject:
  assumes a: "plain_atom a" and b: "plain_atom b"
  shows "etb_atom_relation_key a = etb_atom_relation_key b \<longleftrightarrow> atom_signature a = atom_signature b"
proof
  assume eq: "etb_atom_relation_key a = etb_atom_relation_key b"
  then show "atom_signature a = atom_signature b"
    using a b unfolding key_of_plain [OF a] key_of_plain [OF b]
    by (cases "a_kind a"; cases "a_kind b")
      (auto simp: plain_atom_def plain_name_def atom_signature_def slash_split slash_not_in_dec
        reserved_segments reserved_segments(3) [symmetric])
next
  assume "atom_signature a = atom_signature b"
  then show "etb_atom_relation_key a = etb_atom_relation_key b"
    unfolding key_of_plain [OF a] key_of_plain [OF b] by simp
qed

text \<open>
  The reserved names do collide: a two-place predicate called \<open>__speaks_for__\<close> shares its
  relation with every delegation.
\<close>

lemma relation_key_collision:
  "etb_atom_relation_key (etb_atom_init\<lparr>a_predicate := Some ''__speaks_for__'',
       a_terms := [etb_term_make_null, etb_term_make_null]\<rparr>)
     = etb_atom_relation_key (etb_atom_init\<lparr>a_kind := ETB_ATOM_SPEAKS_FOR\<rparr>)"
  by (simp add: etb_atom_relation_key_def etb_atom_init_def fmt_s_def dec_2
      flip: numeral_2_eq_2)

definition sample_says :: etb_atom where
  "sample_says = etb_atom_init\<lparr>a_kind := ETB_ATOM_SAYS, a_principal := Some ''alice'',
     a_predicate := Some ''ok'', a_terms := [etb_term_make_symbol (Some ''x'')]\<rparr>"

lemma etb_atom_relation_key_inject_witness:
  "(etb_atom_relation_key sample_says =
      etb_atom_relation_key (sample_says\<lparr>a_principal := Some ''bob''\<rparr>)) = False"
proof -
  have "plain_atom sample_says" "plain_atom (sample_says\<lparr>a_principal := Some ''bob''\<rparr>)"
    by (simp_all add: plain_atom_def plain_name_def sample_says_def etb_atom_init_def
        says_segment_def speaks_for_segment_def)
  moreover have "atom_signature sample_says \<noteq>
      atom_signature (sample_says\<lparr>a_principal := Some ''bob''\<rparr>)"
    by (simp add: atom_signature_def sample_says_def etb_atom_init_def)
  ultimately show ?thesis
    using etb_atom_relation_key_inject [of sample_says "sample_says\<lparr>a_principal := Some ''bob''\<rparr>"]
    by simp
qed

end
