(* ===== verification/Parser.thy ===== *)
theory Parser
  imports Canon
begin

text \<open>
  The scanner and the recursive-descent parser: \<open>src/core/parser.c\<close>. The pointer
  \<open>source + offset\<close> is the rest of the NUL-terminated source; reading at the end of the rest
  is reading the NUL. Character classes are those of the C locale, which the programs never
  change. The error text is the untruncated one.

  A parser function returns its failure together with the scanner it stopped at, because
  several callers overwrite the message and take the line number from the current token.
  Every loop consumes a token per round; \<open>scanner_size\<close> counts the characters left and the
  current token, and is the measure that proves the loops terminate.
\<close>

section \<open>Scanner\<close>

datatype etb_token_kind =
    TOK_EOF | TOK_IDENT | TOK_STRING | TOK_INTEGER | TOK_LPAREN | TOK_RPAREN | TOK_LBRACKET
  | TOK_RBRACKET | TOK_COMMA | TOK_DOT | TOK_COLON_DASH | TOK_SLASH | TOK_EQUAL | TOK_AT

record etb_token =
  tk_kind :: etb_token_kind
  tk_text :: "string option"
  tk_integer :: u64
  tk_line :: nat

record etb_scanner =
  sc_rest :: string
  sc_line :: nat
  sc_current :: etb_token

type_synonym 'a presult = "(etb_error \<times> etb_scanner) + ('a \<times> etb_scanner)"

definition bind_p :: "'a presult \<Rightarrow> ('a \<Rightarrow> etb_scanner \<Rightarrow> 'b presult) \<Rightarrow> 'b presult" where
  "bind_p m f = (case m of Inl e \<Rightarrow> Inl e | Inr (a, sc) \<Rightarrow> f a sc)"

lemma bind_p_simps [simp]:
  "bind_p (Inl e) f = Inl e" "bind_p (Inr (a, sc)) f = f a sc"
  by (simp_all add: bind_p_def)

lemma bind_p_eq_Inr:
  "bind_p m f = Inr r \<longleftrightarrow> (\<exists>a sc. m = Inr (a, sc) \<and> f a sc = Inr r)"
  by (auto simp: bind_p_def split: sum.splits)

lemma bind_p_eq_Inl:
  "bind_p m f = Inl e \<longleftrightarrow> m = Inl e \<or> (\<exists>a sc. m = Inr (a, sc) \<and> f a sc = Inl e)"
  by (auto simp: bind_p_def split: sum.splits)

lemma bind_p_cong [fundef_cong]:
  "m = m' \<Longrightarrow> (\<And>a sc. m' = Inr (a, sc) \<Longrightarrow> f a sc = g a sc) \<Longrightarrow> bind_p m f = bind_p m' g"
  by (auto simp: bind_p_def split: sum.splits)

definition is_space :: "char \<Rightarrow> bool" where
  "is_space c \<longleftrightarrow> (let n = of_char c :: nat in n = 32 \<or> 9 \<le> n \<and> n \<le> 13)"

definition is_upper :: "char \<Rightarrow> bool" where
  "is_upper c \<longleftrightarrow> (let n = of_char c :: nat in 65 \<le> n \<and> n \<le> 90)"

definition is_lower :: "char \<Rightarrow> bool" where
  "is_lower c \<longleftrightarrow> (let n = of_char c :: nat in 97 \<le> n \<and> n \<le> 122)"

definition is_alnum :: "char \<Rightarrow> bool" where
  "is_alnum c \<longleftrightarrow> is_upper c \<or> is_lower c \<or> is_digit c"

text \<open>\<open>strtoll(text, NULL, 10)\<close> on a run of digits saturates at \<open>LLONG_MAX\<close>.\<close>

definition strtoll :: "string \<Rightarrow> u64" where
  "strtoll s = of_nat (min (dec_value s) (2 ^ 63 - 1))"

definition etb_set_error :: "nat \<Rightarrow> string \<Rightarrow> etb_error" where
  "etb_set_error line message = Fail (''line '' @ dec line @ '': '' @ message)"

function etb_scanner_skip_space :: "string \<Rightarrow> nat \<Rightarrow> string \<times> nat" where
  "etb_scanner_skip_space rest line =
     (case rest of
        [] \<Rightarrow> (rest, line)
      | ch # rest' \<Rightarrow>
          if ch = CHR ''#'' then
            etb_scanner_skip_space (dropWhile (\<lambda>c. c \<noteq> CHR 0x0A) rest) line
          else if \<not> is_space ch then (rest, line)
          else etb_scanner_skip_space rest' (if ch = CHR 0x0A then line + 1 else line))"
  by pat_completeness auto

termination etb_scanner_skip_space
  by (relation "measure (length \<circ> fst)") (auto simp: le_imp_less_Suc length_dropWhile_le)

declare etb_scanner_skip_space.simps [simp del]

lemma skip_space_simps:
  "etb_scanner_skip_space [] line = ([], line)"
  "etb_scanner_skip_space (CHR ''#'' # rest) line =
     etb_scanner_skip_space (dropWhile (\<lambda>c. c \<noteq> CHR 0x0A) rest) line"
  "ch \<noteq> CHR ''#'' \<Longrightarrow> \<not> is_space ch \<Longrightarrow> etb_scanner_skip_space (ch # rest) line = (ch # rest, line)"
  "ch \<noteq> CHR ''#'' \<Longrightarrow> is_space ch \<Longrightarrow> etb_scanner_skip_space (ch # rest) line =
     etb_scanner_skip_space rest (if ch = CHR 0x0A then line + 1 else line)"
  by (simp_all add: etb_scanner_skip_space.simps [of "_ # _"] etb_scanner_skip_space.simps [of "[]"])

definition etb_ident_char :: "char \<Rightarrow> bool" where
  "etb_ident_char ch \<longleftrightarrow> is_alnum ch \<or> ch = CHR ''_'' \<or> ch = CHR '':'' \<or> ch = CHR ''-''"

definition newlines :: "string \<Rightarrow> nat" where
  "newlines s = length (filter (\<lambda>c. c = CHR 0x0A) s)"

text \<open>The one-character tokens, in the order of the code's tests.\<close>

definition punctuation :: "char \<Rightarrow> etb_token_kind option" where
  "punctuation ch =
     (if ch = CHR ''('' then Some TOK_LPAREN
      else if ch = CHR '')'' then Some TOK_RPAREN
      else if ch = CHR ''['' then Some TOK_LBRACKET
      else if ch = CHR '']'' then Some TOK_RBRACKET
      else if ch = CHR '','' then Some TOK_COMMA
      else if ch = CHR ''.'' then Some TOK_DOT
      else if ch = CHR ''/'' then Some TOK_SLASH
      else if ch = CHR ''='' then Some TOK_EQUAL
      else if ch = CHR ''@'' then Some TOK_AT
      else None)"

definition etb_scanner_advance :: "etb_scanner \<Rightarrow> unit presult" where
  "etb_scanner_advance scanner =
     (let (rest, line) = etb_scanner_skip_space (sc_rest scanner) (sc_line scanner);
          token = \<lparr>tk_kind = TOK_EOF, tk_text = None, tk_integer = 0, tk_line = line\<rparr>;
          at = (\<lambda>rest line token. \<lparr>sc_rest = rest, sc_line = line, sc_current = token\<rparr>)
      in case rest of
           [] \<Rightarrow> Inr ((), at rest line token)
         | ch # rest' \<Rightarrow>
           (case punctuation ch of
              Some kind \<Rightarrow> Inr ((), at rest' line (token\<lparr>tk_kind := kind\<rparr>))
            | None \<Rightarrow>
              if ch = CHR '':'' \<and> (case rest' of c # _ \<Rightarrow> c = CHR ''-'' | [] \<Rightarrow> False) then
                Inr ((), at (tl rest') line (token\<lparr>tk_kind := TOK_COLON_DASH\<rparr>))
              else if ch = CHR 0x22 then
                let body = takeWhile (\<lambda>c. c \<noteq> CHR 0x22) rest';
                    after = dropWhile (\<lambda>c. c \<noteq> CHR 0x22) rest';
                    line = line + newlines body
                in case after of
                     [] \<Rightarrow> Inl (etb_set_error line ''unterminated string'', at after line token)
                   | _ # after' \<Rightarrow>
                       Inr ((), at after' line (token\<lparr>tk_kind := TOK_STRING, tk_text := Some body\<rparr>))
              else if is_digit ch then
                let body = takeWhile is_digit rest
                in Inr ((), at (dropWhile is_digit rest) line
                     (token\<lparr>tk_kind := TOK_INTEGER, tk_text := Some body,
                            tk_integer := strtoll body\<rparr>))
              else if etb_ident_char ch then
                Inr ((), at (dropWhile etb_ident_char rest) line
                     (token\<lparr>tk_kind := TOK_IDENT, tk_text := Some (takeWhile etb_ident_char rest)\<rparr>))
              else Inl (etb_set_error line ''unexpected character'', at rest line token)))"

definition etb_token_is :: "etb_scanner \<Rightarrow> etb_token_kind \<Rightarrow> string option \<Rightarrow> bool" where
  "etb_token_is scanner kind expected \<longleftrightarrow>
     tk_kind (sc_current scanner) = kind \<and>
     (expected = None \<or> tk_text (sc_current scanner) \<noteq> None \<and> tk_text (sc_current scanner) = expected)"

definition scanner_error :: "etb_scanner \<Rightarrow> string \<Rightarrow> 'a presult" where
  "scanner_error scanner message =
     Inl (etb_set_error (tk_line (sc_current scanner)) message, scanner)"

definition etb_expect :: "etb_scanner \<Rightarrow> etb_token_kind \<Rightarrow> string option \<Rightarrow> unit presult" where
  "etb_expect scanner kind expected =
     (if \<not> etb_token_is scanner kind expected then scanner_error scanner ''unexpected token''
      else etb_scanner_advance scanner)"

text \<open>A caller that overwrites the message of a failed test, with the current token's line.\<close>

definition on_fail_at :: "string \<Rightarrow> 'a presult \<Rightarrow> 'a presult" where
  "on_fail_at message r =
     (case r of Inl (Fail _, scanner) \<Rightarrow> scanner_error scanner message | _ \<Rightarrow> r)"

lemma on_fail_at_eq_Inr [simp]: "on_fail_at message r = Inr x \<longleftrightarrow> r = Inr x"
  by (auto simp: on_fail_at_def scanner_error_def split: sum.splits prod.splits etb_error.splits)

lemma on_fail_at_Inr [simp]: "on_fail_at message (Inr x) = Inr x"
  by (simp add: on_fail_at_def)

text \<open>Taking the text out of the current token, which the parser then owns.\<close>

definition token_text_taken :: "etb_scanner \<Rightarrow> etb_scanner" where
  "token_text_taken scanner = scanner\<lparr>sc_current := (sc_current scanner)\<lparr>tk_text := None\<rparr>\<rparr>"

section \<open>The scanner makes progress\<close>

definition scanner_size :: "etb_scanner \<Rightarrow> nat" where
  "scanner_size sc = length (sc_rest sc) + (if tk_kind (sc_current sc) = TOK_EOF then 0 else 1)"

text \<open>An identifier token owns a non-empty text, a string token a text.\<close>

definition scanner_ok :: "etb_scanner \<Rightarrow> bool" where
  "scanner_ok sc \<longleftrightarrow>
     (tk_kind (sc_current sc) = TOK_IDENT \<longrightarrow> (\<exists>c s. tk_text (sc_current sc) = Some (c # s))) \<and>
     (tk_kind (sc_current sc) = TOK_STRING \<longrightarrow> tk_text (sc_current sc) \<noteq> None)"

lemma skip_space_length: "length (fst (etb_scanner_skip_space rest line)) \<le> length rest"
proof (induction rest line rule: etb_scanner_skip_space.induct)
  case (1 rest line)
  show ?case
  proof (cases rest)
    case Nil
    then show ?thesis by (simp add: skip_space_simps)
  next
    case (Cons ch rest')
    have dw: "length (dropWhile (\<lambda>c. c \<noteq> CHR 0x0A) rest) \<le> length rest"
      by (rule length_dropWhile_le)
    consider (hash) "ch = CHR ''#''" | (stop) "ch \<noteq> CHR ''#''" "\<not> is_space ch"
      | (space) "ch \<noteq> CHR ''#''" "is_space ch" by blast
    then show ?thesis
    proof cases
      case hash
      then show ?thesis
        using "1.IH"(1) [OF Cons hash] dw Cons by (simp add: skip_space_simps(2))
    next
      case stop
      then show ?thesis using Cons by (simp add: skip_space_simps)
    next
      case space
      then show ?thesis using "1.IH"(2) [OF Cons space(1)] Cons by (simp add: skip_space_simps)
    qed
  qed
qed

lemma advance_progress:
  assumes "etb_scanner_advance sc = Inr (u, sc')"
  shows "scanner_size sc' \<le> length (sc_rest sc) \<and> scanner_ok sc'"
proof -
  obtain rest line where sk: "etb_scanner_skip_space (sc_rest sc) (sc_line sc) = (rest, line)"
    by fastforce
  have le: "length rest \<le> length (sc_rest sc)"
    using skip_space_length [of "sc_rest sc" "sc_line sc"] sk by simp
  have dw: "length (dropWhile P xs) \<le> length xs" for P and xs :: string
    by (rule length_dropWhile_le)
  show ?thesis
  proof (cases rest)
    case Nil
    then show ?thesis
      using assms sk by (auto simp: etb_scanner_advance_def scanner_size_def scanner_ok_def)
  next
    case (Cons ch rest')
    have "length (dropWhile P (ch # rest')) \<le> length rest'" if "P ch" for P
      using that dw [of P rest'] by simp
    moreover have "length (tl rest') \<le> length rest'" by simp
    moreover have "length (dropWhile (\<lambda>c. c \<noteq> CHR 0x22) rest') \<le> length rest'" by (rule dw)
    ultimately show ?thesis
      using assms sk le Cons
      by (fastforce simp: etb_scanner_advance_def scanner_size_def scanner_ok_def Let_def
          punctuation_def split: if_splits list.splits option.splits)
  qed
qed

lemmas advance_size = advance_progress [THEN conjunct1]
lemmas advance_ok = advance_progress [THEN conjunct2]

lemma advance_le: "etb_scanner_advance sc = Inr (u, sc') \<Longrightarrow> scanner_size sc' \<le> scanner_size sc"
  using advance_size by (fastforce simp: scanner_size_def)

lemma advance_less:
  "etb_scanner_advance sc = Inr (u, sc') \<Longrightarrow> tk_kind (sc_current sc) \<noteq> TOK_EOF \<Longrightarrow>
     scanner_size sc' < scanner_size sc"
  using advance_size by (fastforce simp: scanner_size_def)

lemma token_is_kind: "etb_token_is sc k s \<Longrightarrow> tk_kind (sc_current sc) = k"
  by (simp add: etb_token_is_def)

lemma token_is_None [simp]: "etb_token_is sc k None \<longleftrightarrow> tk_kind (sc_current sc) = k"
  by (simp add: etb_token_is_def)

lemma token_is_Some [simp]:
  "etb_token_is sc k (Some s) \<longleftrightarrow> tk_kind (sc_current sc) = k \<and> tk_text (sc_current sc) = Some s"
  by (auto simp: etb_token_is_def)

lemma taken_simps [simp]:
  "scanner_size (token_text_taken sc) = scanner_size sc"
  "tk_kind (sc_current (token_text_taken sc)) = tk_kind (sc_current sc)"
  "tk_line (sc_current (token_text_taken sc)) = tk_line (sc_current sc)"
  "etb_scanner_advance (token_text_taken sc) = etb_scanner_advance sc"
  by (simp_all add: scanner_size_def token_text_taken_def etb_scanner_advance_def)

lemma expect_Inr:
  "etb_expect sc k s = Inr r \<longleftrightarrow> etb_token_is sc k s \<and> etb_scanner_advance sc = Inr r"
  by (simp add: etb_expect_def scanner_error_def)

lemma scanner_error_not_Inr [simp]: "scanner_error sc m \<noteq> Inr r"
  by (simp add: scanner_error_def)

text \<open>
  \<open>consumes m n\<close>: if the parser succeeds, its scanner is good and smaller than \<open>n\<close>; and it
  fails only with an ordinary error. One rule per construct carries every parser function.
\<close>

definition consumes :: "'a presult \<Rightarrow> nat \<Rightarrow> bool" where
  "consumes m n \<longleftrightarrow>
     (case m of Inl (e, sc) \<Rightarrow> \<exists>msg. e = Fail msg | Inr (a, sc) \<Rightarrow> scanner_size sc < n \<and> scanner_ok sc)"

lemma consumes_Inr [simp]:
  "consumes (Inr (a, sc)) n \<longleftrightarrow> scanner_size sc < n \<and> scanner_ok sc"
  by (simp add: consumes_def)

lemma consumes_error [simp]: "consumes (scanner_error sc m) n" "consumes (Inl (Fail m, sc)) n"
  by (simp_all add: consumes_def scanner_error_def etb_set_error_def)

lemma consumes_D: "consumes m n \<Longrightarrow> m = Inr (a, sc) \<Longrightarrow> scanner_size sc < n \<and> scanner_ok sc"
  by simp

lemma consumes_mono: "consumes m k \<Longrightarrow> k \<le> n \<Longrightarrow> consumes m n"
  by (auto simp: consumes_def split: sum.splits)

lemma consumes_bind:
  assumes "consumes m k"
    and "\<And>a sc. m = Inr (a, sc) \<Longrightarrow> scanner_size sc < k \<Longrightarrow> scanner_ok sc \<Longrightarrow> consumes (f a sc) n"
  shows "consumes (bind_p m f) n"
  using assms by (auto simp: consumes_def bind_p_def split: sum.splits)

lemma consumes_on_fail_at: "consumes m n \<Longrightarrow> consumes (on_fail_at msg m) n"
  by (auto simp: consumes_def on_fail_at_def scanner_error_def etb_set_error_def
      split: sum.splits etb_error.splits)

lemma advance_Inl: "etb_scanner_advance sc = Inl (e, sc') \<Longrightarrow> \<exists>msg. e = Fail msg"
  by (auto simp: etb_scanner_advance_def Let_def etb_set_error_def
      split: prod.splits list.splits option.splits if_splits)

lemma consumes_advance_le: "consumes (etb_scanner_advance sc) (Suc (scanner_size sc))"
  using advance_le [of sc] advance_ok [of sc] advance_Inl [of sc]
  by (auto simp: consumes_def le_imp_less_Suc split: sum.splits)

lemma consumes_advance:
  "tk_kind (sc_current sc) \<noteq> TOK_EOF \<Longrightarrow> consumes (etb_scanner_advance sc) (scanner_size sc)"
  using advance_less [of sc] advance_ok [of sc] advance_Inl [of sc]
  by (auto simp: consumes_def split: sum.splits)

lemma consumes_expect: "k \<noteq> TOK_EOF \<Longrightarrow> consumes (etb_expect sc k s) (scanner_size sc)"
  using consumes_advance [of sc] by (auto simp: etb_expect_def token_is_kind)

text \<open>The same rules with one bound throughout, for chains of calls.\<close>

lemma consumes_advance_within: "scanner_size sc < n \<Longrightarrow> consumes (etb_scanner_advance sc) n"
  by (rule consumes_mono [OF consumes_advance_le]) simp

lemma consumes_expect_within: "scanner_size sc < n \<Longrightarrow> consumes (etb_expect sc k s) n"
  by (simp add: etb_expect_def consumes_advance_within)

lemma consumes_seq:
  "consumes m n \<Longrightarrow>
    (\<And>a sc. m = Inr (a, sc) \<Longrightarrow> scanner_size sc < n \<Longrightarrow> scanner_ok sc \<Longrightarrow> consumes (f a sc) n) \<Longrightarrow>
    consumes (bind_p m f) n"
  by (rule consumes_bind)

lemma consumes_if: "(b \<Longrightarrow> consumes m n) \<Longrightarrow> (\<not> b \<Longrightarrow> consumes m' n) \<Longrightarrow>
    consumes (if b then m else m') n"
  by simp

section \<open>Attribute blocks\<close>

text \<open>
  \<open>etb_parse_attr_block\<close> fills either an atom's delegation or a capability declaration: each
  call passes one of the two and NULL for the other.
\<close>

datatype attr_target = Attr_atom etb_atom | Attr_capability etb_capability_decl

text \<open>The assignment of one \<open>key = value\<close>; an unknown key or an unsuitable value is ignored.\<close>

definition etb_attr_assign :: "attr_target \<Rightarrow> string \<Rightarrow> etb_scanner \<Rightarrow> attr_target presult" where
  "etb_attr_assign target key scanner =
     (let token = sc_current scanner in
      case target of
        Attr_capability capability \<Rightarrow>
          if key = ''path'' then
            if tk_kind token \<noteq> TOK_STRING \<and> tk_kind token \<noteq> TOK_IDENT then
              scanner_error scanner ''expected path value''
            else Inr (Attr_capability (capability\<lparr>c_path := tk_text token\<rparr>), token_text_taken scanner)
          else if key = ''deterministic'' then
            Inr (Attr_capability
                  (capability\<lparr>c_deterministic := etb_token_is scanner TOK_IDENT (Some ''true'')\<rparr>), scanner)
          else if key = ''proof_admissible'' then
            Inr (Attr_capability
                  (capability\<lparr>c_proof_admissible := etb_token_is scanner TOK_IDENT (Some ''true'')\<rparr>), scanner)
          else if key = ''timeout_ms'' \<and> tk_kind token = TOK_INTEGER then
            Inr (Attr_capability (capability\<lparr>c_timeout_ms := ucast (tk_integer token)\<rparr>), scanner)
          else Inr (target, scanner)
      | Attr_atom atom \<Rightarrow>
          if key = ''scope'' \<and> (tk_kind token = TOK_IDENT \<or> tk_kind token = TOK_STRING) then
            Inr (Attr_atom (atom\<lparr>a_delegation := (a_delegation atom)\<lparr>d_scope := tk_text token\<rparr>\<rparr>),
                 token_text_taken scanner)
          else if key = ''expires'' \<and> tk_kind token = TOK_INTEGER then
            Inr (Attr_atom (atom\<lparr>a_delegation := (a_delegation atom)\<lparr>d_expires_at := tk_integer token\<rparr>\<rparr>),
                 scanner)
          else if key = ''depth'' \<and> tk_kind token = TOK_INTEGER then
            Inr (Attr_atom (atom\<lparr>a_delegation :=
                   (a_delegation atom)\<lparr>d_max_depth := ucast (tk_integer token)\<rparr>\<rparr>), scanner)
          else Inr (target, scanner))"

lemma attr_assign_size:
  "etb_attr_assign target key sc = Inr (target', sc') \<Longrightarrow> scanner_size sc' = scanner_size sc"
  by (auto simp: etb_attr_assign_def Let_def split: attr_target.splits if_splits)

lemma attr_assign_Inl: "etb_attr_assign target key sc = Inl (e, sc') \<Longrightarrow> \<exists>msg. e = Fail msg"
  by (auto simp: etb_attr_assign_def Let_def scanner_error_def etb_set_error_def
      split: attr_target.splits if_splits)

text \<open>
  One round of the loop up to the token after the value. The \<open>strcmp\<close> on the key is on the text
  taken from the identifier token.
\<close>

definition etb_attr_entry :: "attr_target \<Rightarrow> etb_scanner \<Rightarrow> attr_target presult" where
  "etb_attr_entry target scanner =
     (if \<not> etb_token_is scanner TOK_IDENT None then
        scanner_error scanner ''expected attribute key''
      else
        let key = tk_text (sc_current scanner) in
        bind_p (etb_scanner_advance (token_text_taken scanner)) (\<lambda>_ scanner.
        bind_p (etb_expect scanner TOK_EQUAL None) (\<lambda>_ scanner.
        bind_p (case key of None \<Rightarrow> Inl (Null_deref, scanner)
                | Some k \<Rightarrow> etb_attr_assign target k scanner) (\<lambda>target scanner.
        bind_p (etb_scanner_advance scanner) (\<lambda>_ scanner. Inr (target, scanner))))))"

lemma attr_entry_less:
  assumes "etb_attr_entry target sc = Inr (target', sc')"
  shows "scanner_size sc' < scanner_size sc \<and> scanner_ok sc'"
proof -
  obtain u1 sc1 u2 sc2 k sc3 u4 where id: "tk_kind (sc_current sc) = TOK_IDENT"
    and s: "etb_scanner_advance sc = Inr (u1, sc1)" "etb_expect sc1 TOK_EQUAL None = Inr (u2, sc2)"
    and as: "etb_attr_assign target k sc2 = Inr (target', sc3)"
    and s4: "etb_scanner_advance sc3 = Inr (u4, sc')"
    using assms by (auto simp: etb_attr_entry_def Let_def bind_p_eq_Inr split: if_splits option.splits)
  have "scanner_size sc1 < scanner_size sc" using advance_less [OF s(1)] id by simp
  moreover have "scanner_size sc2 \<le> scanner_size sc1"
    using advance_le [of sc1 u2 sc2] s(2) by (simp add: expect_Inr)
  ultimately show ?thesis
    using attr_assign_size [OF as] advance_le [OF s4] advance_ok [OF s4] by simp
qed

lemma consumes_attr_entry:
  assumes "scanner_ok sc"
  shows "consumes (etb_attr_entry target sc) (scanner_size sc)"
proof (cases "etb_attr_entry target sc")
  case (Inr r)
  then show ?thesis using attr_entry_less by (cases r) auto
next
  case (Inl r)
  moreover obtain e sc' where "r = (e, sc')" by fastforce
  ultimately have "\<exists>msg. e = Fail msg"
    using assms
    by (auto simp: etb_attr_entry_def Let_def bind_p_eq_Inl etb_expect_def scanner_error_def
        etb_set_error_def scanner_ok_def dest: advance_Inl attr_assign_Inl split: if_splits option.splits)
  then show ?thesis using Inl \<open>r = (e, sc')\<close> by auto
qed

function etb_attr_loop :: "attr_target \<Rightarrow> etb_scanner \<Rightarrow> attr_target presult" where
  "etb_attr_loop target scanner =
     (if etb_token_is scanner TOK_RBRACKET None then Inr (target, scanner)
      else
        bind_p (etb_attr_entry target scanner) (\<lambda>target' sc1.
        if etb_token_is sc1 TOK_COMMA None then
          bind_p (etb_scanner_advance sc1) (\<lambda>_ sc2. etb_attr_loop target' sc2)
        else Inr (target', sc1)))"
  by pat_completeness auto

termination etb_attr_loop
  by (relation "measure (scanner_size \<circ> snd)")
    (auto dest!: attr_entry_less advance_le intro: le_less_trans)

declare etb_attr_loop.simps [simp del]

text \<open>The loop over comma-separated items, once for every such loop of the parser.\<close>

lemma consumes_comma:
  assumes "consumes (Inr (a, sc)) n"
    and "\<And>sc'. etb_token_is sc TOK_COMMA None \<Longrightarrow> etb_scanner_advance sc = Inr ((), sc') \<Longrightarrow>
      scanner_size sc' < n \<Longrightarrow> scanner_ok sc' \<Longrightarrow> consumes (f sc') n"
  shows "consumes (if etb_token_is sc TOK_COMMA None
                   then bind_p (etb_scanner_advance sc) (\<lambda>_ sc'. f sc') else Inr (a, sc)) n"
proof (cases "etb_token_is sc TOK_COMMA None")
  case False
  then show ?thesis using assms(1) by simp
next
  case True
  have "consumes (bind_p (etb_scanner_advance sc) (\<lambda>_ sc'. f sc')) n"
  proof (rule consumes_bind [OF consumes_advance_le])
    fix u sc' assume s: "etb_scanner_advance sc = Inr (u, sc')"
      and "scanner_size sc' < Suc (scanner_size sc)" "scanner_ok sc'"
    then show "consumes (f sc') n" using assms True by (cases u) auto
  qed
  then show ?thesis using True by simp
qed

lemma consumes_attr_loop:
  "scanner_ok sc \<Longrightarrow> scanner_size sc < n \<Longrightarrow> consumes (etb_attr_loop target sc) n"
proof (induction target sc rule: etb_attr_loop.induct)
  case (1 target sc)
  show ?case
  proof (cases "etb_token_is sc TOK_RBRACKET None")
    case True
    then show ?thesis using "1.prems" by (simp add: etb_attr_loop.simps [of target sc])
  next
    case False
    have "consumes (bind_p (etb_attr_entry target sc) (\<lambda>target' sc1.
        if etb_token_is sc1 TOK_COMMA None then
          bind_p (etb_scanner_advance sc1) (\<lambda>_ sc2. etb_attr_loop target' sc2)
        else Inr (target', sc1))) n"
      using "1.IH" [OF False] "1.prems"
      by (intro consumes_bind [OF consumes_attr_entry] consumes_comma) auto
    then show ?thesis using False by (simp only: etb_attr_loop.simps [of target sc] if_False)
  qed
qed

definition etb_parse_attr_block :: "etb_scanner \<Rightarrow> attr_target \<Rightarrow> attr_target presult" where
  "etb_parse_attr_block scanner target =
     (if \<not> etb_token_is scanner TOK_LBRACKET None then Inr (target, scanner)
      else bind_p (etb_scanner_advance scanner) (\<lambda>_ scanner.
           bind_p (etb_attr_loop target scanner) (\<lambda>target scanner.
           bind_p (etb_expect scanner TOK_RBRACKET None) (\<lambda>_ scanner. Inr (target, scanner)))))"

lemma consumes_attr_block:
  "scanner_ok sc \<Longrightarrow> scanner_size sc < n \<Longrightarrow> consumes (etb_parse_attr_block sc target) n"
  unfolding etb_parse_attr_block_def
  by (auto intro!: consumes_bind [OF consumes_advance_le] consumes_bind [OF consumes_attr_loop]
      consumes_bind [OF consumes_expect])

section \<open>Terms and atoms\<close>

definition etb_parse_term :: "etb_scanner \<Rightarrow> etb_term presult" where
  "etb_parse_term scanner =
     (let token = sc_current scanner;
          made = (\<lambda>t. bind_p (etb_scanner_advance scanner) (\<lambda>_ scanner. Inr (t, scanner)))
      in case tk_kind token of
           TOK_INTEGER \<Rightarrow> made (etb_term_make_integer (tk_integer token))
         | TOK_STRING \<Rightarrow> made (etb_term_make_string (tk_text token))
         | TOK_IDENT \<Rightarrow>
             (case tk_text token of
                None \<Rightarrow> Inl (Null_deref, scanner)
              | Some s \<Rightarrow>
                  if s = ''null'' then made etb_term_make_null
                  else if (case s of [] \<Rightarrow> False | c # _ \<Rightarrow> is_upper c \<or> c = CHR ''_'') then
                    made (etb_term_make_variable (tk_text token))
                  else made (etb_term_make_symbol (tk_text token)))
         | _ \<Rightarrow> scanner_error scanner ''expected term'')"

lemma consumes_made:
  "tk_kind (sc_current sc) \<noteq> TOK_EOF \<Longrightarrow>
     consumes (bind_p (etb_scanner_advance sc) (\<lambda>_ scanner. Inr (t, scanner))) (scanner_size sc)"
  by (rule consumes_bind [OF consumes_advance]) auto

lemma consumes_term: "scanner_ok sc \<Longrightarrow> consumes (etb_parse_term sc) (scanner_size sc)"
  by (auto simp: etb_parse_term_def Let_def scanner_ok_def intro!: consumes_made
      split: etb_token_kind.splits)

lemma term_less:
  assumes "etb_parse_term sc = Inr (t, sc')"
  shows "scanner_size sc' < scanner_size sc"
proof -
  have "tk_kind (sc_current sc) \<noteq> TOK_EOF" and "\<exists>u. etb_scanner_advance sc = Inr (u, sc')"
    using assms
    by (auto simp: etb_parse_term_def Let_def bind_p_eq_Inr
        split: etb_token_kind.splits option.splits if_splits)
  then show ?thesis using advance_less by blast
qed

text \<open>
  The loop over the arguments. \<open>etb_parse_atom_core\<close> and \<open>etb_parse_predicate_atom\<close> have a copy
  each; they differ in that the second overwrites the message of a bad term.
\<close>

definition etb_parse_arg :: "string option \<Rightarrow> etb_scanner \<Rightarrow> etb_term presult" where
  "etb_parse_arg overwrite scanner =
     (case overwrite of
        None \<Rightarrow> etb_parse_term scanner
      | Some message \<Rightarrow> on_fail_at message (etb_parse_term scanner))"

lemma arg_less: "etb_parse_arg overwrite sc = Inr (t, sc') \<Longrightarrow> scanner_size sc' < scanner_size sc"
  by (auto simp: etb_parse_arg_def dest: term_less split: option.splits)

lemma consumes_arg: "scanner_ok sc \<Longrightarrow> consumes (etb_parse_arg overwrite sc) (scanner_size sc)"
  by (auto simp: etb_parse_arg_def intro: consumes_on_fail_at consumes_term split: option.splits)

function etb_args_loop ::
    "string option \<Rightarrow> etb_term list \<Rightarrow> etb_scanner \<Rightarrow> etb_term list presult" where
  "etb_args_loop overwrite terms scanner =
     (if etb_token_is scanner TOK_RPAREN None then Inr (terms, scanner)
      else
        bind_p (etb_parse_arg overwrite scanner) (\<lambda>t sc1.
        if etb_token_is sc1 TOK_COMMA None then
          bind_p (etb_scanner_advance sc1) (\<lambda>_ sc2.
            etb_args_loop overwrite (etb_term_list_push terms t) sc2)
        else Inr (etb_term_list_push terms t, sc1)))"
  by pat_completeness auto

termination etb_args_loop
  by (relation "measure (\<lambda>(overwrite, terms, sc). scanner_size sc)")
    (auto dest!: arg_less advance_le intro: le_less_trans)

declare etb_args_loop.simps [simp del]

lemma consumes_args_loop:
  "scanner_ok sc \<Longrightarrow> scanner_size sc < n \<Longrightarrow> consumes (etb_args_loop overwrite terms sc) n"
proof (induction overwrite terms sc rule: etb_args_loop.induct)
  case (1 overwrite terms sc)
  show ?case
  proof (cases "etb_token_is sc TOK_RPAREN None")
    case True
    then show ?thesis using "1.prems" by (simp add: etb_args_loop.simps [of overwrite terms sc])
  next
    case False
    have "consumes (bind_p (etb_parse_arg overwrite sc) (\<lambda>t sc1.
        if etb_token_is sc1 TOK_COMMA None then
          bind_p (etb_scanner_advance sc1) (\<lambda>_ sc2.
            etb_args_loop overwrite (etb_term_list_push terms t) sc2)
        else Inr (etb_term_list_push terms t, sc1))) n"
      using "1.IH" [OF False] "1.prems"
      by (intro consumes_bind [OF consumes_arg] consumes_comma) auto
    then show ?thesis
      using False by (simp only: etb_args_loop.simps [of overwrite terms sc] if_False)
  qed
qed

text \<open>The parenthesised argument list, if there is one.\<close>

definition etb_parse_args :: "string option \<Rightarrow> etb_scanner \<Rightarrow> etb_term list presult" where
  "etb_parse_args overwrite scanner =
     (if \<not> etb_token_is scanner TOK_LPAREN None then Inr ([], scanner)
      else bind_p (etb_scanner_advance scanner) (\<lambda>_ scanner.
           bind_p (etb_args_loop overwrite [] scanner) (\<lambda>terms scanner.
           bind_p (etb_expect scanner TOK_RPAREN None) (\<lambda>_ scanner. Inr (terms, scanner)))))"

lemma consumes_args:
  "scanner_ok sc \<Longrightarrow> scanner_size sc < n \<Longrightarrow> consumes (etb_parse_args overwrite sc) n"
  unfolding etb_parse_args_def
  by (auto intro!: consumes_bind [OF consumes_advance_le] consumes_bind [OF consumes_args_loop]
      consumes_bind [OF consumes_expect])

text \<open>
  \<open>etb_parse_predicate_atom\<close> takes the text of whatever token it stands at: a token without text
  gives an atom whose predicate is null.
\<close>

definition etb_parse_predicate_atom :: "etb_scanner \<Rightarrow> etb_atom presult" where
  "etb_parse_predicate_atom scanner =
     (let atom = etb_atom_init\<lparr>a_kind := ETB_ATOM_PREDICATE,
                               a_predicate := tk_text (sc_current scanner)\<rparr>
      in bind_p (etb_scanner_advance (token_text_taken scanner)) (\<lambda>_ scanner.
         bind_p (etb_parse_args (Some ''out of memory'') scanner) (\<lambda>terms scanner.
           Inr (atom\<lparr>a_terms := terms\<rparr>, scanner))))"

text \<open>The three forms of an atom, after its first identifier has been taken as \<open>who\<close>.\<close>

definition etb_parse_says :: "string option \<Rightarrow> etb_scanner \<Rightarrow> etb_atom presult" where
  "etb_parse_says who scanner =
     bind_p (etb_scanner_advance scanner) (\<lambda>_ scanner.
     bind_p (etb_parse_predicate_atom scanner) (\<lambda>base scanner.
       Inr (base\<lparr>a_kind := ETB_ATOM_SAYS, a_principal := who\<rparr>, scanner)))"

definition etb_parse_speaks_for :: "string option \<Rightarrow> etb_scanner \<Rightarrow> etb_atom presult" where
  "etb_parse_speaks_for who scanner =
     (let atom = etb_atom_init\<lparr>a_kind := ETB_ATOM_SPEAKS_FOR, a_principal := who\<rparr> in
      bind_p (on_fail_at ''expected delegate who''
        (bind_p (etb_scanner_advance scanner) (\<lambda>_ scanner.
           if \<not> etb_token_is scanner TOK_IDENT None then Inl (Fail '''', scanner)
           else Inr ((), scanner)))) (\<lambda>_ scanner.
      let atom = atom\<lparr>a_delegate := tk_text (sc_current scanner)\<rparr> in
      bind_p (etb_scanner_advance (token_text_taken scanner)) (\<lambda>_ scanner.
      bind_p (etb_parse_attr_block scanner (Attr_atom atom)) (\<lambda>target scanner.
        (case target of
           Attr_atom atom \<Rightarrow> Inr (atom, scanner)
         | Attr_capability _ \<Rightarrow> Inr (atom, scanner))))))"

definition etb_parse_plain :: "string option \<Rightarrow> etb_scanner \<Rightarrow> etb_atom presult" where
  "etb_parse_plain who scanner =
     (let atom = etb_atom_init\<lparr>a_kind := ETB_ATOM_PREDICATE, a_predicate := who\<rparr> in
      bind_p (etb_parse_args None scanner) (\<lambda>terms scanner.
        Inr (atom\<lparr>a_terms := terms\<rparr>, scanner)))"

definition etb_parse_atom_core :: "etb_scanner \<Rightarrow> etb_atom presult" where
  "etb_parse_atom_core scanner =
     (if \<not> etb_token_is scanner TOK_IDENT None then scanner_error scanner ''expected atom''
      else
        let who = tk_text (sc_current scanner) in
        bind_p (etb_scanner_advance (token_text_taken scanner)) (\<lambda>_ scanner.
        if etb_token_is scanner TOK_IDENT (Some ''says'') then etb_parse_says who scanner
        else if etb_token_is scanner TOK_IDENT (Some ''speaks_for'') then
          etb_parse_speaks_for who scanner
        else etb_parse_plain who scanner))"

text \<open>The integer after \<open>@\<close> or \<open>at\<close>.\<close>

definition etb_parse_temporal ::
    "etb_temporal_kind \<Rightarrow> string \<Rightarrow> etb_atom \<Rightarrow> etb_scanner \<Rightarrow> etb_atom presult" where
  "etb_parse_temporal kind message atom scanner =
     bind_p (on_fail_at message
       (bind_p (etb_scanner_advance scanner) (\<lambda>_ scanner.
          if tk_kind (sc_current scanner) \<noteq> TOK_INTEGER then Inl (Fail '''', scanner)
          else Inr ((), scanner)))) (\<lambda>_ scanner.
     let atom = atom\<lparr>a_temporal_kind := kind, a_temporal_value := tk_integer (sc_current scanner)\<rparr> in
     bind_p (etb_scanner_advance scanner) (\<lambda>_ scanner. Inr (atom, scanner)))"

definition etb_parse_atom :: "etb_scanner \<Rightarrow> etb_atom presult" where
  "etb_parse_atom scanner =
     bind_p (etb_parse_atom_core scanner) (\<lambda>atom scanner.
     if etb_token_is scanner TOK_AT None then
       etb_parse_temporal ETB_TEMPORAL_EXPIRES_AT ''expected integer after @'' atom scanner
     else if etb_token_is scanner TOK_IDENT (Some ''at'') then
       etb_parse_temporal ETB_TEMPORAL_ANCHORED_AT ''expected integer after at'' atom scanner
     else Inr (atom, scanner))"

lemma consumes_test:
  assumes "scanner_size sc < n"
  shows "consumes (on_fail_at msg (bind_p (etb_scanner_advance sc) (\<lambda>_ scanner.
     if P scanner then Inl (Fail msg', scanner) else Inr ((), scanner)))) n"
  using assms by (intro consumes_on_fail_at consumes_seq consumes_advance_within consumes_if) simp_all

lemma consumes_predicate_atom:
  "scanner_size sc < n \<Longrightarrow> consumes (etb_parse_predicate_atom sc) n"
  unfolding etb_parse_predicate_atom_def Let_def
  by (intro consumes_seq consumes_args) (simp_all add: consumes_advance_within)

lemma consumes_atom_core:
  assumes "scanner_ok sc"
  shows "consumes (etb_parse_atom_core sc) (scanner_size sc)"
  unfolding etb_parse_atom_core_def etb_parse_says_def etb_parse_speaks_for_def
    etb_parse_plain_def Let_def
  by (intro consumes_if consumes_seq consumes_test consumes_predicate_atom consumes_args
        consumes_attr_block)
    (simp_all add: consumes_advance consumes_advance_within split: attr_target.splits)

lemma consumes_temporal:
  "scanner_size sc < n \<Longrightarrow> consumes (etb_parse_temporal kind msg atom sc) n"
  unfolding etb_parse_temporal_def Let_def
  by (intro consumes_seq consumes_test) (simp_all add: consumes_advance_within)

lemma consumes_atom: "scanner_ok sc \<Longrightarrow> consumes (etb_parse_atom sc) (scanner_size sc)"
  unfolding etb_parse_atom_def
  by (intro consumes_if consumes_seq consumes_temporal consumes_atom_core) simp_all

section \<open>Clauses, declarations and programs\<close>

definition etb_parse_literal :: "etb_scanner \<Rightarrow> etb_literal presult" where
  "etb_parse_literal scanner =
     (if etb_token_is scanner TOK_IDENT (Some ''not'') then
        bind_p (etb_scanner_advance scanner) (\<lambda>_ scanner.
        bind_p (etb_parse_atom scanner) (\<lambda>atom scanner.
          Inr (\<lparr>l_negated = True, l_atom = atom\<rparr>, scanner)))
      else
        bind_p (etb_parse_atom scanner) (\<lambda>atom scanner.
          Inr (\<lparr>l_negated = False, l_atom = atom\<rparr>, scanner)))"

lemma consumes_literal: "scanner_ok sc \<Longrightarrow> consumes (etb_parse_literal sc) (scanner_size sc)"
  unfolding etb_parse_literal_def
proof (rule consumes_if)
  assume "etb_token_is sc TOK_IDENT (Some ''not'')"
  then show "consumes (bind_p (etb_scanner_advance sc) (\<lambda>_ scanner.
        bind_p (etb_parse_atom scanner) (\<lambda>atom scanner.
          Inr (\<lparr>l_negated = True, l_atom = atom\<rparr>, scanner)))) (scanner_size sc)"
    by (intro consumes_seq) (auto intro: consumes_advance consumes_mono [OF consumes_atom])
next
  assume "scanner_ok sc"
  then show "consumes (bind_p (etb_parse_atom sc) (\<lambda>atom scanner.
          Inr (\<lparr>l_negated = False, l_atom = atom\<rparr>, scanner))) (scanner_size sc)"
    by (intro consumes_seq) (auto intro: consumes_atom)
qed

text \<open>
  A parser that succeeds on any scanner has consumed a token: the loops below terminate whatever
  token they start at.
\<close>

lemma atom_core_less:
  assumes "etb_parse_atom_core sc = Inr (a, sc')"
  shows "scanner_size sc' < scanner_size sc"
proof -
  have "tk_kind (sc_current sc) = TOK_IDENT"
    using assms by (simp add: etb_parse_atom_core_def split: if_splits)
  then have "consumes (etb_parse_atom_core sc) (scanner_size sc)"
    unfolding etb_parse_atom_core_def etb_parse_says_def etb_parse_speaks_for_def
    etb_parse_plain_def Let_def
    by (intro consumes_if consumes_seq consumes_test consumes_predicate_atom consumes_args
          consumes_attr_block)
      (simp_all add: consumes_advance consumes_advance_within split: attr_target.splits)
  then show ?thesis using assms by simp
qed

lemma atom_less: "etb_parse_atom sc = Inr (a, sc') \<Longrightarrow> scanner_size sc' < scanner_size sc"
  by (auto simp: etb_parse_atom_def etb_parse_temporal_def Let_def bind_p_eq_Inr
      dest!: atom_core_less advance_le split: if_splits)

lemma literal_less: "etb_parse_literal sc = Inr (l, sc') \<Longrightarrow> scanner_size sc' < scanner_size sc"
  by (auto simp: etb_parse_literal_def bind_p_eq_Inr dest!: atom_less advance_le split: if_splits)

function etb_body_loop :: "etb_literal list \<Rightarrow> etb_scanner \<Rightarrow> etb_literal list presult" where
  "etb_body_loop body scanner =
     (if etb_token_is scanner TOK_DOT None \<or> etb_token_is scanner TOK_EOF None then
        Inr (body, scanner)
      else
        bind_p (etb_parse_literal scanner) (\<lambda>literal sc1.
        if etb_token_is sc1 TOK_COMMA None then
          bind_p (etb_scanner_advance sc1) (\<lambda>_ sc2.
            etb_body_loop (etb_literal_list_push body literal) sc2)
        else Inr (etb_literal_list_push body literal, sc1)))"
  by pat_completeness auto

termination etb_body_loop
  by (relation "measure (scanner_size \<circ> snd)")
    (auto dest!: literal_less advance_le intro: le_less_trans)

declare etb_body_loop.simps [simp del]

lemma consumes_body_loop:
  "scanner_ok sc \<Longrightarrow> scanner_size sc < n \<Longrightarrow> consumes (etb_body_loop body sc) n"
proof (induction body sc rule: etb_body_loop.induct)
  case (1 body sc)
  show ?case
  proof (cases "etb_token_is sc TOK_DOT None \<or> etb_token_is sc TOK_EOF None")
    case True
    then show ?thesis using "1.prems" by (simp add: etb_body_loop.simps [of body sc])
  next
    case False
    have "consumes (bind_p (etb_parse_literal sc) (\<lambda>literal sc1.
        if etb_token_is sc1 TOK_COMMA None then
          bind_p (etb_scanner_advance sc1) (\<lambda>_ sc2.
            etb_body_loop (etb_literal_list_push body literal) sc2)
        else Inr (etb_literal_list_push body literal, sc1))) n"
      using "1.IH" [OF False] "1.prems"
      by (intro consumes_bind [OF consumes_literal] consumes_comma) auto
    then show ?thesis using False by (simp only: etb_body_loop.simps [of body sc] if_False)
  qed
qed

definition etb_parse_clause_or_fact :: "etb_scanner \<Rightarrow> etb_statement presult" where
  "etb_parse_clause_or_fact scanner =
     (let source_line = tk_line (sc_current scanner) in
      bind_p (etb_parse_atom scanner) (\<lambda>head scanner.
      bind_p (if etb_token_is scanner TOK_COLON_DASH None
              then bind_p (etb_scanner_advance scanner) (\<lambda>_ scanner. etb_body_loop [] scanner)
              else Inr ([], scanner)) (\<lambda>body scanner.
      bind_p (etb_expect scanner TOK_DOT None) (\<lambda>_ scanner.
        Inr (ETB_STMT_CLAUSE \<lparr>cl_head = head, cl_body = body, cl_source_line = source_line\<rparr>,
             scanner)))))"

definition etb_parse_capability_decl :: "etb_scanner \<Rightarrow> etb_statement presult" where
  "etb_parse_capability_decl scanner =
     bind_p (etb_expect scanner TOK_IDENT (Some ''capability'')) (\<lambda>_ scanner.
     if \<not> etb_token_is scanner TOK_IDENT None then Inl (Fail '''', scanner)
     else
       let decl = \<lparr>c_name = tk_text (sc_current scanner), c_arity = 0, c_path = None,
                   c_deterministic = False, c_proof_admissible = False, c_timeout_ms = 1000\<rparr>
       in
       bind_p (on_fail_at ''expected capability arity''
         (bind_p (etb_scanner_advance (token_text_taken scanner)) (\<lambda>_ scanner.
          bind_p (etb_expect scanner TOK_SLASH None) (\<lambda>_ scanner.
          if tk_kind (sc_current scanner) \<noteq> TOK_INTEGER then Inl (Fail '''', scanner)
          else Inr ((), scanner))))) (\<lambda>_ scanner.
       let decl = decl\<lparr>c_arity := unat (tk_integer (sc_current scanner))\<rparr> in
       bind_p (etb_scanner_advance scanner) (\<lambda>_ scanner.
       bind_p (etb_parse_attr_block scanner (Attr_capability decl)) (\<lambda>target scanner.
       bind_p (etb_expect scanner TOK_DOT None) (\<lambda>_ scanner.
         Inr (ETB_STMT_CAPABILITY (case target of Attr_capability d \<Rightarrow> d | Attr_atom _ \<Rightarrow> decl),
              scanner))))))"

definition etb_parse_statement :: "etb_scanner \<Rightarrow> etb_statement presult" where
  "etb_parse_statement scanner =
     (if etb_token_is scanner TOK_IDENT (Some ''capability'')
      then etb_parse_capability_decl scanner else etb_parse_clause_or_fact scanner)"

lemma consumes_statement: "scanner_ok sc \<Longrightarrow> consumes (etb_parse_statement sc) (scanner_size sc)"
  unfolding etb_parse_statement_def
proof (rule consumes_if)
  assume "etb_token_is sc TOK_IDENT (Some ''capability'')"
  then show "consumes (etb_parse_capability_decl sc) (scanner_size sc)"
    unfolding etb_parse_capability_decl_def Let_def
    by (intro consumes_seq [OF consumes_expect] consumes_seq consumes_if consumes_on_fail_at
          consumes_attr_block consumes_expect_within)
      (simp_all add: consumes_advance_within)
next
  assume "scanner_ok sc"
  then show "consumes (etb_parse_clause_or_fact sc) (scanner_size sc)"
    unfolding etb_parse_clause_or_fact_def Let_def
    by (intro consumes_seq consumes_if consumes_atom consumes_body_loop consumes_expect_within)
      (auto intro: consumes_advance_within)
qed

lemma body_loop_le:
  "etb_body_loop body sc = Inr (ls, sc') \<Longrightarrow> scanner_size sc' \<le> scanner_size sc"
proof (induction body sc rule: etb_body_loop.induct)
  case (1 body sc)
  show ?case
  proof (cases "etb_token_is sc TOK_DOT None \<or> etb_token_is sc TOK_EOF None")
    case True
    then show ?thesis using "1.prems" by (simp add: etb_body_loop.simps [of body sc])
  next
    case False
    obtain l sc1 where l: "etb_parse_literal sc = Inr (l, sc1)"
      and rest: "(if etb_token_is sc1 TOK_COMMA None
         then bind_p (etb_scanner_advance sc1) (\<lambda>_ sc2. etb_body_loop (etb_literal_list_push body l) sc2)
         else Inr (etb_literal_list_push body l, sc1)) = Inr (ls, sc')"
      using "1.prems" False by (auto simp: etb_body_loop.simps [of body sc] bind_p_eq_Inr)
    show ?thesis
    proof (cases "etb_token_is sc1 TOK_COMMA None")
      case comma: True
      then obtain u sc2 where s2: "etb_scanner_advance sc1 = Inr (u, sc2)"
        and loop: "etb_body_loop (etb_literal_list_push body l) sc2 = Inr (ls, sc')"
        using rest by (auto simp: bind_p_eq_Inr)
      show ?thesis
        using "1.IH" [OF False l comma s2 loop] literal_less [OF l] advance_le [OF s2] by simp
    next
      case no: False
      then show ?thesis using rest literal_less [OF l] by simp
    qed
  qed
qed

lemma clause_less:
  assumes "etb_parse_clause_or_fact sc = Inr (s, sc')"
  shows "scanner_size sc' < scanner_size sc \<and> scanner_ok sc'"
proof -
  obtain head sc1 body sc2 u where hd: "etb_parse_atom sc = Inr (head, sc1)"
    and bd: "(if etb_token_is sc1 TOK_COLON_DASH None
              then bind_p (etb_scanner_advance sc1) (\<lambda>_ scanner. etb_body_loop [] scanner)
              else Inr ([], sc1)) = Inr (body, sc2)"
    and dot: "etb_scanner_advance sc2 = Inr (u, sc')"
    using assms
    by (simp add: etb_parse_clause_or_fact_def Let_def bind_p_eq_Inr expect_Inr) metis
  have "scanner_size sc2 \<le> scanner_size sc1"
    using bd by (auto simp: bind_p_eq_Inr dest!: advance_le body_loop_le split: if_splits)
  then show ?thesis using advance_le [OF dot] advance_ok [OF dot] atom_less [OF hd] by simp
qed

lemma statement_less:
  assumes "etb_parse_statement sc = Inr (s, sc')"
  shows "scanner_size sc' < scanner_size sc \<and> scanner_ok sc'"
proof (cases "etb_token_is sc TOK_IDENT (Some ''capability'')")
  case True
  then have "scanner_ok sc" by (simp add: scanner_ok_def)
  then show ?thesis using consumes_statement [of sc] assms by simp
next
  case False
  then have "etb_parse_clause_or_fact sc = Inr (s, sc')"
    using assms by (simp only: etb_parse_statement_def if_False)
  then show ?thesis by (rule clause_less)
qed

text \<open>The loop over the statements of a program.\<close>

function etb_program_loop :: "etb_program \<Rightarrow> etb_scanner \<Rightarrow> etb_program presult" where
  "etb_program_loop program scanner =
     (if etb_token_is scanner TOK_EOF None then Inr (program, scanner)
      else bind_p (etb_parse_statement scanner) (\<lambda>statement scanner'.
             etb_program_loop (etb_program_push program statement) scanner'))"
  by pat_completeness auto

termination etb_program_loop
  by (relation "measure (scanner_size \<circ> snd)") (auto dest: statement_less)

declare etb_program_loop.simps [simp del]

lemma consumes_program_loop:
  "scanner_ok sc \<Longrightarrow> scanner_size sc < n \<Longrightarrow> consumes (etb_program_loop program sc) n"
proof (induction program sc rule: etb_program_loop.induct)
  case (1 program sc)
  show ?case
  proof (cases "etb_token_is sc TOK_EOF None")
    case True
    then show ?thesis using "1.prems" by (simp add: etb_program_loop.simps [of program sc])
  next
    case False
    have "consumes (bind_p (etb_parse_statement sc) (\<lambda>statement scanner'.
             etb_program_loop (etb_program_push program statement) scanner')) n"
      using "1.IH" [OF False] "1.prems" by (intro consumes_bind [OF consumes_statement]) auto
    then show ?thesis using False by (simp only: etb_program_loop.simps [of program sc] if_False)
  qed
qed

definition etb_scanner_start :: "string \<Rightarrow> etb_scanner" where
  "etb_scanner_start source =
     \<lparr>sc_rest = source, sc_line = 1,
      sc_current = \<lparr>tk_kind = TOK_EOF, tk_text = None, tk_integer = 0, tk_line = 0\<rparr>\<rparr>"

text \<open>The outcome of a parser function for its caller, who never sees the scanner.\<close>

definition run_p :: "'a presult \<Rightarrow> 'a res" where
  "run_p m = (case m of Inl (e, _) \<Rightarrow> Inl e | Inr (a, _) \<Rightarrow> Inr a)"

lemma run_p_simps [simp]: "run_p (Inl (e, sc)) = Inl e" "run_p (Inr (a, sc)) = Inr a"
  by (simp_all add: run_p_def)

lemma run_p_eq_Inr: "run_p m = Inr a \<longleftrightarrow> (\<exists>sc. m = Inr (a, sc))"
  by (auto simp: run_p_def split: sum.splits)

lemma safe_run_p: "consumes m n \<Longrightarrow> safe (run_p m)"
  by (auto simp: consumes_def run_p_def safe_Inl split: sum.splits)

definition etb_parse_program_text :: "string \<Rightarrow> etb_program res" where
  "etb_parse_program_text source =
     run_p (bind_p (etb_scanner_advance (etb_scanner_start source)) (\<lambda>_ scanner.
       etb_program_loop [] scanner))"

definition etb_parse_atom_text :: "string \<Rightarrow> etb_atom res" where
  "etb_parse_atom_text source =
     run_p (bind_p (etb_scanner_advance (etb_scanner_start source)) (\<lambda>_ scanner.
       bind_p (etb_parse_atom scanner) (\<lambda>atom scanner.
       bind_p (if etb_token_is scanner TOK_DOT None then etb_scanner_advance scanner
               else Inr ((), scanner)) (\<lambda>_ scanner.
       if \<not> etb_token_is scanner TOK_EOF None then scanner_error scanner ''unexpected trailing tokens''
       else Inr (atom, scanner)))))"

text \<open>
  Reading a program from a file. The outcome of the stdio calls is the argument: which call
  failed, or the bytes read, of which the parser sees those before the first NUL.
\<close>

datatype file_read = Open_failed | Seek_failed | Size_failed | Read_failed | File_bytes string

definition etb_parse_file :: "file_read \<Rightarrow> etb_program res" where
  "etb_parse_file stream =
     (case stream of
        Open_failed \<Rightarrow> Inl (etb_set_error 0 ''failed to open file'')
      | Seek_failed \<Rightarrow> Inl (etb_set_error 0 ''failed to seek file'')
      | Size_failed \<Rightarrow> Inl (etb_set_error 0 ''failed to determine file size'')
      | Read_failed \<Rightarrow> Inl (etb_set_error 0 ''failed to read file'')
      | File_bytes buffer \<Rightarrow> etb_parse_program_text (c_str buffer))"

text \<open>
  C31. Parsing any text returns (the functions are total: every loop consumes input) and never
  meets undefined behaviour: no text sends a null pointer to \<open>strcmp\<close>.
\<close>

theorem etb_parse_safe:
  "safe (etb_parse_program_text source) \<and> safe (etb_parse_atom_text source)"
proof
  let ?n = "Suc (scanner_size (etb_scanner_start source))"
  have "consumes (bind_p (etb_scanner_advance (etb_scanner_start source)) (\<lambda>_ scanner.
       etb_program_loop [] scanner)) ?n"
    by (intro consumes_seq consumes_program_loop consumes_advance_le)
  then show "safe (etb_parse_program_text source)"
    unfolding etb_parse_program_text_def by (rule safe_run_p)
  have "consumes (bind_p (etb_scanner_advance (etb_scanner_start source)) (\<lambda>_ scanner.
       bind_p (etb_parse_atom scanner) (\<lambda>atom scanner.
       bind_p (if etb_token_is scanner TOK_DOT None then etb_scanner_advance scanner
               else Inr ((), scanner)) (\<lambda>_ scanner.
       if \<not> etb_token_is scanner TOK_EOF None then scanner_error scanner ''unexpected trailing tokens''
       else Inr (atom, scanner))))) ?n"
    by (intro consumes_seq consumes_if consumes_advance_le consumes_mono [OF consumes_atom])
      (auto intro: consumes_advance_within)
  then show "safe (etb_parse_atom_text source)"
    unfolding etb_parse_atom_text_def by (rule safe_run_p)
qed

section \<open>What the parser builds\<close>

text \<open>
  Everything an atom needs is present, except that the predicate of a \<open>says\<close> atom is the text of
  an unchecked token, which punctuation does not have.
\<close>

definition parsed_atom :: "etb_atom \<Rightarrow> bool" where
  "parsed_atom a \<longleftrightarrow>
     (wf_atom a \<or> a_kind a = ETB_ATOM_SAYS \<and> a_predicate a = None \<and> a_principal a \<noteq> None \<and>
                  list_all wf_term (a_terms a))"

definition yields :: "'a presult \<Rightarrow> ('a \<Rightarrow> bool) \<Rightarrow> bool" where
  "yields m P \<longleftrightarrow> (\<forall>a sc. m = Inr (a, sc) \<longrightarrow> P a)"

lemma yieldsI: "(\<And>a sc. m = Inr (a, sc) \<Longrightarrow> P a) \<Longrightarrow> yields m P"
  by (simp add: yields_def)

lemma yields_bind:
  "yields m Q \<Longrightarrow> (\<And>a sc. m = Inr (a, sc) \<Longrightarrow> Q a \<Longrightarrow> yields (f a sc) P) \<Longrightarrow> yields (bind_p m f) P"
  by (auto simp: yields_def bind_p_eq_Inr)

lemma yields_any: "yields m (\<lambda>_. True)"
  by (simp add: yields_def)

lemma yields_simps [simp]:
  "yields (Inr (a, sc)) P \<longleftrightarrow> P a" "yields (Inl e) P" "yields (scanner_error sc msg) P"
  by (auto simp: yields_def)

lemma yieldsD: "yields m P \<Longrightarrow> m = Inr (a, sc) \<Longrightarrow> P a"
  by (simp add: yields_def)

lemma term_yields: "scanner_ok sc \<Longrightarrow> yields (etb_parse_term sc) wf_term"
  by (auto simp: etb_parse_term_def Let_def scanner_ok_def intro!: yields_bind [OF yields_any]
      split: etb_token_kind.splits)

lemma arg_yields: "scanner_ok sc \<Longrightarrow> yields (etb_parse_arg overwrite sc) wf_term"
  using term_yields by (fastforce simp: etb_parse_arg_def yields_def split: option.splits)

lemma args_loop_yields:
  "scanner_ok sc \<Longrightarrow> list_all wf_term terms \<Longrightarrow>
     yields (etb_args_loop overwrite terms sc) (list_all wf_term)"
proof (induction overwrite terms sc rule: etb_args_loop.induct)
  case (1 overwrite terms sc)
  show ?case
  proof (cases "etb_token_is sc TOK_RPAREN None")
    case True
    then show ?thesis using "1.prems" by (simp add: etb_args_loop.simps [of overwrite terms sc])
  next
    case False
    have "yields (bind_p (etb_parse_arg overwrite sc) (\<lambda>t sc1.
        if etb_token_is sc1 TOK_COMMA None then
          bind_p (etb_scanner_advance sc1) (\<lambda>_ sc2.
            etb_args_loop overwrite (etb_term_list_push terms t) sc2)
        else Inr (etb_term_list_push terms t, sc1))) (list_all wf_term)"
    proof (rule yields_bind [OF arg_yields])
      fix t sc1 assume t: "etb_parse_arg overwrite sc = Inr (t, sc1)" "wf_term t"
      then show "yields (if etb_token_is sc1 TOK_COMMA None then
          bind_p (etb_scanner_advance sc1) (\<lambda>_ sc2.
            etb_args_loop overwrite (etb_term_list_push terms t) sc2)
        else Inr (etb_term_list_push terms t, sc1)) (list_all wf_term)"
        using "1.IH" [OF False t(1)] "1.prems" advance_ok
        by (auto simp: etb_term_list_push_def intro!: yields_bind [OF yields_any])
    qed (use "1.prems" in simp)
    then show ?thesis
      using False by (simp only: etb_args_loop.simps [of overwrite terms sc] if_False)
  qed
qed

lemma args_yields: "scanner_ok sc \<Longrightarrow> yields (etb_parse_args overwrite sc) (list_all wf_term)"
  by (rule yieldsI)
    (auto simp: etb_parse_args_def bind_p_eq_Inr split: if_splits
      dest!: advance_ok dest: yieldsD [OF args_loop_yields [where terms = "[]", simplified]])
 
lemma predicate_atom_yields:
  "yields (etb_parse_predicate_atom sc) (\<lambda>a. list_all wf_term (a_terms a))"
  by (rule yieldsI)
    (auto simp: etb_parse_predicate_atom_def bind_p_eq_Inr dest!: advance_ok
      dest: yieldsD [OF args_yields])

definition speaks_target :: "attr_target \<Rightarrow> bool" where
  "speaks_target target \<longleftrightarrow>
     (\<exists>a. target = Attr_atom a \<and> a_kind a = ETB_ATOM_SPEAKS_FOR \<and> wf_atom a)"

lemma attr_assign_yields:
  "speaks_target target \<Longrightarrow> yields (etb_attr_assign target key sc) speaks_target"
  by (auto simp: speaks_target_def etb_attr_assign_def Let_def wf_atom_def)

lemma attr_entry_yields:
  "speaks_target target \<Longrightarrow> yields (etb_attr_entry target sc) speaks_target"
  by (rule yieldsI)
    (auto simp: etb_attr_entry_def Let_def bind_p_eq_Inr split: option.splits if_splits
      dest: yieldsD [OF attr_assign_yields])

lemma attr_loop_yields:
  "speaks_target target \<Longrightarrow> yields (etb_attr_loop target sc) speaks_target"
proof (induction target sc rule: etb_attr_loop.induct)
  case (1 target sc)
  show ?case
  proof (cases "etb_token_is sc TOK_RBRACKET None")
    case True
    then show ?thesis using "1.prems" by (simp add: etb_attr_loop.simps [of target sc])
  next
    case False
    show ?thesis
    proof (rule yieldsI)
      fix target' sc' assume r: "etb_attr_loop target sc = Inr (target', sc')"
      obtain t sc1 where e: "etb_attr_entry target sc = Inr (t, sc1)"
        using r False by (auto simp: etb_attr_loop.simps [of target sc] bind_p_eq_Inr)
      have t: "speaks_target t" by (rule yieldsD [OF attr_entry_yields [OF "1.prems"] e])
      then show "speaks_target target'"
        using r False e yieldsD [OF "1.IH" [OF False e]]
        by (auto simp: etb_attr_loop.simps [of target sc] bind_p_eq_Inr split: if_splits)
    qed
  qed
qed

lemma attr_block_yields:
  "speaks_target target \<Longrightarrow> yields (etb_parse_attr_block sc target) speaks_target"
  by (rule yieldsI)
    (auto simp: etb_parse_attr_block_def bind_p_eq_Inr split: if_splits
      dest: yieldsD [OF attr_loop_yields])

lemma says_parsed:
  "list_all wf_term (a_terms a) \<Longrightarrow>
     parsed_atom (a\<lparr>a_kind := ETB_ATOM_SAYS, a_principal := Some q\<rparr>)"
  by (cases "a_predicate a") (simp_all add: parsed_atom_def wf_atom_def)

lemma predicate_parsed:
  "list_all wf_term ts \<Longrightarrow> parsed_atom (etb_atom_init\<lparr>a_kind := ETB_ATOM_PREDICATE,
     a_predicate := Some p, a_terms := ts\<rparr>)"
  by (simp add: parsed_atom_def wf_atom_def)

lemma scanner_ok_ident:
  "scanner_ok sc \<Longrightarrow> tk_kind (sc_current sc) = TOK_IDENT \<Longrightarrow> \<exists>s. tk_text (sc_current sc) = Some s"
  by (auto simp: scanner_ok_def)

lemma speaks_for_parsed:
  assumes "etb_parse_attr_block sc (Attr_atom (etb_atom_init\<lparr>a_kind := ETB_ATOM_SPEAKS_FOR,
      a_principal := Some q, a_delegate := Some d\<rparr>)) = Inr (target, sc')"
  shows "\<exists>a. target = Attr_atom a \<and> parsed_atom a"
proof -
  have "speaks_target (Attr_atom (etb_atom_init\<lparr>a_kind := ETB_ATOM_SPEAKS_FOR,
      a_principal := Some q, a_delegate := Some d\<rparr>))"
    by (simp add: speaks_target_def wf_atom_def etb_atom_init_def)
  from yieldsD [OF attr_block_yields [OF this] assms] show ?thesis
    by (auto simp: speaks_target_def parsed_atom_def)
qed

lemma atom_core_yields:
  assumes ok: "scanner_ok sc"
  shows "yields (etb_parse_atom_core sc) parsed_atom"
proof (cases "tk_kind (sc_current sc) = TOK_IDENT")
  case False
  then show ?thesis by (simp add: etb_parse_atom_core_def)
next
  case True
  then obtain s where s: "tk_text (sc_current sc) = Some s"
    using ok scanner_ok_ident by blast
  have "yields (etb_parse_says (Some s) sc1) parsed_atom" for sc1
    by (rule yieldsI)
      (auto simp: etb_parse_says_def bind_p_eq_Inr says_parsed
        dest: yieldsD [OF predicate_atom_yields])
  moreover have "yields (etb_parse_plain (Some s) sc1) parsed_atom" if "scanner_ok sc1" for sc1
    using that by (intro yieldsI)
      (auto simp: etb_parse_plain_def bind_p_eq_Inr predicate_parsed dest: yieldsD [OF args_yields])
  moreover have "yields (etb_parse_speaks_for (Some s) sc1) parsed_atom" for sc1
    by (rule yieldsI)
      (auto simp: etb_parse_speaks_for_def Let_def bind_p_eq_Inr split: if_splits attr_target.splits
        dest!: advance_ok scanner_ok_ident dest: speaks_for_parsed)
  ultimately show ?thesis
    using True s advance_ok
    by (auto simp: etb_parse_atom_core_def Let_def intro!: yields_bind [OF yields_any])
qed

lemma parsed_atom_temporal:
  "parsed_atom (a\<lparr>a_temporal_kind := k, a_temporal_value := v\<rparr>) \<longleftrightarrow> parsed_atom a"
  by (cases "a_kind a") (simp_all add: parsed_atom_def wf_atom_def)

lemma temporal_yields: "parsed_atom a \<Longrightarrow> yields (etb_parse_temporal kind msg a sc) parsed_atom"
  by (rule yieldsI)
    (auto simp: etb_parse_temporal_def Let_def bind_p_eq_Inr parsed_atom_temporal)

lemma atom_yields: "scanner_ok sc \<Longrightarrow> yields (etb_parse_atom sc) parsed_atom"
  by (rule yieldsI)
    (auto simp: etb_parse_atom_def bind_p_eq_Inr split: if_splits
      dest!: yieldsD [OF atom_core_yields] dest: yieldsD [OF temporal_yields])

text \<open>
  C40. What a successful parse of an atom gives: an atom with every field its kind needs and
  well-formed terms, or a \<open>says\<close> atom without a predicate.
\<close>

theorem etb_parse_atom_text_wf:
  assumes "etb_parse_atom_text source = Inr a"
  shows "parsed_atom a"
proof -
  obtain u sc sc' where "etb_scanner_advance (etb_scanner_start source) = Inr (u, sc)"
    and "etb_parse_atom sc = Inr (a, sc')"
    using assms
    by (auto simp: etb_parse_atom_text_def run_p_eq_Inr bind_p_eq_Inr split: if_splits)
  then show ?thesis using advance_ok yieldsD [OF atom_yields] by blast
qed

lemma etb_parse_atom_text_wf_witness:
  "\<exists>a. etb_parse_atom_text ''p(x)'' = Inr a \<and> parsed_atom a"
proof -
  have "etb_parse_atom_text ''p(x)'' =
      Inr (etb_atom_init\<lparr>a_predicate := Some ''p'', a_terms := [etb_term_make_symbol (Some ''x'')]\<rparr>)"
    by code_simp
  from this and etb_parse_atom_text_wf [OF this] show ?thesis by blast
qed

end
