(* ===== verification/Parser_Roundtrip.thy ===== *)
theory Parser_Roundtrip
  imports Parser
begin

text \<open>
  Parsing undoes canonical printing. A printable atom is one whose canonical text the grammar
  can express: names are identifier lexemes, integers are not negative, strings hold no quote,
  and no argument is a variable, which the printer marks with a question mark the scanner
  rejects. On printable atoms \<open>etb_parse_atom_text\<close> inverts \<open>etb_atom_canonical_text\<close>, so
  canonical texts identify atoms. The last section shows the two ways out of the fragment.
\<close>

section \<open>Lexemes\<close>

text \<open>
  \<open>lexes r k tx i r'\<close>: a scanner standing before \<open>r\<close> advances to the token of kind \<open>k\<close>, text
  \<open>tx\<close> and value \<open>i\<close> and then stands before \<open>r'\<close>, whatever its line.
\<close>

definition at_token ::
    "etb_scanner \<Rightarrow> etb_token_kind \<Rightarrow> string option \<Rightarrow> u64 \<Rightarrow> string \<Rightarrow> bool" where
  "at_token sc k tx i r \<longleftrightarrow>
     tk_kind (sc_current sc) = k \<and> tk_text (sc_current sc) = tx \<and>
     tk_integer (sc_current sc) = i \<and> sc_rest sc = r"

definition lexes :: "string \<Rightarrow> etb_token_kind \<Rightarrow> string option \<Rightarrow> u64 \<Rightarrow> string \<Rightarrow> bool" where
  "lexes r k tx i r' \<longleftrightarrow>
     (\<forall>sc. sc_rest sc = r \<longrightarrow>
        (\<exists>sc'. etb_scanner_advance sc = Inr ((), sc') \<and> at_token sc' k tx i r'))"

lemma lexesD:
  "lexes r k tx i r' \<Longrightarrow> sc_rest sc = r \<Longrightarrow>
     \<exists>sc'. etb_scanner_advance sc = Inr ((), sc') \<and> at_token sc' k tx i r'"
  by (auto simp: lexes_def)

definition stops :: "string \<Rightarrow> bool" where
  "stops r \<longleftrightarrow> (case r of [] \<Rightarrow> True | c # _ \<Rightarrow> \<not> etb_ident_char c)"

definition is_word :: "string \<Rightarrow> bool" where
  "is_word w \<longleftrightarrow>
     (case w of [] \<Rightarrow> False
      | c # v \<Rightarrow> list_all etb_ident_char w \<and> \<not> is_digit c \<and>
                 \<not> (c = CHR '':'' \<and> (case v of d # _ \<Rightarrow> d = CHR ''-'' | [] \<Rightarrow> False)))"

lemma not_ident_chars:
  "list_all (\<lambda>d. \<not> etb_ident_char d) (CHR 0x22 # ''#()[],./=@'')"
  by code_simp

lemma ident_not_space: "etb_ident_char c \<Longrightarrow> \<not> is_space c"
  by (auto simp: etb_ident_char_def is_alnum_def is_upper_def is_lower_def is_digit_def
      is_space_def Let_def)

lemma ident_not_punctuation: "etb_ident_char c \<Longrightarrow> punctuation c = None"
  using not_ident_chars by (auto simp: punctuation_def)

lemma char_classes:
  "etb_ident_char c \<Longrightarrow> c \<noteq> CHR ''#'' \<and> \<not> is_space c \<and> punctuation c = None \<and> c \<noteq> CHR 0x22"
  "is_digit c \<Longrightarrow> etb_ident_char c"
  using not_ident_chars ident_not_space ident_not_punctuation
  by (auto simp: etb_ident_char_def is_alnum_def)

lemma takeWhile_stops:
  assumes "list_all etb_ident_char w" and "stops r"
  shows "takeWhile etb_ident_char (w @ r) = w" and "dropWhile etb_ident_char (w @ r) = r"
  using assms by (induction w) (auto simp: stops_def split: list.splits)

lemma lexes_space: "lexes r k tx i r' \<Longrightarrow> lexes (CHR '' '' # r) k tx i r'"
proof -
  assume "lexes r k tx i r'"
  moreover have "etb_scanner_advance sc = etb_scanner_advance (sc\<lparr>sc_rest := r\<rparr>)"
    if "sc_rest sc = CHR '' '' # r" for sc
    using that by (simp add: etb_scanner_advance_def skip_space_simps is_space_def)
  ultimately show ?thesis by (fastforce simp: lexes_def)
qed

lemma lexes_eof: "lexes [] TOK_EOF None 0 []"
  by (auto simp: lexes_def at_token_def etb_scanner_advance_def skip_space_simps)

lemma lexes_punctuation:
  "punctuation c = Some k \<Longrightarrow> lexes (c # r) k None 0 r"
  by (auto simp: lexes_def at_token_def etb_scanner_advance_def skip_space_simps punctuation_def
      is_space_def Let_def split: if_splits)

lemma lexes_word:
  assumes w: "is_word w" and r: "stops r"
  shows "lexes (w @ r) TOK_IDENT (Some w) 0 r"
proof -
  obtain c v where cv: "w = c # v" using w by (cases w) (auto simp: is_word_def)
  have c: "etb_ident_char c" "\<not> is_digit c" using w cv by (auto simp: is_word_def)
  have colon: "\<not> (c = CHR '':'' \<and> (case v @ r of d # _ \<Rightarrow> d = CHR ''-'' | [] \<Rightarrow> False))"
    using w r cv
    by (cases v; cases r) (auto simp: is_word_def stops_def etb_ident_char_def)
  have "takeWhile etb_ident_char (w @ r) = w" "dropWhile etb_ident_char (w @ r) = r"
    using takeWhile_stops w r cv by (auto simp: is_word_def)
  then show ?thesis
    using cv c colon char_classes(1) [OF c(1)]
    by (auto simp: lexes_def at_token_def etb_scanner_advance_def skip_space_simps Let_def)
qed

lemma dec_digit_list: "list_all is_digit (dec n)"
  by (simp add: list_all_iff dec_digits)

lemma lexes_number:
  assumes n: "n < 2 ^ 63" and r: "stops r"
  shows "lexes (dec n @ r) TOK_INTEGER (Some (dec n)) (of_nat n) r"
proof -
  obtain c v where cv: "dec n = c # v" by (cases "dec n") auto
  have c: "is_digit c" using dec_digits [of c n] cv by simp
  have "takeWhile is_digit (dec n @ r) = dec n" "dropWhile is_digit (dec n @ r) = r"
    using dec_digit_list [of n] r char_classes(2)
    by (auto simp: takeWhile_append dropWhile_append list_all_iff stops_def split: list.splits)
  moreover have "strtoll (dec n) = of_nat n" using n by (simp add: strtoll_def)
  moreover have "c \<noteq> CHR '':''" using c by (auto simp: is_digit_def)
  ultimately show ?thesis
    using cv c char_classes(1) [OF char_classes(2) [OF c]]
    by (auto simp: lexes_def at_token_def etb_scanner_advance_def skip_space_simps Let_def)
qed

lemma lexes_string:
  assumes "CHR 0x22 \<notin> set s"
  shows "lexes ([CHR 0x22] @ s @ [CHR 0x22] @ r) TOK_STRING (Some s) 0 r"
proof -
  have "takeWhile (\<lambda>c. c \<noteq> CHR 0x22) (s @ CHR 0x22 # r) = s"
    "dropWhile (\<lambda>c. c \<noteq> CHR 0x22) (s @ CHR 0x22 # r) = CHR 0x22 # r"
    using assms by (induction s) auto
  then show ?thesis
    by (auto simp: lexes_def at_token_def etb_scanner_advance_def skip_space_simps Let_def
        is_space_def punctuation_def)
qed

section \<open>Printable atoms\<close>

definition printable_term :: "etb_term \<Rightarrow> bool" where
  "printable_term t \<longleftrightarrow> wf_term t \<and>
     (case t_kind t of
        ETB_TERM_SYMBOL \<Rightarrow>
          (case t_text t of
             Some (c # v) \<Rightarrow> is_word (c # v) \<and> c # v \<noteq> ''null'' \<and> \<not> is_upper c \<and> c \<noteq> CHR ''_''
           | _ \<Rightarrow> False)
      | ETB_TERM_VARIABLE \<Rightarrow> False
      | ETB_TERM_STRING \<Rightarrow> (case t_text t of Some s \<Rightarrow> CHR 0x22 \<notin> set s | None \<Rightarrow> False)
      | ETB_TERM_INTEGER \<Rightarrow> unat (t_integer t) < 2 ^ 63
      | ETB_TERM_NULL \<Rightarrow> True)"

definition printable_name :: "string option \<Rightarrow> bool" where
  "printable_name n \<longleftrightarrow> (case n of Some w \<Rightarrow> is_word w | None \<Rightarrow> False)"

definition printable_atom :: "etb_atom \<Rightarrow> bool" where
  "printable_atom a \<longleftrightarrow>
     (case a_kind a of
        ETB_ATOM_PREDICATE \<Rightarrow> a_principal a = None
      | ETB_ATOM_SAYS \<Rightarrow> printable_name (a_principal a)
      | ETB_ATOM_SPEAKS_FOR \<Rightarrow> False) \<and>
     a_delegate a = None \<and> printable_name (a_predicate a) \<and>
     list_all printable_term (a_terms a) \<and>
     (if a_temporal_kind a = ETB_TEMPORAL_NONE then a_temporal_value a = 0
      else unat (a_temporal_value a) < 2 ^ 63) \<and>
     a_delegation a = \<lparr>d_scope = None, d_expires_at = 0, d_max_depth = 0\<rparr>"

lemma printable_name_obtain: "printable_name n \<Longrightarrow> (\<And>w. n = Some w \<Longrightarrow> is_word w \<Longrightarrow> P) \<Longrightarrow> P"
  by (auto simp: printable_name_def split: option.splits)

text \<open>The token a printable term is read from.\<close>

definition term_token :: "etb_term \<Rightarrow> etb_token_kind \<times> string option \<times> u64" where
  "term_token t =
     (case t_kind t of
        ETB_TERM_STRING \<Rightarrow> (TOK_STRING, t_text t, 0)
      | ETB_TERM_INTEGER \<Rightarrow> (TOK_INTEGER, Some (etb_term_canonical_text t), t_integer t)
      | _ \<Rightarrow> (TOK_IDENT, Some (etb_term_canonical_text t), 0))"

lemma is_word_null: "is_word ''null''"
  by code_simp

lemma sint_nonneg:
  assumes "unat (w :: u64) < 2 ^ 63"
  shows "sint w = int (unat w)"
proof -
  have "uint w = int (unat w)" by simp
  moreover have "int (unat w) < 2 ^ 63" 
    using assms of_nat_less_iff [of "unat w" "2 ^ 63", where 'a = int] by simp
  ultimately have "signed_take_bit 63 (uint w) = uint w"
    by (intro signed_take_bit_int_eq_self order_trans [OF _ uint_ge_0 [of w]]) simp_all
  moreover have "sint w = signed_take_bit 63 (uint w)" by (simp add: sint_uint)
  ultimately show ?thesis by simp
qed

lemma lexes_term:
  assumes t: "printable_term t" and r: "stops r"
  shows "case term_token t of (k, tx, i) \<Rightarrow> lexes (etb_term_canonical_text t @ r) k tx i r"
proof (cases "t_kind t")
  case ETB_TERM_SYMBOL
  then obtain w where w: "t_text t = Some w" "is_word w"
    using t by (auto simp: printable_term_def split: option.splits list.splits)
  then show ?thesis
    using ETB_TERM_SYMBOL lexes_word [OF w(2) r]
    by (simp add: term_token_def etb_term_canonical_text_def)
next
  case ETB_TERM_VARIABLE
  then show ?thesis using t by (simp add: printable_term_def)
next
  case ETB_TERM_INTEGER
  then have n: "unat (t_integer t) < 2 ^ 63" using t by (simp add: printable_term_def)
  then have "etb_term_canonical_text t = dec (unat (t_integer t))"
    using ETB_TERM_INTEGER sint_nonneg by (simp add: etb_term_canonical_text_def fmt_int_def)
  then show ?thesis
    using ETB_TERM_INTEGER lexes_number [OF n r] by (simp add: term_token_def)
next
  case ETB_TERM_STRING
  then obtain s where "t_text t = Some s" "CHR 0x22 \<notin> set s"
    using t by (auto simp: printable_term_def split: option.splits)
  then show ?thesis
    using ETB_TERM_STRING lexes_string [of s r]
    by (simp add: term_token_def etb_term_canonical_text_def)
next
  case ETB_TERM_NULL
  then show ?thesis
    using lexes_word [OF is_word_null r] by (simp add: term_token_def etb_term_canonical_text_def)
qed

lemma parse_term_token:
  assumes t: "printable_term t" and tok: "term_token t = (k, tx, i)" and at: "at_token sc k tx i r"
  shows "etb_parse_term sc = bind_p (etb_scanner_advance sc) (\<lambda>_ scanner. Inr (t, scanner))"
  using assms
  by (cases t; cases "t_kind t")
    (auto simp: printable_term_def wf_term_def term_token_def at_token_def etb_parse_term_def
      etb_term_canonical_text_def etb_term_make_defs Let_def split: option.splits list.splits)

lemma stops_comma_rparen: "stops (CHR '','' # r)" "stops (CHR '')'' # r)" "stops (CHR ''('' # r)"
  "stops (CHR ''@'' # r)" "stops (CHR '' '' # r)" "stops []"
  by (simp_all add: stops_def etb_ident_char_def is_alnum_def is_upper_def is_lower_def is_digit_def)

text \<open>Reading the arguments up to the closing parenthesis.\<close>

lemma args_loop_reads:
  assumes "list_all printable_term (t # ts)" and "term_token t = (k, tx, i)"
    and "at_token sc k tx i
      ((if ts = [] then '''' else '','' @ terms_text ts) @ '')'' @ r)"
  shows "\<exists>sc'. etb_args_loop overwrite acc sc = Inr (acc @ t # ts, sc') \<and>
    at_token sc' TOK_RPAREN None 0 r"
  using assms
proof (induction ts arbitrary: t k tx i sc acc)
  case Nil
  from Nil.prems have at: "at_token sc k tx i (CHR '')'' # r)" by simp
  obtain sc' where s: "etb_scanner_advance sc = Inr ((), sc')" "at_token sc' TOK_RPAREN None 0 r"
    using lexesD [OF lexes_punctuation [of "CHR '')''" TOK_RPAREN r], of sc] at
    by (auto simp: punctuation_def at_token_def)
  have k: "tk_kind (sc_current sc) \<noteq> TOK_RPAREN"
    using at Nil.prems(2) by (auto simp: at_token_def term_token_def split: etb_term_kind.splits)
  have "etb_parse_arg overwrite sc = Inr (t, sc')"
    using parse_term_token [OF _ Nil.prems(2) at] Nil.prems(1) s
    by (auto simp: etb_parse_arg_def split: option.splits)
  then have "etb_args_loop overwrite acc sc = Inr (acc @ [t], sc')"
    using k s(2) by (simp add: etb_args_loop.simps [of overwrite acc sc] at_token_def
        etb_term_list_push_def)
  then show ?case using s(2) by auto
next
  case (Cons u us)
  let ?rest = "terms_text (u # us) @ '')'' @ r"
  from Cons.prems have at: "at_token sc k tx i (CHR '','' # ?rest)" by simp
  obtain sc1 where s1: "etb_scanner_advance sc = Inr ((), sc1)" "at_token sc1 TOK_COMMA None 0 ?rest"
    using lexesD [OF lexes_punctuation [of "CHR '',''" TOK_COMMA ?rest], of sc] at
    by (auto simp: punctuation_def at_token_def)
  obtain k' tx' i' where tok: "term_token u = (k', tx', i')" by (cases "term_token u")
  let ?rest' = "(if us = [] then '''' else '','' @ terms_text us) @ '')'' @ r"
  have "?rest = etb_term_canonical_text u @ ?rest'" by (cases us) simp_all
  moreover have "stops ?rest'" using stops_comma_rparen by (cases us) simp_all
  moreover have "printable_term u" using Cons.prems(1) by simp
  ultimately have "lexes ?rest k' tx' i' ?rest'"
    using lexes_term [of u ?rest'] tok by simp
  then obtain sc2 where s2: "etb_scanner_advance sc1 = Inr ((), sc2)" "at_token sc2 k' tx' i' ?rest'"
    using lexesD s1(2) unfolding at_token_def by metis
  obtain sc' where IH: "etb_args_loop overwrite (acc @ [t]) sc2 = Inr ((acc @ [t]) @ u # us, sc')"
    "at_token sc' TOK_RPAREN None 0 r"
    using Cons.IH [OF _ tok s2(2), of "acc @ [t]"] Cons.prems(1) by auto
  have k: "tk_kind (sc_current sc) \<noteq> TOK_RPAREN"
    using at Cons.prems(2) by (auto simp: at_token_def term_token_def split: etb_term_kind.splits)
  have "etb_parse_arg overwrite sc = Inr (t, sc1)"
    using parse_term_token [OF _ Cons.prems(2) at] Cons.prems(1) s1
    by (auto simp: etb_parse_arg_def split: option.splits)
  then have "etb_args_loop overwrite acc sc = Inr (acc @ t # u # us, sc')"
    using k s1(2) s2(1) IH(1)
    by (simp add: etb_args_loop.simps [of overwrite acc sc] at_token_def etb_term_list_push_def)
  then show ?case using IH(2) by auto
qed

section \<open>Parsing inverts printing\<close>

lemma parse_args_reads:
  assumes ts: "list_all printable_term (a_terms a)" and next_token: "lexes r k tx i r'" "k \<noteq> TOK_LPAREN"
    and rest: "sc_rest sc = args_text a @ r"
  shows "\<exists>sc1 sc2. etb_scanner_advance sc = Inr ((), sc1) \<and>
    etb_parse_args overwrite sc1 = Inr (a_terms a, sc2) \<and> at_token sc2 k tx i r' \<and>
    (if a_terms a = [] then sc1 = sc2 else tk_kind (sc_current sc1) = TOK_LPAREN)"
proof (cases "a_terms a")
  case Nil
  then obtain sc1 where "etb_scanner_advance sc = Inr ((), sc1)" "at_token sc1 k tx i r'"
    using lexesD [OF next_token(1)] rest by (auto simp: args_text_def)
  then show ?thesis using Nil next_token(2) by (auto simp: etb_parse_args_def at_token_def)
next
  case (Cons t us)
  let ?rest = "terms_text (t # us) @ '')'' @ r"
  obtain sc1 where s1: "etb_scanner_advance sc = Inr ((), sc1)" "at_token sc1 TOK_LPAREN None 0 ?rest"
    using lexesD [OF lexes_punctuation [of "CHR ''(''" TOK_LPAREN ?rest], of sc] rest Cons
    by (auto simp: punctuation_def args_text_def)
  obtain k' tx' i' where tok: "term_token t = (k', tx', i')" by (cases "term_token t")
  let ?rest' = "(if us = [] then '''' else '','' @ terms_text us) @ '')'' @ r"
  have "?rest = etb_term_canonical_text t @ ?rest'" by (cases us) simp_all
  moreover have "stops ?rest'" using stops_comma_rparen by (cases us) simp_all
  ultimately have "lexes ?rest k' tx' i' ?rest'"
    using lexes_term [of t ?rest'] tok ts Cons by simp
  then obtain sc2 where s2: "etb_scanner_advance sc1 = Inr ((), sc2)" "at_token sc2 k' tx' i' ?rest'"
    using lexesD s1(2) unfolding at_token_def by metis
  obtain sc3 where s3: "etb_args_loop overwrite [] sc2 = Inr (t # us, sc3)"
    "at_token sc3 TOK_RPAREN None 0 r"
    using args_loop_reads [OF _ tok s2(2), of overwrite "[]"] ts Cons by auto
  obtain sc4 where s4: "etb_scanner_advance sc3 = Inr ((), sc4)" "at_token sc4 k tx i r'"
    using lexesD [OF next_token(1), of sc3] s3(2) by (auto simp: at_token_def)
  show ?thesis
    using s1 s2(1) s3 s4 Cons by (simp add: etb_parse_args_def etb_expect_def at_token_def)
qed

definition temporal_token :: "etb_atom \<Rightarrow> etb_token_kind \<times> string option \<times> string" where
  "temporal_token a =
     (case a_temporal_kind a of
        ETB_TEMPORAL_NONE \<Rightarrow> (TOK_EOF, None, '''')
      | ETB_TEMPORAL_EXPIRES_AT \<Rightarrow> (TOK_AT, None, dec (unat (a_temporal_value a)))
      | ETB_TEMPORAL_ANCHORED_AT \<Rightarrow>
          (TOK_IDENT, Some ''at'', '' '' @ dec (unat (a_temporal_value a))))"

lemma is_word_at: "is_word ''at''" and is_word_says: "is_word ''says''"
  by code_simp+

lemma lexes_temporal:
  "temporal_token a = (k, tx, r) \<Longrightarrow> lexes (temporal_text a) k tx 0 r"
  using lexes_space [OF lexes_word [OF is_word_at stops_comma_rparen(5)]] lexes_eof
    lexes_punctuation [of "CHR ''@''" TOK_AT]
  by (auto simp: temporal_token_def temporal_text_def punctuation_def
      split: etb_temporal_kind.splits)

lemma stops_tail: "stops (args_text a @ temporal_text a)"
  using stops_comma_rparen
  by (auto simp: args_text_def temporal_text_def split: etb_temporal_kind.splits)

lemma lexes_value:
  "n < 2 ^ 63 \<Longrightarrow> lexes (dec n) TOK_INTEGER (Some (dec n)) (of_nat n) []"
  using lexes_number [OF _ stops_comma_rparen(6)] by simp

text \<open>From the token after the arguments to the end of the text.\<close>

lemma parse_temporal_reads:
  assumes pr: "printable_atom a" and tok: "temporal_token a = (k, tx, r)"
    and at: "at_token sc k tx 0 r"
    and b: "a = b\<lparr>a_temporal_kind := a_temporal_kind a, a_temporal_value := a_temporal_value a\<rparr>"
      "a_temporal_kind b = ETB_TEMPORAL_NONE" "a_temporal_value b = 0"
  shows "\<exists>sc'. (if etb_token_is sc TOK_AT None then
       etb_parse_temporal ETB_TEMPORAL_EXPIRES_AT ''expected integer after @'' b sc
     else if etb_token_is sc TOK_IDENT (Some ''at'') then
       etb_parse_temporal ETB_TEMPORAL_ANCHORED_AT ''expected integer after at'' b sc
     else Inr (b, sc)) = Inr (a, sc') \<and> tk_kind (sc_current sc') = TOK_EOF"
proof (cases "a_temporal_kind a = ETB_TEMPORAL_NONE")
  case True
  then have "a_temporal_value a = 0" using pr by (simp add: printable_atom_def)
  then have "a = b" using b True by (metis etb_atom.surjective etb_atom.update_convs(6,7))
  then show ?thesis using tok at True by (auto simp: temporal_token_def at_token_def)
next
  case False
  let ?n = "unat (a_temporal_value a)"
  have n: "?n < 2 ^ 63" using pr False by (simp add: printable_atom_def)
  have "lexes r TOK_INTEGER (Some (dec ?n)) (of_nat ?n) []"
    using lexes_value [OF n] lexes_space [OF lexes_value [OF n]] tok False
    by (auto simp: temporal_token_def split: etb_temporal_kind.splits)
  then obtain sc1 where s1: "etb_scanner_advance sc = Inr ((), sc1)"
    "at_token sc1 TOK_INTEGER (Some (dec ?n)) (of_nat ?n) []"
    using lexesD at unfolding at_token_def by metis
  then obtain sc2 where s2: "etb_scanner_advance sc1 = Inr ((), sc2)" "at_token sc2 TOK_EOF None 0 []"
    using lexesD [OF lexes_eof, of sc1] by (auto simp: at_token_def)
  have reads: "etb_parse_temporal (a_temporal_kind a) msg b sc = Inr (a, sc2)" for msg
    using s1 s2 b(1) by (simp add: etb_parse_temporal_def at_token_def Let_def)
  show ?thesis
    using tok at False reads s2(2)
    by (cases "a_temporal_kind a") (auto simp: temporal_token_def at_token_def)
qed

lemma base_atom:
  assumes "printable_atom a" and "a_kind a = ETB_ATOM_PREDICATE" and "a_predicate a = Some p"
  shows "a = (etb_atom_init\<lparr>a_kind := ETB_ATOM_PREDICATE, a_predicate := Some p,
      a_terms := a_terms a\<rparr>)\<lparr>a_temporal_kind := a_temporal_kind a,
      a_temporal_value := a_temporal_value a\<rparr>"
  using assms by (cases a) (simp add: printable_atom_def etb_atom_init_def)

lemma says_atom:
  assumes "printable_atom a" and "a_kind a = ETB_ATOM_SAYS" and "a_predicate a = Some p"
    and "a_principal a = Some q"
  shows "a = (etb_atom_init\<lparr>a_kind := ETB_ATOM_PREDICATE, a_predicate := Some p,
      a_terms := a_terms a, a_kind := ETB_ATOM_SAYS, a_principal := Some q\<rparr>)
      \<lparr>a_temporal_kind := a_temporal_kind a, a_temporal_value := a_temporal_value a\<rparr>"
  using assms by (cases a) (simp add: printable_atom_def etb_atom_init_def)

lemma temporal_token_kinds:
  "temporal_token a = (k, tx, r) \<Longrightarrow>
     k \<noteq> TOK_LPAREN \<and> k \<noteq> TOK_DOT \<and> (k = TOK_IDENT \<longrightarrow> tx = Some ''at'')"
  by (auto simp: temporal_token_def split: etb_temporal_kind.splits)

text \<open>The predicate form: one scan from the name to the end.\<close>

lemma parse_atom_plain:
  assumes pr: "printable_atom a" and kind: "a_kind a = ETB_ATOM_PREDICATE"
    and p: "a_predicate a = Some p"
    and at: "at_token sc TOK_IDENT (Some p) 0 (args_text a @ temporal_text a)"
  shows "\<exists>sc'. etb_parse_atom sc = Inr (a, sc') \<and> tk_kind (sc_current sc') = TOK_EOF"
proof -
  obtain k tx r where tok: "temporal_token a = (k, tx, r)" by (cases "temporal_token a")
  note kinds = temporal_token_kinds [OF tok]
  have ts: "list_all printable_term (a_terms a)" using pr by (simp add: printable_atom_def)
  obtain sc1 sc2 where s1: "etb_scanner_advance sc = Inr ((), sc1)"
    and args: "etb_parse_args None sc1 = Inr (a_terms a, sc2)" and s2: "at_token sc2 k tx 0 r"
    and same: "if a_terms a = [] then sc1 = sc2 else tk_kind (sc_current sc1) = TOK_LPAREN"
    using parse_args_reads [OF ts lexes_temporal [OF tok]] kinds at unfolding at_token_def by metis
  have not_form: "\<not> etb_token_is sc1 TOK_IDENT (Some ''says'')"
    "\<not> etb_token_is sc1 TOK_IDENT (Some ''speaks_for'')"
    using same s2 kinds by (auto simp: at_token_def split: if_splits)
  let ?b = "etb_atom_init\<lparr>a_kind := ETB_ATOM_PREDICATE, a_predicate := Some p, a_terms := a_terms a\<rparr>"
  have core: "etb_parse_atom_core sc = Inr (?b, sc2)"
    using at s1 args not_form
    by (simp add: etb_parse_atom_core_def etb_parse_plain_def at_token_def Let_def
        del: token_is_Some)
  show ?thesis
    unfolding etb_parse_atom_def core bind_p_simps
    by (rule parse_temporal_reads [OF pr tok s2 base_atom [OF pr kind p]])
      (simp_all add: etb_atom_init_def)
qed

lemma parse_atom_says:
  assumes pr: "printable_atom a" and kind: "a_kind a = ETB_ATOM_SAYS"
    and p: "a_predicate a = Some p" and q: "a_principal a = Some q"
    and at: "at_token sc TOK_IDENT (Some q) 0 ('' says '' @ p @ args_text a @ temporal_text a)"
  shows "\<exists>sc'. etb_parse_atom sc = Inr (a, sc') \<and> tk_kind (sc_current sc') = TOK_EOF"
proof -
  let ?tail = "args_text a @ temporal_text a"
  obtain k tx r where tok: "temporal_token a = (k, tx, r)" by (cases "temporal_token a")
  have ts: "list_all printable_term (a_terms a)" using pr by (simp add: printable_atom_def)
  have wp: "is_word p" using pr p by (simp add: printable_atom_def printable_name_def)
  have "lexes ('' says '' @ p @ ?tail) TOK_IDENT (Some ''says'') 0 ('' '' @ p @ ?tail)"
    using lexes_space [OF lexes_word [OF is_word_says stops_comma_rparen(5)]] by simp
  then obtain sc1 where s1: "etb_scanner_advance sc = Inr ((), sc1)"
    "at_token sc1 TOK_IDENT (Some ''says'') 0 ('' '' @ p @ ?tail)"
    using lexesD [of _ _ _ _ _ sc] at by (force simp: at_token_def)
  have "lexes ('' '' @ p @ ?tail) TOK_IDENT (Some p) 0 ?tail"
    using lexes_space [OF lexes_word [OF wp stops_tail]] by simp
  then obtain sc2 where s2: "etb_scanner_advance sc1 = Inr ((), sc2)"
    "at_token sc2 TOK_IDENT (Some p) 0 ?tail"
    using lexesD [of _ _ _ _ _ sc1] s1(2) by (force simp: at_token_def)
  obtain sc3 sc4 where s3: "etb_scanner_advance sc2 = Inr ((), sc3)"
    and args: "etb_parse_args (Some ''out of memory'') sc3 = Inr (a_terms a, sc4)"
    and s4: "at_token sc4 k tx 0 r"
    using parse_args_reads [OF ts lexes_temporal [OF tok]] temporal_token_kinds [OF tok] s2(2)
    unfolding at_token_def by metis
  let ?b = "etb_atom_init\<lparr>a_kind := ETB_ATOM_PREDICATE, a_predicate := Some p,
      a_terms := a_terms a, a_kind := ETB_ATOM_SAYS, a_principal := Some q\<rparr>"
  have core: "etb_parse_atom_core sc = Inr (?b, sc4)"
    using at s1 s2 s3 args
    by (simp add: etb_parse_atom_core_def etb_parse_says_def etb_parse_predicate_atom_def
        at_token_def Let_def)
  show ?thesis
    unfolding etb_parse_atom_def core bind_p_simps
    by (rule parse_temporal_reads [OF pr tok s4 says_atom [OF pr kind p q]])
      (simp_all add: etb_atom_init_def)
qed

lemma parse_canonical:
  assumes pr: "printable_atom a"
  shows "bind_res (etb_atom_canonical_text a) etb_parse_atom_text = Inr a"
proof -
  have ends: "etb_parse_atom_text s = Inr a"
    if "etb_scanner_advance (etb_scanner_start s) = Inr ((), sc)"
      and "etb_parse_atom sc = Inr (a, sc')" and "tk_kind (sc_current sc') = TOK_EOF" for s sc sc'
    using that by (simp add: etb_parse_atom_text_def)
  have start: "sc_rest (etb_scanner_start s) = s" for s by (simp add: etb_scanner_start_def)
  obtain p where p: "a_predicate a = Some p" "is_word p"
    using pr by (auto simp: printable_atom_def elim: printable_name_obtain)
  consider (plain) "a_kind a = ETB_ATOM_PREDICATE"
    | (says) q where "a_kind a = ETB_ATOM_SAYS" "a_principal a = Some q" "is_word q"
    using pr by (auto simp: printable_atom_def elim: printable_name_obtain split: etb_atom_kind.splits)
  then show ?thesis
  proof cases
    case plain
    obtain sc where "etb_scanner_advance (etb_scanner_start (p @ args_text a @ temporal_text a)) = Inr ((), sc)"
      "at_token sc TOK_IDENT (Some p) 0 (args_text a @ temporal_text a)"
      using lexesD [OF lexes_word [OF p(2) stops_tail] start] by blast
    then show ?thesis
      using parse_atom_plain [OF pr plain p(1)] ends canonical_predicate [OF plain p(1)] by force
  next
    case says
    have "stops ('' says '' @ p @ args_text a @ temporal_text a)" using stops_comma_rparen(5) by simp
    then obtain sc where "etb_scanner_advance (etb_scanner_start
        (q @ '' says '' @ p @ args_text a @ temporal_text a)) = Inr ((), sc)"
      "at_token sc TOK_IDENT (Some q) 0 ('' says '' @ p @ args_text a @ temporal_text a)"
      using lexesD [OF lexes_word [OF says(3)] start] by blast
    then show ?thesis
      using parse_atom_says [OF pr says(1) p(1) says(2)] ends
        canonical_says [OF says(1,2) p(1)] by force
  qed
qed

corollary canonical_text_inject:
  assumes "printable_atom a" and "printable_atom b"
    and "etb_atom_canonical_text a = etb_atom_canonical_text b"
  shows "a = b"
proof -
  have "bind_res (etb_atom_canonical_text a) etb_parse_atom_text =
      bind_res (etb_atom_canonical_text b) etb_parse_atom_text" using assms(3) by simp
  then show ?thesis using parse_canonical assms(1,2) by simp
qed

text \<open>
  C13. Parsing inverts canonical printing on every printable atom: the text that certificates,
  traces and remote queries carry determines the atom it was printed from.
\<close>

theorem etb_parse_canonical:
  assumes "printable_atom a"
  shows "bind_res (etb_atom_canonical_text a) etb_parse_atom_text = Inr a"
  using assms by (rule parse_canonical)

section \<open>Outside the fragment\<close>

text \<open>
  A \<open>says\<close> without a predicate parses, and the atom it yields cannot be printed: the length
  of its null predicate is taken. The same text reaches the engine through a remote query.
\<close>

theorem says_without_predicate:
  "\<exists>a. etb_parse_atom_text ''alice says'' = Inr a \<and> a_predicate a = None \<and>
       etb_atom_canonical_text a = Inl Null_deref"
proof -
  let ?a = "etb_atom_init\<lparr>a_kind := ETB_ATOM_SAYS, a_principal := Some ''alice''\<rparr>"
  have "etb_parse_atom_text ''alice says'' = Inr ?a"
    by code_simp
  moreover have "etb_atom_canonical_text ?a = Inl Null_deref"
    by (simp add: etb_atom_canonical_text_def etb_atom_init_def)
  ultimately show ?thesis by (auto simp: etb_atom_init_def)
qed

text \<open>
  The canonical text of an atom with a variable does not parse: the printer marks a variable
  with a question mark, which is no character of the grammar.
\<close>

theorem variable_text_rejected:
  "bind_res (etb_atom_canonical_text (etb_atom_init\<lparr>a_predicate := Some ''p'',
       a_terms := [etb_term_make_variable (Some ''X'')]\<rparr>)) etb_parse_atom_text
     = Inl (Fail ''line 1: unexpected character'')"
  by code_simp

definition sample_atom :: etb_atom where
  "sample_atom = etb_atom_init\<lparr>a_kind := ETB_ATOM_SAYS, a_principal := Some ''alice'',
     a_predicate := Some ''ok'', a_terms := [etb_term_make_symbol (Some ''x''),
       etb_term_make_integer 42, etb_term_make_string (Some ''a b'')],
     a_temporal_kind := ETB_TEMPORAL_EXPIRES_AT, a_temporal_value := 7\<rparr>"

lemma sample_words: "is_word ''alice''" "is_word ''ok''" "is_word ''x''" "\<not> is_upper (CHR ''x'')"
  by code_simp+

lemma sample_printable: "printable_atom sample_atom"
  by (simp add: printable_atom_def printable_name_def printable_term_def wf_term_def
      sample_atom_def etb_atom_init_def etb_term_make_defs sample_words)

lemma etb_parse_canonical_witness:
  "etb_atom_canonical_text sample_atom = Inr (''alice says ok(x,42,'' @ [CHR 0x22] @ ''a b'' @ [CHR 0x22] @ '')@7'')
   \<and> etb_parse_atom_text (''alice says ok(x,42,'' @ [CHR 0x22] @ ''a b'' @ [CHR 0x22] @ '')@7'') = Inr sample_atom"
proof -
  have "etb_atom_canonical_text sample_atom =
      Inr (''alice says ok(x,42,'' @ [CHR 0x22] @ ''a b'' @ [CHR 0x22] @ '')@7'')"
    by code_simp
  then show ?thesis using etb_parse_canonical [OF sample_printable] by simp
qed

end
