(* ===== verification/Tables.thy ===== *)
theory Tables
  imports Canon
begin

text \<open>
  The fact tables: \<open>include/etb/engine.h\<close> (\<open>etb_fact\<close>, \<open>etb_relation\<close>,
  \<open>etb_relation_set\<close>) and \<open>src/engine/tables.c\<close>, with \<open>etb_relation_contains_fact\<close> of
  \<open>src/engine/eval.c\<close>. A relation set is the list of its relations in the order they were
  created; a relation is a key and its facts in insertion order.

  The engine uses the tables through two operations, reading the facts under a key and adding a
  ft. The locale \<open>fact_store\<close> is their contract; the engine's monotonicity and invariants are
  proved from it, and it is interpreted on the code's tables.
\<close>

record etb_fact =
  f_atom :: etb_atom
  f_trace_id :: nat
  f_from_capability :: bool

record etb_relation =
  r_key :: string
  r_facts :: "etb_fact list"

type_synonym etb_relation_set = "etb_relation list"

definition etb_relation_set_add_relation :: "etb_relation_set \<Rightarrow> string \<Rightarrow> etb_relation_set" where
  "etb_relation_set_add_relation rels key = rels @ [\<lparr>r_key = key, r_facts = []\<rparr>]"

definition etb_relation_set_find :: "etb_relation_set \<Rightarrow> string \<Rightarrow> etb_relation option" where
  "etb_relation_set_find rels key = List.find (\<lambda>r. r_key r = key) rels"

definition fact_list_contains :: "etb_fact list \<Rightarrow> etb_atom \<Rightarrow> bool" where
  "fact_list_contains facts atom \<longleftrightarrow> list_ex (\<lambda>f. etb_atom_equals (f_atom f) atom) facts"

text \<open>
  The write through the pointer \<open>etb_relation_set_find_mut\<close> returns: the first relation with the
  key is updated in place.
\<close>

primrec relation_update ::
    "string \<Rightarrow> (etb_relation \<Rightarrow> etb_relation) \<Rightarrow> etb_relation_set \<Rightarrow> etb_relation_set" where
  "relation_update key f [] = []"
| "relation_update key f (r # rs) =
     (if r_key r = key then f r # rs else r # relation_update key f rs)"

definition relation_push_fact :: "etb_fact \<Rightarrow> etb_relation \<Rightarrow> etb_relation" where
  "relation_push_fact ft relation =
     (if fact_list_contains (r_facts relation) (f_atom ft) then relation
      else relation\<lparr>r_facts := r_facts relation @
        [\<lparr>f_atom = etb_atom_clone (f_atom ft), f_trace_id = f_trace_id ft,
          f_from_capability = f_from_capability ft\<rparr>]\<rparr>)"

definition etb_relation_set_add_fact :: "etb_relation_set \<Rightarrow> etb_fact \<Rightarrow> etb_relation_set" where
  "etb_relation_set_add_fact rels ft =
     (let key = etb_atom_relation_key (f_atom ft);
          rels = (case etb_relation_set_find rels key of
                   Some _ \<Rightarrow> rels
                 | None \<Rightarrow> etb_relation_set_add_relation rels key)
      in relation_update key (relation_push_fact ft) rels)"

text \<open>\<open>etb_relation_contains_fact\<close> of \<open>eval.c\<close>.\<close>

definition etb_relation_contains_fact :: "etb_relation_set \<Rightarrow> etb_atom \<Rightarrow> bool" where
  "etb_relation_contains_fact rels atom \<longleftrightarrow>
     (case etb_relation_set_find rels (etb_atom_relation_key atom) of
        None \<Rightarrow> False
      | Some relation \<Rightarrow> fact_list_contains (r_facts relation) atom)"

section \<open>What the tables hold\<close>

definition facts_at :: "etb_relation_set \<Rightarrow> string \<Rightarrow> etb_fact list" where
  "facts_at rels key =
     (case etb_relation_set_find rels key of None \<Rightarrow> [] | Some relation \<Rightarrow> r_facts relation)"

definition fact_key :: "etb_fact \<Rightarrow> string" where
  "fact_key ft = etb_atom_relation_key (f_atom ft)"

lemma fact_clone [simp]:
  "\<lparr>f_atom = etb_atom_clone (f_atom ft), f_trace_id = f_trace_id ft,
     f_from_capability = f_from_capability ft\<rparr> = ft"
  by simp

lemma find_relation_update:
  "(\<And>r. r_key (f r) = r_key r) \<Longrightarrow>
     etb_relation_set_find (relation_update key f rels) key' =
     (if key' = key then map_option f (etb_relation_set_find rels key)
      else etb_relation_set_find rels key')"
  by (induction rels) (auto simp: etb_relation_set_find_def)

lemma relation_push_fact_key [simp]: "r_key (relation_push_fact ft r) = r_key r"
  by (simp add: relation_push_fact_def)

lemma find_add_relation:
  "etb_relation_set_find (etb_relation_set_add_relation rels key) key' =
     (case etb_relation_set_find rels key' of
        Some r \<Rightarrow> Some r
      | None \<Rightarrow> if key' = key then Some \<lparr>r_key = key, r_facts = []\<rparr> else None)"
  by (simp add: etb_relation_set_find_def etb_relation_set_add_relation_def find_append
      split: option.splits)

lemma facts_at_add:
  "facts_at (etb_relation_set_add_fact rels ft) key =
     (if key = fact_key ft \<and> \<not> fact_list_contains (facts_at rels key) (f_atom ft)
      then facts_at rels key @ [ft] else facts_at rels key)"
  by (auto simp: facts_at_def etb_relation_set_add_fact_def find_relation_update find_add_relation
      fact_key_def relation_push_fact_def Let_def fact_list_contains_def split: option.splits)

lemma contains_fact_at:
  "etb_relation_contains_fact rels atom \<longleftrightarrow>
     fact_list_contains (facts_at rels (etb_atom_relation_key atom)) atom"
  by (simp add: etb_relation_contains_fact_def facts_at_def fact_list_contains_def
      split: option.splits)

section \<open>The contract\<close>

text \<open>
  Reading after adding: a fact lands under its own key, at the end, unless an equal atom is
  there already; everything else is untouched.
\<close>

locale fact_store =
  fixes facts :: "'s \<Rightarrow> string \<Rightarrow> etb_fact list" and add :: "'s \<Rightarrow> etb_fact \<Rightarrow> 's" and empty :: 's
  assumes facts_empty: "facts empty key = []"
    and facts_add: "facts (add s ft) key =
      (if key = fact_key ft \<and> \<not> fact_list_contains (facts s key) (f_atom ft)
       then facts s key @ [ft] else facts s key)"
begin

definition store_ok :: "'s \<Rightarrow> bool" where
  "store_ok s \<longleftrightarrow> (\<forall>key. (\<forall>f \<in> set (facts s key). fact_key f = key) \<and>
     distinct (map f_atom (facts s key)))"

lemma store_ok_empty: "store_ok empty"
  by (simp add: store_ok_def facts_empty)

lemma add_keeps: "f \<in> set (facts s key) \<Longrightarrow> f \<in> set (facts (add s ft) key)"
  by (auto simp: facts_add)

lemma add_only: "f \<in> set (facts (add s ft) key) \<Longrightarrow> f \<in> set (facts s key) \<or> f = ft"
  by (auto simp: facts_add split: if_splits)

lemma store_prefix: "\<exists>new. facts (add s ft) key = facts s key @ new"
  by (simp add: facts_add)

lemma add_contains: "fact_list_contains (facts (add s ft) (fact_key ft)) (f_atom ft)"
  by (auto simp: facts_add fact_list_contains_def)

lemma add_present:
  "fact_list_contains (facts s (fact_key ft)) (f_atom ft) \<Longrightarrow>
     facts (add s ft) key = facts s key"
  by (auto simp: facts_add)

lemma store_ok_add:
  assumes "store_ok s"
  shows "store_ok (add s ft)"
  unfolding store_ok_def
proof (intro allI)
  fix key
  have ok: "\<forall>f \<in> set (facts s key). fact_key f = key" "distinct (map f_atom (facts s key))"
    using assms by (auto simp: store_ok_def)
  have "f_atom ft \<notin> f_atom ` set (facts s key)"
    if "\<not> fact_list_contains (facts s key) (f_atom ft)"
    using that etb_atom_equals_refl by (force simp: fact_list_contains_def list_ex_iff)
  then show "(\<forall>f \<in> set (facts (add s ft) key). fact_key f = key) \<and>
      distinct (map f_atom (facts (add s ft) key))"
    using ok by (auto simp: facts_add)
qed

lemma store_ok_add_all: "store_ok s \<Longrightarrow> store_ok (foldl add s fs)"
  by (induction fs arbitrary: s) (auto intro: store_ok_add)

lemma add_all_keeps: "f \<in> set (facts s key) \<Longrightarrow> f \<in> set (facts (foldl add s fs) key)"
  by (induction fs arbitrary: s) (auto intro: add_keeps)

lemma add_all_only:
  "f \<in> set (facts (foldl add s fs) key) \<Longrightarrow> f \<in> set (facts s key) \<or> f \<in> set fs"
  by (induction fs arbitrary: s) (auto dest: add_only)

end

interpretation tables: fact_store facts_at etb_relation_set_add_fact "[]"
proof unfold_locales
  show "facts_at [] key = []" for key
    by (simp add: facts_at_def etb_relation_set_find_def)
qed (rule facts_at_add)

section \<open>Relation sets as the engine builds them\<close>

text \<open>
  The shape of a relation set the code can reach: no two relations share a key, every fact lies
  under its own key, no fact is stored twice.
\<close>

definition relations_ok :: "etb_relation_set \<Rightarrow> bool" where
  "relations_ok rels \<longleftrightarrow> distinct (map r_key rels) \<and>
     list_all (\<lambda>r. list_all (\<lambda>f. fact_key f = r_key r) (r_facts r) \<and>
                   distinct (map f_atom (r_facts r))) rels"

definition all_facts :: "etb_relation_set \<Rightarrow> etb_fact list" where
  "all_facts rels = concat (map r_facts rels)"

lemma relations_ok_Nil [simp]: "relations_ok []"
  by (simp add: relations_ok_def)

lemma find_relation_in:
  "etb_relation_set_find rs key = Some r \<Longrightarrow> r \<in> set rs \<and> r_key r = key"
  unfolding etb_relation_set_find_def by (drule find_Some_iff') auto

lemma find_relation_unique:
  "distinct (map r_key rs) \<Longrightarrow> r \<in> set rs \<Longrightarrow> etb_relation_set_find rs (r_key r) = Some r"
  by (induction rs) (auto simp: etb_relation_set_find_def)

lemma facts_at_relation:
  "relations_ok rs \<Longrightarrow> r \<in> set rs \<Longrightarrow> facts_at rs (r_key r) = r_facts r"
  by (simp add: relations_ok_def facts_at_def find_relation_unique)

lemma all_facts_at:
  assumes "relations_ok rs"
  shows "f \<in> set (all_facts rs) \<longleftrightarrow> f \<in> set (facts_at rs (fact_key f))"
proof
  assume "f \<in> set (all_facts rs)"
  then obtain r where r: "r \<in> set rs" "f \<in> set (r_facts r)" by (auto simp: all_facts_def)
  then have "fact_key f = r_key r" using assms by (auto simp: relations_ok_def list_all_iff)
  then show "f \<in> set (facts_at rs (fact_key f))" using r facts_at_relation [OF assms r(1)] by simp
next
  assume "f \<in> set (facts_at rs (fact_key f))"
  then show "f \<in> set (all_facts rs)"
    by (cases "etb_relation_set_find rs (fact_key f)")
      (auto simp: facts_at_def all_facts_def dest: find_relation_in)
qed

lemma keys_relation_update:
  "(\<And>r. r_key (f r) = r_key r) \<Longrightarrow> map r_key (relation_update key f rels) = map r_key rels"
  by (induction rels) auto

lemma relation_update_all:
  "list_all P rels \<Longrightarrow> (\<And>r. r_key r = key \<Longrightarrow> P r \<Longrightarrow> P (f r)) \<Longrightarrow> list_all P (relation_update key f rels)"
  by (induction rels) auto

lemma push_fact_distinct:
  assumes "distinct (map f_atom (r_facts r))"
  shows "distinct (map f_atom (r_facts (relation_push_fact ft r)))"
proof -
  have "f_atom ft \<notin> f_atom ` set (r_facts r)"
    if "\<not> fact_list_contains (r_facts r) (f_atom ft)"
    using that etb_atom_equals_refl by (force simp: fact_list_contains_def list_ex_iff)
  then show ?thesis using assms by (simp add: relation_push_fact_def)
qed

lemma relations_ok_add:
  assumes "relations_ok rels"
  shows "relations_ok (etb_relation_set_add_fact rels ft)"
proof -
  let ?key = "fact_key ft"
  let ?set = "case etb_relation_set_find rels ?key of Some _ \<Rightarrow> rels
                | None \<Rightarrow> etb_relation_set_add_relation rels ?key"
  have "relations_ok ?set"
    using assms
    by (auto simp: relations_ok_def etb_relation_set_add_relation_def etb_relation_set_find_def
        find_None_iff' split: option.splits)
  moreover have "list_all (\<lambda>f. fact_key f = r_key r) (r_facts (relation_push_fact ft r))"
    if "list_all (\<lambda>f. fact_key f = r_key r) (r_facts r)" "r_key r = ?key" for r
    using that by (simp add: relation_push_fact_def fact_key_def)
  ultimately show ?thesis
    unfolding etb_relation_set_add_fact_def Let_def relations_ok_def fact_key_def [of ft, symmetric]
    by (auto simp: keys_relation_update push_fact_distinct intro!: relation_update_all)
qed

text \<open>
  C19. The tables are a duplicate-free store: adding a fact keeps the shape, keeps every stored
  fact at its place, stores the new fact unless an equal atom is stored, and afterwards the
  table contains its atom.
\<close>

theorem etb_relation_set_add_fact_correct:
  assumes "relations_ok rels"
  shows "relations_ok (etb_relation_set_add_fact rels ft) \<and>
    etb_relation_contains_fact (etb_relation_set_add_fact rels ft) (f_atom ft) \<and>
    (\<forall>key. \<exists>new. facts_at (etb_relation_set_add_fact rels ft) key = facts_at rels key @ new \<and>
       (new = [] \<or> new = [ft] \<and> key = fact_key ft \<and> \<not> etb_relation_contains_fact rels (f_atom ft)))"
  using relations_ok_add [OF assms] tables.add_contains [of rels ft]
  by (auto simp: contains_fact_at fact_key_def facts_at_add)

definition sample_fact :: etb_fact where
  "sample_fact = \<lparr>f_atom = etb_atom_init\<lparr>a_predicate := Some ''p''\<rparr>, f_trace_id = 0,
     f_from_capability = False\<rparr>"

lemma etb_relation_set_add_fact_correct_witness:
  "relations_ok (etb_relation_set_add_fact [] sample_fact) \<and>
   etb_relation_contains_fact (etb_relation_set_add_fact [] sample_fact) (f_atom sample_fact)"
  using etb_relation_set_add_fact_correct [OF relations_ok_Nil, of sample_fact] by simp

end
