(* ===== verification/Unify.thy ===== *)
theory Unify
  imports Tables
begin

text \<open>
  Bindings, evaluation states, unification and instantiation: \<open>src/engine/unify.c\<close> and the types
  of \<open>src/engine/engine_internal.h\<close>. A binding set is the list of its bindings. The boolean
  outcome of unification is an option: \<open>None\<close> is the \<open>false\<close> return, after which every caller
  discards the bindings.

  A binding set denotes the finite map of its bindings, and unification with a ground candidate
  is matching: \<open>etb_unify_atom_matching\<close> shows that it finds the least extension of the
  bindings that instantiates the pattern to the candidate, and fails only if there is none.
\<close>

section \<open>Bindings and states\<close>

record etb_binding =
  b_name :: string
  b_value :: etb_term

type_synonym etb_binding_set = "etb_binding list"

record etb_eval_state =
  s_bindings :: etb_binding_set
  s_premises :: "nat list"

text \<open>The scan compares with \<open>strcmp\<close>: a null name is dereferenced if there is anything to scan.\<close>

definition etb_binding_set_get :: "etb_binding_set \<Rightarrow> string option \<Rightarrow> etb_term option res" where
  "etb_binding_set_get bs name =
     (case name of
        None \<Rightarrow> if bs = [] then Inr None else Inl Null_deref
      | Some x \<Rightarrow> Inr (map_option b_value (List.find (\<lambda>b. b_name b = x) bs)))"

definition etb_binding_set_put ::
    "etb_binding_set \<Rightarrow> string option \<Rightarrow> etb_term \<Rightarrow> etb_binding_set option res" where
  "etb_binding_set_put bs name value =
     bind_res (etb_binding_set_get bs name) (\<lambda>existing.
       case existing of
         Some v \<Rightarrow> Inr (if etb_term_equals v value then Some bs else None)
       | None \<Rightarrow>
           (case name of
              None \<Rightarrow> Inl Null_deref
            | Some x \<Rightarrow> Inr (Some (bs @ [\<lparr>b_name = x, b_value = etb_term_clone value\<rparr>]))))"

text \<open>Cloning re-inserts every binding; a copy that fails is discarded.\<close>

fun clone_bindings :: "etb_binding_set \<Rightarrow> etb_binding_set \<Rightarrow> etb_binding_set option res" where
  "clone_bindings dst [] = Inr (Some dst)"
| "clone_bindings dst (b # src) =
     bind_res (etb_binding_set_put dst (Some (b_name b)) (b_value b)) (\<lambda>r.
       case r of None \<Rightarrow> Inr None | Some dst' \<Rightarrow> clone_bindings dst' src)"

definition etb_binding_set_clone_into :: "etb_binding_set \<Rightarrow> etb_binding_set option res" where
  "etb_binding_set_clone_into src = clone_bindings [] src"

definition etb_eval_state_init :: etb_eval_state where
  "etb_eval_state_init = \<lparr>s_bindings = [], s_premises = []\<rparr>"

definition etb_eval_state_clone :: "etb_eval_state \<Rightarrow> etb_eval_state option res" where
  "etb_eval_state_clone src =
     bind_res (etb_binding_set_clone_into (s_bindings src)) (\<lambda>r.
       Inr (map_option (\<lambda>bs. \<lparr>s_bindings = bs, s_premises = s_premises src\<rparr>) r))"

definition etb_eval_state_push_premise :: "etb_eval_state \<Rightarrow> nat \<Rightarrow> etb_eval_state" where
  "etb_eval_state_push_premise state trace_id = state\<lparr>s_premises := s_premises state @ [trace_id]\<rparr>"

section \<open>Unification\<close>

definition etb_unify_term ::
    "etb_binding_set \<Rightarrow> etb_term \<Rightarrow> etb_term \<Rightarrow> etb_binding_set option res" where
  "etb_unify_term bs pattern candidate =
     (if t_kind pattern = ETB_TERM_VARIABLE then
        bind_res (etb_binding_set_get bs (t_text pattern)) (\<lambda>bound.
          case bound of
            Some v \<Rightarrow> Inr (if etb_term_equals v candidate then Some bs else None)
          | None \<Rightarrow> etb_binding_set_put bs (t_text pattern) candidate)
      else if t_kind candidate = ETB_TERM_VARIABLE then
        bind_res (etb_binding_set_get bs (t_text candidate)) (\<lambda>bound.
          case bound of
            Some v \<Rightarrow> Inr (if etb_term_equals pattern v then Some bs else None)
          | None \<Rightarrow> etb_binding_set_put bs (t_text candidate) pattern)
      else Inr (if etb_term_equals pattern candidate then Some bs else None))"

fun unify_terms ::
    "etb_binding_set \<Rightarrow> etb_term list \<Rightarrow> etb_term list \<Rightarrow> etb_binding_set option res" where
  "unify_terms bs (p # ps) (c # cs) =
     bind_res (etb_unify_term bs p c) (\<lambda>r.
       case r of None \<Rightarrow> Inr None | Some bs' \<Rightarrow> unify_terms bs' ps cs)"
| "unify_terms bs _ _ = Inr (Some bs)"

definition etb_unify_atom ::
    "etb_binding_set \<Rightarrow> etb_atom \<Rightarrow> etb_atom \<Rightarrow> bool \<Rightarrow> etb_binding_set option res" where
  "etb_unify_atom bs pattern candidate ignore_speaker =
     (if a_kind pattern \<noteq> a_kind candidate then Inr None
      else if a_kind pattern = ETB_ATOM_SPEAKS_FOR then
        bind_res (c_streq (a_principal pattern) (a_principal candidate)) (\<lambda>same.
        if \<not> same then Inr None
        else bind_res (c_streq (a_delegate pattern) (a_delegate candidate)) (\<lambda>same.
          Inr (if same then Some bs else None)))
      else
        bind_res (if \<not> ignore_speaker \<and> a_kind pattern = ETB_ATOM_SAYS
                  then c_streq (a_principal pattern) (a_principal candidate) else Inr True) (\<lambda>same.
        if \<not> same then Inr None
        else bind_res (c_streq (a_predicate pattern) (a_predicate candidate)) (\<lambda>same.
          if \<not> same \<or> length (a_terms pattern) \<noteq> length (a_terms candidate) then Inr None
          else unify_terms bs (a_terms pattern) (a_terms candidate))))"

definition instantiate_term :: "etb_binding_set \<Rightarrow> etb_term \<Rightarrow> etb_term res" where
  "instantiate_term bs source =
     bind_res (if t_kind source = ETB_TERM_VARIABLE
               then etb_binding_set_get bs (t_text source) else Inr None) (\<lambda>bound.
       Inr (case bound of None \<Rightarrow> etb_term_clone source | Some v \<Rightarrow> etb_term_clone v))"

definition instantiate_terms :: "etb_binding_set \<Rightarrow> etb_term list \<Rightarrow> etb_term list res" where
  "instantiate_terms bs ts =
     fold_res (\<lambda>source out. bind_res (instantiate_term bs source) (\<lambda>t.
       Inr (etb_term_list_push out t))) ts []"

definition etb_instantiate_atom :: "etb_atom \<Rightarrow> etb_binding_set \<Rightarrow> etb_atom res" where
  "etb_instantiate_atom pattern bs =
     bind_res (instantiate_terms bs (a_terms pattern)) (\<lambda>ts.
       Inr (etb_atom_init
         \<lparr>a_kind := a_kind pattern, a_principal := a_principal pattern,
          a_delegate := a_delegate pattern, a_predicate := a_predicate pattern,
          a_temporal_kind := a_temporal_kind pattern, a_temporal_value := a_temporal_value pattern,
          a_delegation := \<lparr>d_scope = d_scope (a_delegation pattern),
                           d_expires_at = d_expires_at (a_delegation pattern),
                           d_max_depth = d_max_depth (a_delegation pattern)\<rparr>,
          a_terms := ts\<rparr>))"

section \<open>Binding sets as maps\<close>

definition bindings_map :: "etb_binding_set \<Rightarrow> (string \<rightharpoonup> etb_term)" where
  "bindings_map bs = map_of (map (\<lambda>b. (b_name b, b_value b)) bs)"

definition bindings_ok :: "etb_binding_set \<Rightarrow> bool" where
  "bindings_ok bs \<longleftrightarrow> distinct (map b_name bs) \<and> list_all (\<lambda>b. wf_term (b_value b)) bs"

lemma bindings_ok_Nil [simp]: "bindings_ok []"
  by (simp add: bindings_ok_def)

lemma get_Some: "etb_binding_set_get bs (Some x) = Inr (bindings_map bs x)"
  by (induction bs) (auto simp: etb_binding_set_get_def bindings_map_def)

lemma bindings_map_append:
  "bindings_map bs x = None \<Longrightarrow>
     bindings_map (bs @ [\<lparr>b_name = x, b_value = v\<rparr>]) = (bindings_map bs)(x \<mapsto> v)"
  by (rule ext) (auto simp: bindings_map_def map_add_def split: option.splits)

lemma bindings_map_None: "bindings_map bs x = None \<longleftrightarrow> x \<notin> b_name ` set bs"
  by (simp add: bindings_map_def map_of_eq_None_iff image_image)

lemma bindings_map_wf: "bindings_ok bs \<Longrightarrow> bindings_map bs x = Some v \<Longrightarrow> wf_term v"
  by (auto simp: bindings_ok_def bindings_map_def list_all_iff dest!: map_of_SomeD)

lemma bindings_ok_append:
  "bindings_ok bs \<Longrightarrow> bindings_map bs x = None \<Longrightarrow> wf_term v \<Longrightarrow>
     bindings_ok (bs @ [\<lparr>b_name = x, b_value = v\<rparr>])"
  by (auto simp: bindings_ok_def bindings_map_None)

lemma put_Some:
  "etb_binding_set_put bs (Some x) v =
     Inr (case bindings_map bs x of
            Some u \<Rightarrow> if etb_term_equals u v then Some bs else None
          | None \<Rightarrow> Some (bs @ [\<lparr>b_name = x, b_value = v\<rparr>]))"
  by (simp add: etb_binding_set_put_def get_Some split: option.split)

lemma clone_bindings_eq:
  "distinct (map b_name (dst @ src)) \<Longrightarrow> clone_bindings dst src = Inr (Some (dst @ src))"
proof (induction src arbitrary: dst)
  case Nil
  then show ?case by simp
next
  case (Cons b src)
  then have "bindings_map dst (b_name b) = None" by (auto simp: bindings_map_None)
  then have "etb_binding_set_put dst (Some (b_name b)) (b_value b) = Inr (Some (dst @ [b]))"
    by (cases b) (simp add: put_Some)
  then show ?case using Cons.IH [of "dst @ [b]"] Cons.prems by simp
qed

lemma clone_into_eq: "bindings_ok bs \<Longrightarrow> etb_binding_set_clone_into bs = Inr (Some bs)"
  by (simp add: etb_binding_set_clone_into_def clone_bindings_eq bindings_ok_def)

lemma eval_state_clone_eq:
  "bindings_ok (s_bindings st) \<Longrightarrow> etb_eval_state_clone st = Inr (Some st)"
  by (simp add: etb_eval_state_clone_def clone_into_eq)

section \<open>Matching\<close>

definition inst :: "(string \<rightharpoonup> etb_term) \<Rightarrow> etb_term \<Rightarrow> etb_term" where
  "inst \<sigma> t =
     (if t_kind t = ETB_TERM_VARIABLE
      then (case t_text t of None \<Rightarrow> t | Some x \<Rightarrow> (case \<sigma> x of None \<Rightarrow> t | Some v \<Rightarrow> v)) else t)"

lemma instantiate_term_eq: "wf_term t \<Longrightarrow> instantiate_term bs t = Inr (inst (bindings_map bs) t)"
  by (auto simp: instantiate_term_def inst_def wf_term_def get_Some split: option.splits)

lemma instantiate_terms_eq:
  assumes "list_all wf_term ts"
  shows "instantiate_terms bs ts = Inr (map (inst (bindings_map bs)) ts)"
proof -
  have "fold_res (\<lambda>source out. bind_res (instantiate_term bs source) (\<lambda>t.
       Inr (etb_term_list_push out t))) ts acc = Inr (acc @ map (inst (bindings_map bs)) ts)" for acc
    using assms
    by (induction ts arbitrary: acc) (simp_all add: instantiate_term_eq etb_term_list_push_def)
  then show ?thesis by (simp add: instantiate_terms_def)
qed

lemma instantiate_atom_eq:
  "list_all wf_term (a_terms p) \<Longrightarrow>
     etb_instantiate_atom p bs = Inr (p\<lparr>a_terms := map (inst (bindings_map bs)) (a_terms p)\<rparr>)"
  by (cases p; cases "a_delegation p")
    (simp add: etb_instantiate_atom_def instantiate_terms_eq etb_atom_init_def)

definition ground_terms :: "etb_term list \<Rightarrow> bool" where
  "ground_terms ts \<longleftrightarrow> list_all (\<lambda>t. wf_term t \<and> etb_term_is_ground t) ts"

text \<open>The outcome of a matcher: the least extension of the bindings that satisfies \<open>M\<close>, if any.\<close>

definition least_match ::
    "etb_binding_set \<Rightarrow> etb_binding_set option \<Rightarrow> ((string \<rightharpoonup> etb_term) \<Rightarrow> bool) \<Rightarrow> bool" where
  "least_match bs r M \<longleftrightarrow>
     (\<forall>\<sigma>. bindings_map bs \<subseteq>\<^sub>m \<sigma> \<longrightarrow>
        (M \<sigma> \<longleftrightarrow> (\<exists>bs'. r = Some bs' \<and> bindings_map bs' \<subseteq>\<^sub>m \<sigma>))) \<and>
     (\<forall>bs'. r = Some bs' \<longrightarrow> bindings_ok bs' \<and> (\<exists>new. bs' = bs @ new))"

lemma bindings_map_prefix: "bindings_map bs \<subseteq>\<^sub>m bindings_map (bs @ new)"
  by (auto simp: bindings_map_def map_le_def dom_def)

lemma least_match_self: "bindings_ok bs \<Longrightarrow> least_match bs (Some bs) (\<lambda>_. True)"
  by (simp add: least_match_def)

lemma least_match_if:
  "bindings_ok bs \<Longrightarrow> (\<And>\<sigma>. bindings_map bs \<subseteq>\<^sub>m \<sigma> \<Longrightarrow> M \<sigma> \<longleftrightarrow> c) \<Longrightarrow>
     least_match bs (if c then Some bs else None) M"
  by (auto simp: least_match_def)

lemma least_match_sound:
  "least_match bs (Some bs') M \<Longrightarrow> M (bindings_map bs')"
  using bindings_map_prefix by (fastforce simp: least_match_def)

lemma least_match_seq:
  assumes m: "least_match bs r M"
    and n: "\<And>bs'. r = Some bs' \<Longrightarrow> bindings_ok bs' \<Longrightarrow> least_match bs' (f bs') N"
  shows "least_match bs (case r of None \<Rightarrow> None | Some bs' \<Rightarrow> f bs') (\<lambda>\<sigma>. M \<sigma> \<and> N \<sigma>)"
proof (cases r)
  case None
  then show ?thesis using m by (simp add: least_match_def)
next
  case (Some bs')
  then obtain new where ok: "bindings_ok bs'" and bs': "bs' = bs @ new"
    using m by (auto simp: least_match_def)
  have pre: "bindings_map bs \<subseteq>\<^sub>m bindings_map bs'" using bs' bindings_map_prefix by simp
  note n' = n [OF Some ok]
  have "M \<sigma> \<and> N \<sigma> \<longleftrightarrow> (\<exists>bs''. f bs' = Some bs'' \<and> bindings_map bs'' \<subseteq>\<^sub>m \<sigma>)"
    if "bindings_map bs \<subseteq>\<^sub>m \<sigma>" for \<sigma>
  proof -
    have "M \<sigma> \<longleftrightarrow> bindings_map bs' \<subseteq>\<^sub>m \<sigma>" using m that Some by (simp add: least_match_def)
    moreover have "bindings_map bs' \<subseteq>\<^sub>m \<sigma> \<Longrightarrow>
        N \<sigma> \<longleftrightarrow> (\<exists>bs''. f bs' = Some bs'' \<and> bindings_map bs'' \<subseteq>\<^sub>m \<sigma>)"
      using n' by (simp add: least_match_def)
    moreover have "bindings_map bs' \<subseteq>\<^sub>m \<sigma>"
      if "f bs' = Some bs''" "bindings_map bs'' \<subseteq>\<^sub>m \<sigma>" for bs''
    proof -
      obtain new' where "bs'' = bs' @ new'" using n' \<open>f bs' = Some bs''\<close> by (auto simp: least_match_def)
      then show ?thesis using that bindings_map_prefix map_le_trans by blast
    qed
    ultimately show ?thesis by blast
  qed
  moreover have "bindings_ok bs'' \<and> (\<exists>new. bs'' = bs @ new)" if "f bs' = Some bs''" for bs''
    using n' that bs' by (auto simp: least_match_def)
  ultimately show ?thesis using Some by (simp add: least_match_def)
qed

lemma unify_term_least:
  assumes ok: "bindings_ok bs" and p: "wf_term p" and c: "wf_term c" "etb_term_is_ground c"
  shows "\<exists>r. etb_unify_term bs p c = Inr r \<and> least_match bs r (\<lambda>\<sigma>. inst \<sigma> p = c)"
proof (cases "t_kind p = ETB_TERM_VARIABLE")
  case False
  then have "inst \<sigma> p = p" for \<sigma> by (simp add: inst_def)
  then have "least_match bs (if p = c then Some bs else None) (\<lambda>\<sigma>. inst \<sigma> p = c)"
    using ok by (intro least_match_if) simp_all
  then show ?thesis
    using False c p by (simp add: etb_unify_term_def etb_term_is_ground_def etb_term_equals_eq)
next
  case True
  then obtain x where x: "t_text p = Some x" using p by (auto simp: wf_term_def)
  show ?thesis
  proof (cases "bindings_map bs x")
    case (Some v)
    have "inst \<sigma> p = v" if "bindings_map bs \<subseteq>\<^sub>m \<sigma>" for \<sigma>
    proof -
      have "\<sigma> x = Some v" using that Some by (metis domI map_le_def)
      then show ?thesis using True x by (simp add: inst_def)
    qed
    then have "least_match bs (if v = c then Some bs else None) (\<lambda>\<sigma>. inst \<sigma> p = c)"
      using ok by (intro least_match_if) simp_all
    then show ?thesis
      using True x Some bindings_map_wf [OF ok Some] c(1)
      by (simp add: etb_unify_term_def get_Some etb_term_equals_eq)
  next
    case None
    let ?bs = "bs @ [\<lparr>b_name = x, b_value = c\<rparr>]"
    have "p \<noteq> c" using True c(2) by (auto simp: etb_term_is_ground_def)
    then have inst: "inst \<sigma> p = c \<longleftrightarrow> \<sigma> x = Some c" for \<sigma>
      using True x by (auto simp: inst_def split: option.splits)
    have "inst \<sigma> p = c \<longleftrightarrow> bindings_map ?bs \<subseteq>\<^sub>m \<sigma>" if "bindings_map bs \<subseteq>\<^sub>m \<sigma>" for \<sigma>
      using that by (auto simp: inst bindings_map_append [OF None] map_le_def)
    then have "least_match bs (Some ?bs) (\<lambda>\<sigma>. inst \<sigma> p = c)"
      using bindings_ok_append [OF ok None c(1)] by (simp add: least_match_def)
    then show ?thesis using True x None by (simp add: etb_unify_term_def get_Some put_Some)
  qed
qed

lemma unify_terms_least:
  "bindings_ok bs \<Longrightarrow> list_all wf_term ps \<Longrightarrow> ground_terms cs \<Longrightarrow> length ps = length cs \<Longrightarrow>
     \<exists>r. unify_terms bs ps cs = Inr r \<and> least_match bs r (\<lambda>\<sigma>. map (inst \<sigma>) ps = cs)"
proof (induction bs ps cs rule: unify_terms.induct)
  case (1 bs p ps c cs)
  then obtain r where r: "etb_unify_term bs p c = Inr r" "least_match bs r (\<lambda>\<sigma>. inst \<sigma> p = c)"
    using unify_term_least [of bs p c] by (auto simp: ground_terms_def)
  let ?f = "\<lambda>bs'. SOME q. unify_terms bs' ps cs = Inr q"
  have IH: "unify_terms bs' ps cs = Inr (?f bs') \<and> least_match bs' (?f bs') (\<lambda>\<sigma>. map (inst \<sigma>) ps = cs)"
    if b: "r = Some bs'" "bindings_ok bs'" for bs'
  proof -
    obtain q where "unify_terms bs' ps cs = Inr q" "least_match bs' q (\<lambda>\<sigma>. map (inst \<sigma>) ps = cs)"
      using "1.IH" [OF r(1) b(1)] "1.prems" b(2) by (auto simp: ground_terms_def)
    then show ?thesis by simp
  qed
  have "least_match bs (case r of None \<Rightarrow> None | Some bs' \<Rightarrow> ?f bs')
      (\<lambda>\<sigma>. inst \<sigma> p = c \<and> map (inst \<sigma>) ps = cs)"
    using IH by (intro least_match_seq [OF r(2)]) blast
  moreover have "unify_terms bs (p # ps) (c # cs) = Inr (case r of None \<Rightarrow> None | Some bs' \<Rightarrow> ?f bs')"
    using r IH by (cases r) (auto simp: least_match_def)
  ultimately show ?case by auto
qed (auto simp: least_match_self)

text \<open>
  The part of an atom that unification compares verbatim.
\<close>

definition heads_agree :: "etb_atom \<Rightarrow> etb_atom \<Rightarrow> bool \<Rightarrow> bool" where
  "heads_agree p c ignore_speaker \<longleftrightarrow>
     a_kind p = a_kind c \<and>
     (if a_kind p = ETB_ATOM_SPEAKS_FOR then
        a_principal p = a_principal c \<and> a_delegate p = a_delegate c
      else (a_kind p = ETB_ATOM_SAYS \<and> \<not> ignore_speaker \<longrightarrow> a_principal p = a_principal c) \<and>
           a_predicate p = a_predicate c \<and> length (a_terms p) = length (a_terms c))"

definition atom_matches :: "(string \<rightharpoonup> etb_term) \<Rightarrow> etb_atom \<Rightarrow> etb_atom \<Rightarrow> bool \<Rightarrow> bool" where
  "atom_matches \<sigma> p c ignore_speaker \<longleftrightarrow>
     heads_agree p c ignore_speaker \<and>
     (a_kind p \<noteq> ETB_ATOM_SPEAKS_FOR \<longrightarrow> map (inst \<sigma>) (a_terms p) = a_terms c)"

lemma wf_atom_names:
  "wf_atom a \<Longrightarrow> a_kind a = ETB_ATOM_SPEAKS_FOR \<Longrightarrow>
     \<exists>q d. a_principal a = Some q \<and> a_delegate a = Some d"
  "wf_atom a \<Longrightarrow> a_kind a = ETB_ATOM_SAYS \<Longrightarrow>
     \<exists>q p. a_principal a = Some q \<and> a_predicate a = Some p"
  "wf_atom a \<Longrightarrow> a_kind a = ETB_ATOM_PREDICATE \<Longrightarrow> \<exists>p. a_predicate a = Some p"
  by (auto simp: wf_atom_def)

lemma unify_atom_reduce:
  assumes "wf_atom p" and "wf_atom c"
  shows "etb_unify_atom bs p c ign =
     (if \<not> heads_agree p c ign then Inr None
      else if a_kind p = ETB_ATOM_SPEAKS_FOR then Inr (Some bs)
      else unify_terms bs (a_terms p) (a_terms c))"
proof (cases "a_kind p = a_kind c")
  case False
  then show ?thesis by (simp add: etb_unify_atom_def heads_agree_def)
next
  case True
  show ?thesis
  proof (cases "a_kind p")
    case ETB_ATOM_PREDICATE
    then obtain x y where "a_predicate p = Some x" "a_predicate c = Some y"
      using wf_atom_names(3) assms True by metis
    then show ?thesis using ETB_ATOM_PREDICATE True by (simp add: etb_unify_atom_def heads_agree_def)
  next
    case ETB_ATOM_SAYS
    then obtain q x r y where "a_principal p = Some q" "a_predicate p = Some x"
      "a_principal c = Some r" "a_predicate c = Some y"
      using wf_atom_names(2) assms True by metis
    then show ?thesis using ETB_ATOM_SAYS True
      by (simp add: etb_unify_atom_def heads_agree_def del: bind_res_eq_Inr)
  next
    case ETB_ATOM_SPEAKS_FOR
    then obtain q d r e where "a_principal p = Some q" "a_delegate p = Some d"
      "a_principal c = Some r" "a_delegate c = Some e"
      using wf_atom_names(1) assms True by metis
    then show ?thesis using ETB_ATOM_SPEAKS_FOR True by (simp add: etb_unify_atom_def heads_agree_def)
  qed
qed

lemma unify_atom_least:
  assumes ok: "bindings_ok bs" and p: "wf_atom p" and c: "wf_atom c" "ground_terms (a_terms c)"
  shows "\<exists>r. etb_unify_atom bs p c ign = Inr r \<and> least_match bs r (\<lambda>\<sigma>. atom_matches \<sigma> p c ign)"
proof -
  consider (no) "\<not> heads_agree p c ign" | (speaks) "heads_agree p c ign" "a_kind p = ETB_ATOM_SPEAKS_FOR"
    | (terms) "heads_agree p c ign" "a_kind p \<noteq> ETB_ATOM_SPEAKS_FOR" by blast
  then show ?thesis
  proof cases
    case no
    then show ?thesis
      using unify_atom_reduce [OF p c(1)] by (simp add: atom_matches_def least_match_def)
  next
    case speaks
    then show ?thesis
      using unify_atom_reduce [OF p c(1)] ok by (simp add: atom_matches_def least_match_def)
  next
    case terms
    have "length (a_terms p) = length (a_terms c)" using terms by (auto simp: heads_agree_def)
    then show ?thesis
      using unify_terms_least [OF ok _ c(2)] unify_atom_reduce [OF p c(1)] terms p
      by (simp add: atom_matches_def wf_atom_def)
  qed
qed

text \<open>
  C11. Unification of a well-formed pattern with a well-formed ground atom, under good bindings,
  meets no null pointer and is matching: it returns the bindings extended by exactly what is
  needed for the pattern to become the candidate, and returns false only if no extension does.
\<close>

theorem etb_unify_atom_matching:
  assumes ok: "bindings_ok bs" and p: "wf_atom p" and c: "wf_atom c" "ground_terms (a_terms c)"
  shows "\<exists>r. etb_unify_atom bs p c ign = Inr r \<and>
    (\<forall>\<sigma>. bindings_map bs \<subseteq>\<^sub>m \<sigma> \<longrightarrow>
      (atom_matches \<sigma> p c ign \<longleftrightarrow> (\<exists>bs'. r = Some bs' \<and> bindings_map bs' \<subseteq>\<^sub>m \<sigma>))) \<and>
    (\<forall>bs'. r = Some bs' \<longrightarrow> atom_matches (bindings_map bs') p c ign \<and>
       bindings_ok bs' \<and> (\<exists>new. bs' = bs @ new))"
proof -
  obtain r where r: "etb_unify_atom bs p c ign = Inr r"
    and least: "least_match bs r (\<lambda>\<sigma>. atom_matches \<sigma> p c ign)"
    using unify_atom_least [OF assms] by blast
  have "atom_matches (bindings_map bs') p c ign" if "r = Some bs'" for bs'
    using least_match_sound [of bs bs' "\<lambda>\<sigma>. atom_matches \<sigma> p c ign"] least that by simp
  then show ?thesis using r least by (auto simp: least_match_def)
qed

definition edge_atom :: "string \<Rightarrow> etb_term \<Rightarrow> etb_atom" where
  "edge_atom p t = etb_atom_init\<lparr>a_predicate := Some p, a_terms := [t, etb_term_make_symbol (Some ''b'')]\<rparr>"

lemma etb_unify_atom_matching_witness:
  "etb_unify_atom [] (edge_atom ''e'' (etb_term_make_variable (Some ''X'')))
       (edge_atom ''e'' (etb_term_make_integer 1)) False
     = Inr (Some [\<lparr>b_name = ''X'', b_value = etb_term_make_integer 1\<rparr>]) \<and>
   atom_matches (bindings_map [\<lparr>b_name = ''X'', b_value = etb_term_make_integer 1\<rparr>])
     (edge_atom ''e'' (etb_term_make_variable (Some ''X''))) (edge_atom ''e'' (etb_term_make_integer 1)) False"
proof -
  let ?p = "edge_atom ''e'' (etb_term_make_variable (Some ''X''))"
  let ?c = "edge_atom ''e'' (etb_term_make_integer 1)"
  have "wf_atom ?p" "wf_atom ?c" "ground_terms (a_terms ?c)"
    by (simp_all add: edge_atom_def wf_atom_def etb_atom_init_def ground_terms_def
        etb_term_is_ground_def etb_term_make_defs wf_term_def)
  from etb_unify_atom_matching [OF bindings_ok_Nil this]
  have "\<exists>r. etb_unify_atom [] ?p ?c False = Inr r \<and>
      (\<forall>bs'. r = Some bs' \<longrightarrow> atom_matches (bindings_map bs') ?p ?c False)" by blast
  moreover have "etb_unify_atom [] ?p ?c False =
      Inr (Some [\<lparr>b_name = ''X'', b_value = etb_term_make_integer 1\<rparr>])"
    by (simp add: etb_unify_atom_def edge_atom_def etb_atom_init_def etb_unify_term_def
        etb_term_make_defs etb_binding_set_get_def etb_binding_set_put_def etb_term_equals_def
        del: bind_res_eq_Inr)
  ultimately show ?thesis by simp
qed

end
