(* ===== verification/Sha256.thy ===== *)
theory Sha256
  imports Etb_Prelude
begin

text \<open>
  The hash of \<open>src/core/sha256.c\<close>: the streaming context, its update and final steps, and the
  hexadecimal digest. The reference is the block-wise definition of FIPS 180-4 (padding, message
  schedule, compression with rotations), written independently of the code's buffer; the
  streaming code is shown to compute it on every input.
\<close>

unbundle bit_operations_syntax

section \<open>The code\<close>

definition ETB_SHA256_K :: "u32 list" where
  "ETB_SHA256_K = concat [
    [0x428a2f98, 0x71374491, 0xb5c0fbcf, 0xe9b5dba5, 0x3956c25b],
    [0x59f111f1, 0x923f82a4, 0xab1c5ed5, 0xd807aa98, 0x12835b01],
    [0x243185be, 0x550c7dc3, 0x72be5d74, 0x80deb1fe, 0x9bdc06a7],
    [0xc19bf174, 0xe49b69c1, 0xefbe4786, 0x0fc19dc6, 0x240ca1cc],
    [0x2de92c6f, 0x4a7484aa, 0x5cb0a9dc, 0x76f988da, 0x983e5152],
    [0xa831c66d, 0xb00327c8, 0xbf597fc7, 0xc6e00bf3, 0xd5a79147],
    [0x06ca6351, 0x14292967, 0x27b70a85, 0x2e1b2138, 0x4d2c6dfc],
    [0x53380d13, 0x650a7354, 0x766a0abb, 0x81c2c92e, 0x92722c85],
    [0xa2bfe8a1, 0xa81a664b, 0xc24b8b70, 0xc76c51a3, 0xd192e819],
    [0xd6990624, 0xf40e3585, 0x106aa070, 0x19a4c116, 0x1e376c08],
    [0x2748774c, 0x34b0bcb5, 0x391c0cb3, 0x4ed8aa4a, 0x5b9cca4f],
    [0x682e6ff3, 0x748f82ee, 0x78a5636f, 0x84c87814, 0x8cc70208],
    [0x90befffa, 0xa4506ceb, 0xbef9a3f7, 0xc67178f2]]"

definition sha256_iv :: "u32 list" where
  "sha256_iv = [0x6a09e667, 0xbb67ae85, 0x3c6ef372, 0xa54ff53a,
                0x510e527f, 0x9b05688c, 0x1f83d9ab, 0x5be0cd19]"

definition etb_rotr :: "u32 \<Rightarrow> nat \<Rightarrow> u32" where
  "etb_rotr value count = drop_bit count value OR push_bit (32 - count) value"

text \<open>
  The context. The code's 64-byte array and its \<open>buffer_size\<close> are the list of the bytes
  written so far; the bytes beyond \<open>buffer_size\<close> are never read.
\<close>

record etb_sha256_ctx =
  sx_state :: "u32 list"
  sx_bit_count :: u64
  sx_buffer :: "byte list"

text \<open>The first loop of the transform: sixteen big-endian words of the block.\<close>

definition sha_load :: "byte list \<Rightarrow> u32 list" where
  "sha_load block = map (\<lambda>index.
       push_bit 24 (ucast (block ! (index * 4))) OR
       push_bit 16 (ucast (block ! (index * 4 + 1))) OR
       push_bit 8 (ucast (block ! (index * 4 + 2))) OR
       ucast (block ! (index * 4 + 3))) [0..<16]"

text \<open>The second loop: entries 16 to 63 of the schedule, each from earlier entries.\<close>

definition sha_extend :: "u32 list \<Rightarrow> nat \<Rightarrow> u32 list" where
  "sha_extend w index =
     (let s0 = etb_rotr (w ! (index - 15)) 7 XOR etb_rotr (w ! (index - 15)) 18
                 XOR drop_bit 3 (w ! (index - 15));
          s1 = etb_rotr (w ! (index - 2)) 17 XOR etb_rotr (w ! (index - 2)) 19
                 XOR drop_bit 10 (w ! (index - 2))
      in w @ [w ! (index - 16) + s0 + w ! (index - 7) + s1])"

definition sha_schedule :: "byte list \<Rightarrow> u32 list" where
  "sha_schedule block = foldl sha_extend (sha_load block) [16..<64]"

type_synonym sha_regs = "u32 \<times> u32 \<times> u32 \<times> u32 \<times> u32 \<times> u32 \<times> u32 \<times> u32"

text \<open>The third loop: one round on the registers \<open>a\<close> to \<open>h\<close>.\<close>

fun sha_round :: "u32 list \<Rightarrow> sha_regs \<Rightarrow> nat \<Rightarrow> sha_regs" where
  "sha_round w (a, b, c, d, e, f, g, h) index =
     (let s1 = etb_rotr e 6 XOR etb_rotr e 11 XOR etb_rotr e 25;
          ch = (e AND f) XOR (NOT e AND g);
          temp1 = h + s1 + ch + ETB_SHA256_K ! index + w ! index;
          s0 = etb_rotr a 2 XOR etb_rotr a 13 XOR etb_rotr a 22;
          maj = (a AND b) XOR (a AND c) XOR (b AND c);
          temp2 = s0 + maj
      in (temp1 + temp2, a, b, c, d + temp1, e, f, g))"

definition sha_regs_of :: "u32 list \<Rightarrow> sha_regs" where
  "sha_regs_of s = (s ! 0, s ! 1, s ! 2, s ! 3, s ! 4, s ! 5, s ! 6, s ! 7)"

definition sha_compress :: "u32 list \<Rightarrow> byte list \<Rightarrow> u32 list" where
  "sha_compress state block =
     (case foldl (sha_round (sha_schedule block)) (sha_regs_of state) [0..<64] of
        (a, b, c, d, e, f, g, h) \<Rightarrow>
          [state ! 0 + a, state ! 1 + b, state ! 2 + c, state ! 3 + d,
           state ! 4 + e, state ! 5 + f, state ! 6 + g, state ! 7 + h])"

definition etb_sha256_transform :: "etb_sha256_ctx \<Rightarrow> byte list \<Rightarrow> etb_sha256_ctx" where
  "etb_sha256_transform ctx block = ctx\<lparr>sx_state := sha_compress (sx_state ctx) block\<rparr>"

definition etb_sha256_init_ctx :: etb_sha256_ctx where
  "etb_sha256_init_ctx = \<lparr>sx_state = sha256_iv, sx_bit_count = 0, sx_buffer = []\<rparr>"

text \<open>
  One iteration of the update loop copies as much of the remaining data as the buffer takes and
  compresses a full buffer. The loop runs on the data from \<open>index\<close> on. The test for a full
  buffer at the loop head stands for the divergence the C loop would have there
  (\<open>to_copy = 0\<close>); \<open>sha_update_buffer\<close> below shows that no reachable context has one.
\<close>

definition sha_update_step :: "etb_sha256_ctx \<Rightarrow> byte list \<Rightarrow> etb_sha256_ctx" where
  "sha_update_step ctx data =
     (let to_copy = min (64 - length (sx_buffer ctx)) (length data);
          ctx1 = ctx\<lparr>sx_buffer := sx_buffer ctx @ take to_copy data\<rparr>
      in if length (sx_buffer ctx1) = 64
         then (etb_sha256_transform ctx1 (sx_buffer ctx1))
                \<lparr>sx_bit_count := sx_bit_count ctx1 + 512, sx_buffer := []\<rparr>
         else ctx1)"

function etb_sha256_update :: "etb_sha256_ctx \<Rightarrow> byte list \<Rightarrow> etb_sha256_ctx" where
  "etb_sha256_update ctx data =
     (if data = [] \<or> 64 \<le> length (sx_buffer ctx) then ctx
      else etb_sha256_update (sha_update_step ctx data)
             (drop (min (64 - length (sx_buffer ctx)) (length data)) data))"
  by pat_completeness auto
termination
  by (relation "measure (\<lambda>(ctx, data). length data)") auto

declare etb_sha256_update.simps [simp del]

definition be_bytes64 :: "u64 \<Rightarrow> byte list" where
  "be_bytes64 v = map (\<lambda>index. ucast (drop_bit ((7 - index) * 8) v)) [0..<8]"

definition be_bytes32 :: "u32 \<Rightarrow> byte list" where
  "be_bytes32 v = [ucast (drop_bit 24 v), ucast (drop_bit 16 v), ucast (drop_bit 8 v), ucast v]"

definition etb_sha256_final :: "etb_sha256_ctx \<Rightarrow> byte list" where
  "etb_sha256_final ctx =
     (let total_bits = sx_bit_count ctx + of_nat (length (sx_buffer ctx)) * 8;
          ctx1 = ctx\<lparr>sx_buffer := sx_buffer ctx @ [0x80]\<rparr>;
          ctx2 = (if 56 < length (sx_buffer ctx1)
                  then (etb_sha256_transform ctx1
                          (sx_buffer ctx1 @ replicate (64 - length (sx_buffer ctx1)) 0))
                         \<lparr>sx_buffer := []\<rparr>
                  else ctx1);
          block = sx_buffer ctx2 @ replicate (56 - length (sx_buffer ctx2)) 0
                    @ be_bytes64 total_bits;
          ctx3 = etb_sha256_transform ctx2 block
      in concat (map be_bytes32 (sx_state ctx3)))"

definition etb_sha256 :: "byte list \<Rightarrow> byte list" where
  "etb_sha256 data = etb_sha256_final (etb_sha256_update etb_sha256_init_ctx data)"

definition hex_lut :: string where
  "hex_lut = ''0123456789abcdef''"

definition etb_sha256_hex :: "byte list \<Rightarrow> string" where
  "etb_sha256_hex data =
     concat (map (\<lambda>b. [hex_lut ! unat (drop_bit 4 b), hex_lut ! unat (b AND 0x0f)])
       (etb_sha256 data))"

section \<open>The reference: FIPS 180-4\<close>

definition Ch :: "u32 \<Rightarrow> u32 \<Rightarrow> u32 \<Rightarrow> u32" where
  "Ch x y z = (x AND y) XOR (NOT x AND z)"

definition Maj :: "u32 \<Rightarrow> u32 \<Rightarrow> u32 \<Rightarrow> u32" where
  "Maj x y z = (x AND y) XOR (x AND z) XOR (y AND z)"

definition Sigma0 :: "u32 \<Rightarrow> u32" where
  "Sigma0 x = word_rotr 2 x XOR word_rotr 13 x XOR word_rotr 22 x"

definition Sigma1 :: "u32 \<Rightarrow> u32" where
  "Sigma1 x = word_rotr 6 x XOR word_rotr 11 x XOR word_rotr 25 x"

definition sigma0 :: "u32 \<Rightarrow> u32" where
  "sigma0 x = word_rotr 7 x XOR word_rotr 18 x XOR drop_bit 3 x"

definition sigma1 :: "u32 \<Rightarrow> u32" where
  "sigma1 x = word_rotr 17 x XOR word_rotr 19 x XOR drop_bit 10 x"

text \<open>The message schedule as the standard's recurrence.\<close>

fun fips_W :: "byte list \<Rightarrow> nat \<Rightarrow> u32" where
  "fips_W block t =
     (if t < 16 then word_rcat (take 4 (drop (4 * t) block))
      else sigma1 (fips_W block (t - 2)) + fips_W block (t - 7)
           + sigma0 (fips_W block (t - 15)) + fips_W block (t - 16))"

declare fips_W.simps [simp del]

fun fips_step :: "byte list \<Rightarrow> sha_regs \<Rightarrow> nat \<Rightarrow> sha_regs" where
  "fips_step block (a, b, c, d, e, f, g, h) t =
     (let T1 = h + Sigma1 e + Ch e f g + ETB_SHA256_K ! t + fips_W block t;
          T2 = Sigma0 a + Maj a b c
      in (T1 + T2, a, b, c, d + T1, e, f, g))"

definition fips_compress :: "u32 list \<Rightarrow> byte list \<Rightarrow> u32 list" where
  "fips_compress H block =
     (case foldl (fips_step block) (sha_regs_of H) [0..<64] of
        (a, b, c, d, e, f, g, h) \<Rightarrow>
          [H ! 0 + a, H ! 1 + b, H ! 2 + c, H ! 3 + d, H ! 4 + e, H ! 5 + f, H ! 6 + g, H ! 7 + h])"

text \<open>
  Padding: a one bit, zeros up to 56 modulo 64 bytes, and the length in bits as a 64-bit
  big-endian number.
\<close>

definition fips_pad :: "byte list \<Rightarrow> byte list" where
  "fips_pad msg =
     msg @ [0x80] @ replicate ((119 - length msg mod 64) mod 64) 0
       @ be_bytes64 (of_nat (8 * length msg))"

fun fips_blocks :: "byte list \<Rightarrow> byte list list" where
  "fips_blocks bs = (if length bs < 64 then [] else take 64 bs # fips_blocks (drop 64 bs))"

declare fips_blocks.simps [simp del]

definition fips_sha256 :: "byte list \<Rightarrow> byte list" where
  "fips_sha256 msg =
     concat (map be_bytes32 (foldl fips_compress sha256_iv (fips_blocks (fips_pad msg))))"

section \<open>The code computes the reference\<close>

lemma etb_rotr_eq:
  assumes "0 < n" "n < 32"
  shows "etb_rotr v n = word_rotr n v"
proof (rule bit_word_eqI)
  fix i assume "i < LENGTH(32)"
  then have i: "i < 32" by simp
  show "bit (etb_rotr v n) i = bit (word_rotr n v) i"
  proof (cases "i + n < 32")
    case True
    then have "\<not> 32 - n \<le> i" using assms by simp
    then show ?thesis using True i assms
      by (simp add: etb_rotr_def bit_or_iff bit_drop_bit_eq bit_push_bit_iff
          bit_word_rotr_iff add.commute)
  next
    case False
    then have "(i + n) mod 32 = i - (32 - n)" using i assms by (simp add: mod_if)
    moreover have "\<not> bit v (n + i)" using False bit_imp_le_length [of v "n + i"] by auto
    moreover have "32 - n \<le> i" using False by simp
    ultimately show ?thesis using False i assms
      by (simp add: etb_rotr_def bit_or_iff bit_drop_bit_eq bit_push_bit_iff bit_word_rotr_iff)
  qed
qed

lemma or_push_add: "push_bit 8 (x :: u32) OR ucast (b :: byte) = push_bit 8 x + ucast b"
proof (rule disjunctive_add [symmetric])
  fix n show "\<not> bit (push_bit 8 x) n \<or> \<not> bit (ucast b :: u32) n"
    using bit_imp_le_length [of b n] by (auto simp: bit_simps)
qed

lemma be_word_eq:
  "(push_bit 24 (ucast a) OR push_bit 16 (ucast b) OR push_bit 8 (ucast c) OR ucast d :: u32)
     = word_rcat [a, b, c, d :: byte]"
proof -
  have "(push_bit 24 (ucast a) OR push_bit 16 (ucast b) OR push_bit 8 (ucast c) OR ucast d :: u32)
     = push_bit 8 (push_bit 8 (push_bit 8 (ucast a) OR ucast b) OR ucast c) OR ucast d"
    by (simp add: push_bit_or ac_simps)
  also have "\<dots> = push_bit 8 (push_bit 8 (push_bit 8 (ucast a) + ucast b) + ucast c) + ucast d"
    by (simp only: or_push_add)
  also have "\<dots> = word_rcat [a, b, c, d]"
    by (simp add: word_rcat_def push_bit_eq_mult of_int_add of_int_mult algebra_simps)
  finally show ?thesis .
qed

lemma take4_drop:
  "i + 3 < length xs \<Longrightarrow> take 4 (drop i xs) = [xs ! i, xs ! (i + 1), xs ! (i + 2), xs ! (i + 3)]"
  by (rule nth_equalityI) (auto simp: less_Suc_eq numeral_eq_Suc)

lemma sha_load_eq:
  assumes "length block = 64"
  shows "sha_load block = map (fips_W block) [0..<16]"
proof (unfold sha_load_def, rule map_cong [OF refl])
  fix t assume "t \<in> set [0..<16 :: nat]"
  then have t: "t < 16" by simp
  then have "take 4 (drop (4 * t) block) =
      [block ! (t * 4), block ! (t * 4 + 1), block ! (t * 4 + 2), block ! (t * 4 + 3)]"
    using take4_drop [of "4 * t" block] assms by (simp add: mult.commute)
  then show "push_bit 24 (ucast (block ! (t * 4))) OR push_bit 16 (ucast (block ! (t * 4 + 1))) OR
      push_bit 8 (ucast (block ! (t * 4 + 2))) OR ucast (block ! (t * 4 + 3)) = fips_W block t"
    using t by (simp add: fips_W.simps [of block t] be_word_eq)
qed

lemma sha_extend_eq:
  assumes "16 \<le> t"
  shows "sha_extend (map (fips_W block) [0..<t]) t = map (fips_W block) [0..<Suc t]"
proof -
  let ?w = "map (fips_W block) [0..<t]"
  have w: "?w ! (t - k) = fips_W block (t - k)" if "0 < k" "k \<le> 16" for k
    using that assms by simp
  have "fips_W block t = ?w ! (t - 16) + sigma0 (?w ! (t - 15)) + ?w ! (t - 7) + sigma1 (?w ! (t - 2))"
    using assms by (subst fips_W.simps) (simp add: w ac_simps)
  then show ?thesis
    by (simp add: sha_extend_def Let_def sigma0_def sigma1_def etb_rotr_eq)
qed

lemma sha_schedule_eq:
  assumes "length block = 64"
  shows "sha_schedule block = map (fips_W block) [0..<64]"
proof -
  have "foldl sha_extend (sha_load block) [16..<n] = map (fips_W block) [0..<n]" if "16 \<le> n" for n
    using that
  proof (induction n rule: dec_induct)
    case base
    show ?case by (simp add: sha_load_eq [OF assms])
  next
    case (step n)
    then have "[16..<Suc n] = [16..<n] @ [n]" by simp
    then show ?case using step by (simp only: foldl_append foldl.simps sha_extend_eq)
  qed
  from this [of 64] show ?thesis by (simp add: sha_schedule_def)
qed

lemma sha_round_eq:
  assumes "length block = 64" and "t < 64"
  shows "sha_round (sha_schedule block) r t = fips_step block r t"
proof -
  obtain a b c d e f g h where r: "r = (a, b, c, d, e, f, g, h)"
    by (metis surj_pair)
  have "sha_schedule block ! t = fips_W block t"
    using assms by (simp add: sha_schedule_eq)
  then show ?thesis
    unfolding r by (simp add: Let_def Ch_def Maj_def Sigma0_def Sigma1_def etb_rotr_eq ac_simps)
qed

lemma sha_compress_eq:
  assumes "length block = 64"
  shows "sha_compress H block = fips_compress H block"
proof -
  have "foldl (sha_round (sha_schedule block)) r [0..<64] = foldl (fips_step block) r [0..<64]" for r
    by (rule foldl_cong) (simp_all add: sha_round_eq [OF assms])
  then show ?thesis by (simp add: sha_compress_def fips_compress_def)
qed

subsection \<open>The streaming context\<close>

text \<open>
  The state of a context that has absorbed \<open>msg\<close>: the full blocks are compressed, the rest is
  in the buffer, and the bit count counts the compressed blocks.
\<close>

definition sha_absorbed :: "etb_sha256_ctx \<Rightarrow> byte list \<Rightarrow> bool" where
  "sha_absorbed ctx msg \<longleftrightarrow>
     (let n = 64 * (length msg div 64)
      in sx_state ctx = foldl fips_compress sha256_iv (fips_blocks (take n msg))
         \<and> sx_buffer ctx = drop n msg \<and> sx_bit_count ctx = of_nat (8 * n))"

lemma sha_absorbed_init: "sha_absorbed etb_sha256_init_ctx []"
  by (simp add: sha_absorbed_def etb_sha256_init_ctx_def fips_blocks.simps)

lemma sha_absorbed_buffer: "sha_absorbed ctx msg \<Longrightarrow> length (sx_buffer ctx) = length msg mod 64"
  by (simp add: sha_absorbed_def Let_def minus_mult_div_eq_mod)

lemma fips_blocks_append:
  "length xs = 64 * k \<Longrightarrow> fips_blocks (xs @ ys) = fips_blocks xs @ fips_blocks ys"
proof (induction k arbitrary: xs)
  case 0
  then show ?case by (simp add: fips_blocks.simps [of "[]"])
next
  case (Suc k)
  then have "64 \<le> length xs" "length (drop 64 xs) = 64 * k" by auto
  then show ?case using Suc.IH [of "drop 64 xs"]
    by (simp add: fips_blocks.simps [of xs] fips_blocks.simps [of "xs @ ys"])
qed

lemma fips_blocks_single: "length bs = 64 \<Longrightarrow> fips_blocks bs = [bs]"
  by (simp add: fips_blocks.simps [of bs] fips_blocks.simps [of "[]"])

lemma fips_blocks_short: "length bs < 64 \<Longrightarrow> fips_blocks bs = []"
  by (simp add: fips_blocks.simps)

lemma sha_absorbed_step:
  assumes ok: "sha_absorbed ctx msg"
  shows "sha_absorbed (sha_update_step ctx data)
           (msg @ take (min (64 - length (sx_buffer ctx)) (length data)) data)"
proof -
  define q r where "q = length msg div 64" and "r = length msg mod 64"
  have len: "length msg = 64 * q + r" "r < 64" by (simp_all add: q_def r_def)
  define d where "d = take (min (64 - r) (length data)) data"
  have buf1: "sx_buffer ctx = drop (64 * q) msg"
    and st: "sx_state ctx = foldl fips_compress sha256_iv (fips_blocks (take (64 * q) msg))"
    and cnt: "sx_bit_count ctx = of_nat (8 * (64 * q))"
    using ok by (simp_all only: sha_absorbed_def Let_def q_def)
  have buf2: "length (sx_buffer ctx) = r"
    using sha_absorbed_buffer [OF ok] by (simp only: r_def)
  have ld: "length d \<le> 64 - r" by (simp add: d_def)
  have step: "sha_update_step ctx data =
      (let ctx1 = ctx\<lparr>sx_buffer := drop (64 * q) msg @ d\<rparr>
       in if r + length d = 64
          then (etb_sha256_transform ctx1 (sx_buffer ctx1))
                 \<lparr>sx_bit_count := sx_bit_count ctx + 512, sx_buffer := []\<rparr>
          else ctx1)"
    using buf2 by (simp add: sha_update_step_def Let_def buf1 d_def)
  have goal: "sha_absorbed (sha_update_step ctx data) (msg @ d)"
  proof (cases "r + length d = 64")
    case True
    then have full: "length (msg @ d) = 64 * Suc q" using len by simp
    then have n: "64 * (length (msg @ d) div 64) = length (msg @ d)" by simp
    have bl: "length (drop (64 * q) msg @ d) = 64" using True len by simp
    have "fips_blocks (take (64 * q) msg @ (drop (64 * q) msg @ d))
        = fips_blocks (take (64 * q) msg) @ [drop (64 * q) msg @ d]"
      by (subst fips_blocks_append [of _ q]) (use len bl in \<open>auto simp: fips_blocks_single\<close>)
    then have "fips_blocks (msg @ d) = fips_blocks (take (64 * q) msg) @ [drop (64 * q) msg @ d]"
      by (simp only: append_assoc [symmetric] append_take_drop_id)
    moreover have "(of_nat (8 * (64 * Suc q)) :: u64) = of_nat (8 * (64 * q)) + 512" by simp
    ultimately show ?thesis
      unfolding sha_absorbed_def Let_def n step
      using True sha_compress_eq [OF bl]
      by (simp only: if_True full take_all drop_all order_refl refl simp_thms
          etb_sha256_transform_def foldl_append foldl.simps cnt) (simp add: st)
  next
    case False
    then have "r + length d < 64" using ld len by simp
    then have n: "length (msg @ d) div 64 = q" using len by simp
    have pre: "take (64 * q) (msg @ d) = take (64 * q) msg"
      "drop (64 * q) (msg @ d) = drop (64 * q) msg @ d"
      using len by simp_all
    show ?thesis
      unfolding sha_absorbed_def Let_def n step pre using False by (simp add: st cnt)
  qed
  then show ?thesis by (simp only: buf2 d_def)
qed

lemma sha_absorbed_update:
  "sha_absorbed ctx msg \<Longrightarrow> sha_absorbed (etb_sha256_update ctx data) (msg @ data)"
proof (induction ctx data arbitrary: msg rule: etb_sha256_update.induct)
  case (1 ctx data)
  have small: "length (sx_buffer ctx) < 64"
    using sha_absorbed_buffer [OF "1.prems"] by simp
  show ?case
  proof (cases "data = []")
    case True
    then show ?thesis using "1.prems" by (simp add: etb_sha256_update.simps)
  next
    case False
    let ?n = "min (64 - length (sx_buffer ctx)) (length data)"
    have "sha_absorbed (etb_sha256_update (sha_update_step ctx data) (drop ?n data))
            ((msg @ take ?n data) @ drop ?n data)"
      using False small by (intro "1.IH" sha_absorbed_step "1.prems") auto
    then show ?thesis using False small
      by (simp only: etb_sha256_update.simps [of ctx data] append_assoc append_take_drop_id) simp
  qed
qed

subsection \<open>The final step\<close>

lemma length_be_bytes64 [simp]: "length (be_bytes64 v) = 8"
  by (simp add: be_bytes64_def)

lemma length_be_bytes32 [simp]: "length (be_bytes32 v) = 4"
  by (simp add: be_bytes32_def)

lemma fips_blocks_pad:
  assumes "length msg = 64 * q + r" and "r < 64"
  defines "tail \<equiv> drop (64 * q) msg"
  shows "fips_blocks (fips_pad msg) = fips_blocks (take (64 * q) msg) @
     (if r < 56
      then [tail @ [0x80] @ replicate (55 - r) 0 @ be_bytes64 (of_nat (8 * length msg))]
      else [tail @ [0x80] @ replicate (63 - r) 0,
            replicate 56 0 @ be_bytes64 (of_nat (8 * length msg))])"
proof -
  have tail: "length tail = r" using assms by (simp add: tail_def)
  have split: "fips_pad msg = take (64 * q) msg @ (tail @ [0x80] @ replicate ((119 - r) mod 64) 0
      @ be_bytes64 (of_nat (8 * length msg)))"
    using assms by (simp add: fips_pad_def tail_def flip: append_assoc)
  have front: "fips_blocks (fips_pad msg) = fips_blocks (take (64 * q) msg) @
      fips_blocks (tail @ [0x80] @ replicate ((119 - r) mod 64) 0
        @ be_bytes64 (of_nat (8 * length msg)))"
    unfolding split by (rule fips_blocks_append [of _ q]) (use assms in simp)
  show ?thesis
  proof (cases "r < 56")
    case True
    then have "(119 - r) mod 64 = 55 - r" by (simp add: mod_if)
    then show ?thesis using True tail unfolding front by (simp add: fips_blocks_single)
  next
    case False
    then have z: "(119 - r) mod 64 = (63 - r) + 56" using assms(2) by (simp add: mod_if)
    have "fips_blocks ((tail @ [0x80] @ replicate (63 - r) 0) @
            (replicate 56 0 @ be_bytes64 (of_nat (8 * length msg))))
        = [tail @ [0x80] @ replicate (63 - r) 0]
            @ [replicate 56 0 @ be_bytes64 (of_nat (8 * length msg))]"
      by (subst fips_blocks_append [of _ 1]) (use tail assms(2) in \<open>simp_all add: fips_blocks_single\<close>)
    then show ?thesis using False unfolding front z replicate_add by simp
  qed
qed

lemma sha_final_eq:
  assumes ok: "sha_absorbed ctx msg"
  shows "etb_sha256_final ctx = fips_sha256 msg"
proof -
  define q r where "q = length msg div 64" and "r = length msg mod 64"
  have len: "length msg = 64 * q + r" "r < 64" by (simp_all add: q_def r_def)
  have buf: "sx_buffer ctx = drop (64 * q) msg"
    and st: "sx_state ctx = foldl fips_compress sha256_iv (fips_blocks (take (64 * q) msg))"
    and cnt: "sx_bit_count ctx = of_nat (8 * (64 * q))"
    using ok by (simp_all only: sha_absorbed_def Let_def q_def)
  have lb: "length (drop (64 * q) msg) = r" using len by simp
  have bits: "sx_bit_count ctx + of_nat r * 8 = of_nat (8 * length msg)"
    by (simp add: cnt len algebra_simps)
  show ?thesis
  proof (cases "r < 56")
    case True
    then have "\<not> 56 < Suc r" "56 - Suc r = 55 - r" by simp_all
    then show ?thesis using True lb
      unfolding fips_sha256_def fips_blocks_pad [OF len] etb_sha256_final_def Let_def
      by (simp add: buf bits etb_sha256_transform_def sha_compress_eq st)
  next
    case False
    then have "56 < Suc r" "64 - Suc r = 63 - r" using len by simp_all
    then show ?thesis using False lb len(2)
      unfolding fips_sha256_def fips_blocks_pad [OF len] etb_sha256_final_def Let_def
      by (simp add: buf bits etb_sha256_transform_def sha_compress_eq st)
  qed
qed

lemma sha_update_buffer:
  "sha_absorbed ctx msg \<Longrightarrow> length (sx_buffer (etb_sha256_update ctx data)) < 64"
  using sha_absorbed_buffer [OF sha_absorbed_update] by simp


text \<open>
  Feeding the data in two pieces is the same as feeding it at once: the digest depends on
  the bytes, not on how the calls split them.
\<close>

theorem etb_sha256_update_split:
  "etb_sha256_final (etb_sha256_update (etb_sha256_update etb_sha256_init_ctx xs) ys)
     = etb_sha256 (xs @ ys)"
  using sha_final_eq [OF sha_absorbed_update [OF sha_absorbed_update [OF sha_absorbed_init]]]
    sha_final_eq [OF sha_absorbed_update [OF sha_absorbed_init]]
  by (simp add: etb_sha256_def)

section \<open>The digest text\<close>

text \<open>
  What the clients of the hash rely on: the text fills a 65-byte buffer exactly and consists of
  lower-case hexadecimal digits. The trace and the certificate are developed against this
  contract.
\<close>

locale hex_digest =
  fixes hash :: "byte list \<Rightarrow> string"
  assumes length_hash: "length (hash d) = 64"
    and hash_chars: "set (hash d) \<subseteq> set hex_lut"
begin

lemma hash_no_nul: "CHR 0x00 \<notin> set (hash d)"
  using hash_chars [of d] by (auto simp: hex_lut_def)

lemma c_str_hash: "c_str (hash d) = hash d"
  by (simp add: c_str_id hash_no_nul)

lemma hash_take: "take 64 (hash d) = hash d"
  by (simp add: length_hash)

lemma hash_not_Nil: "hash d \<noteq> []"
  using length_hash [of d] by auto

end

lemma length_sha_compress [simp]: "length (sha_compress H block) = 8"
  by (simp add: sha_compress_def split: prod.splits)

lemma length_etb_sha256 [simp]: "length (etb_sha256 data) = 32"
  by (simp add: etb_sha256_def etb_sha256_final_def Let_def etb_sha256_transform_def
      length_concat comp_def sum_list_triv)

lemma length_etb_sha256_hex: "length (etb_sha256_hex data) = 64"
  by (simp add: etb_sha256_hex_def length_concat comp_def sum_list_triv)

lemma hex_lut_nth: "i < 16 \<Longrightarrow> hex_lut ! i \<in> set hex_lut"
  by (rule nth_mem) (simp add: hex_lut_def)

lemma unat_nibbles: "unat (drop_bit 4 (b :: byte)) < 16" "unat (b AND 0x0f) < 16"
proof -
  have "unat b < 256" using unsigned_less [of b, where 'a = nat] by simp
  then show "unat (drop_bit 4 b) < 16" by (simp add: drop_bit_eq_div unat_div less_mult_imp_div_less)
  have "b AND 0x0f \<le> 0x0f" by (rule word_and_le1)
  then show "unat (b AND 0x0f) < 16" by (simp add: word_le_nat_alt)
qed

interpretation sha: hex_digest etb_sha256_hex
proof
  show "length (etb_sha256_hex d) = 64" for d by (rule length_etb_sha256_hex)
  show "set (etb_sha256_hex d) \<subseteq> set hex_lut" for d
    by (auto simp: etb_sha256_hex_def intro: hex_lut_nth unat_nibbles)
qed

end
