(* ===== verification/Trace.thy ===== *)
theory Trace
  imports Canon Sha256
begin

text \<open>
  The derivation trace: \<open>include/etb/trace.h\<close> and \<open>src/engine/trace.c\<close>. A trace is the list of
  its nodes; the identifier of a node is its index.

  \<open>etb_trace_digest_node\<close> prints the node into a buffer of fixed capacity with a running total of
  the lengths \<open>snprintf\<close> reports. \<open>digest_print\<close> keeps both: the C string in the buffer and the
  total, which goes past the capacity when a print is cut; the next print then starts outside
  the buffer.
\<close>

section \<open>Data\<close>

datatype etb_trace_step_kind =
    ETB_TRACE_FACT | ETB_TRACE_RULE | ETB_TRACE_CAPABILITY | ETB_TRACE_DELEGATION

fun trace_kind_code :: "etb_trace_step_kind \<Rightarrow> nat" where
  "trace_kind_code ETB_TRACE_FACT = 0"
| "trace_kind_code ETB_TRACE_RULE = 1"
| "trace_kind_code ETB_TRACE_CAPABILITY = 2"
| "trace_kind_code ETB_TRACE_DELEGATION = 3"

record etb_trace_node =
  n_id :: nat
  n_kind :: etb_trace_step_kind
  n_rule_id :: nat
  n_fact :: etb_atom
  n_premises :: "nat list"
  n_evidence_digest :: "string option"
  n_digest_hex :: string

type_synonym etb_trace = "etb_trace_node list"

definition etb_trace_kind_name :: "etb_trace_step_kind \<Rightarrow> string" where
  "etb_trace_kind_name kind =
     (case kind of
        ETB_TRACE_FACT \<Rightarrow> ''fact''
      | ETB_TRACE_RULE \<Rightarrow> ''rule''
      | ETB_TRACE_CAPABILITY \<Rightarrow> ''capability''
      | ETB_TRACE_DELEGATION \<Rightarrow> ''delegation'')"

section \<open>The digest of a node\<close>

text \<open>
  \<open>size += snprintf(buffer + size, capacity - size, ...)\<close>: outside the buffer once \<open>size\<close>
  exceeds \<open>capacity\<close> (the remaining size has then wrapped to a huge number), no output when they
  are equal, otherwise the text cut to leave room for the NUL.
\<close>

definition digest_print :: "nat \<Rightarrow> string \<Rightarrow> string \<times> nat \<Rightarrow> (string \<times> nat) res" where
  "digest_print capacity txt = (\<lambda>(buffer, used).
     if used > capacity then Inl Out_of_bounds
     else Inr (if used < capacity then take (capacity - 1) (buffer @ txt) else buffer,
               used + length txt))"

definition digest_capacity :: "string \<Rightarrow> nat" where
  "digest_capacity atom_text = 128 + length atom_text"

definition digest_header :: "etb_trace_node \<Rightarrow> string \<Rightarrow> string" where
  "digest_header node atom_text =
     dec (n_id node) @ ''|'' @ dec (trace_kind_code (n_kind node)) @ ''|'' @ dec (n_rule_id node) @
     ''|'' @ atom_text @ ''|''"

definition digest_premise :: "nat \<Rightarrow> string" where
  "digest_premise p = dec p @ '',''"

definition digest_buffer :: "etb_trace_node \<Rightarrow> string \<Rightarrow> string res" where
  "digest_buffer node atom_text =
     (let capacity = digest_capacity atom_text in
      bind_res (digest_print capacity (digest_header node atom_text) ('''', 0)) (\<lambda>st.
      bind_res (fold_res (\<lambda>p. digest_print capacity (digest_premise p)) (n_premises node) st) (\<lambda>st.
      bind_res (case n_evidence_digest node of
                  None \<Rightarrow> Inr st
                | Some digest \<Rightarrow> digest_print capacity (''|'' @ digest) st) (\<lambda>st.
        Inr (fst st)))))"

definition etb_trace_digest_node :: "etb_trace_node \<Rightarrow> etb_trace_node res" where
  "etb_trace_digest_node node =
     bind_res (etb_atom_canonical_text (n_fact node)) (\<lambda>atom_text.
     bind_res (digest_buffer node atom_text) (\<lambda>buffer.
       Inr (node\<lparr>n_digest_hex := etb_sha256_hex (bytes_of_string buffer)\<rparr>)))"

text \<open>The appended node's own identifier and digest are ignored; the count is the new identifier.\<close>

definition etb_trace_append :: "etb_trace \<Rightarrow> etb_trace_node \<Rightarrow> (nat \<times> etb_trace) res" where
  "etb_trace_append trace node =
     bind_res (etb_trace_digest_node
       \<lparr>n_id = length trace, n_kind = n_kind node, n_rule_id = n_rule_id node,
        n_fact = etb_atom_clone (n_fact node), n_premises = n_premises node,
        n_evidence_digest = n_evidence_digest node, n_digest_hex = ''''\<rparr>) (\<lambda>target.
       Inr (length trace, trace @ [target]))"

section \<open>Rendering\<close>

definition render_premises :: "nat list \<Rightarrow> string" where
  "render_premises ps =
     concat (map (\<lambda>(i, p). take 31 ((if i = 0 then '''' else '','') @ ''#'' @ dec p))
       (zip [0..<length ps] ps))"

definition render_node :: "etb_trace_node \<Rightarrow> string res" where
  "render_node node =
     bind_res (etb_atom_canonical_text (n_fact node)) (\<lambda>fact_text.
       Inr (take 511 (''['' @ dec (n_id node) @ ''] '' @ etb_trace_kind_name (n_kind node) @ '' r'' @
              dec (n_rule_id node) @ '' '' @ fact_text) @
            (if n_premises node = [] then '''' else '' <- '' @ render_premises (n_premises node)) @
            (case n_evidence_digest node of
               None \<Rightarrow> ''''
             | Some digest \<Rightarrow> if digest = '''' then '''' else '' evidence='' @ digest) @
            [CHR 0x0A]))"

definition etb_trace_render :: "etb_trace \<Rightarrow> string res" where
  "etb_trace_render trace =
     fold_res (\<lambda>node buffer. bind_res (render_node node) (\<lambda>line. Inr (buffer @ line))) trace ''''"

section \<open>Room for the digest\<close>

lemma digest_print_eq:
  "digest_print capacity txt (buffer, used) =
     (if used > capacity then Inl Out_of_bounds
      else Inr (if used < capacity then take (capacity - 1) (buffer @ txt) else buffer,
                used + length txt))"
  by (simp add: digest_print_def)

lemma digest_premises_total:
  "fold_res (\<lambda>p. digest_print capacity (digest_premise p)) ps (buffer, used) = Inr (buffer', used') \<Longrightarrow>
     used' = used + sum_list (map (length \<circ> digest_premise) ps)"
proof (induction ps arbitrary: buffer used)
  case Nil
  then show ?case by simp
next
  case (Cons p ps)
  then obtain b where
    "fold_res (\<lambda>p. digest_print capacity (digest_premise p)) ps (b, used + length (digest_premise p))
       = Inr (buffer', used')"
    by (auto simp: digest_print_eq split: if_splits)
  from Cons.IH [OF this] show ?case by simp
qed

lemma digest_premises_fit:
  "used + sum_list (map (length \<circ> digest_premise) ps) \<le> capacity \<Longrightarrow>
     \<exists>st. fold_res (\<lambda>p. digest_print capacity (digest_premise p)) ps (buffer, used) = Inr st"
  by (induction ps arbitrary: buffer used) (auto simp: digest_print_eq)

lemma length_kind_code: "length (dec (trace_kind_code kind)) = 1"
  by (cases kind) (simp_all add: dec.simps)

lemma length_digest_header:
  "n_id node < 10 ^ k \<Longrightarrow> 0 < k \<Longrightarrow> n_rule_id node < 10 ^ 20 \<Longrightarrow>
     length (digest_header node atom_text) \<le> k + 25 + length atom_text"
  using length_dec_le [of "n_id node" k] length_dec_le [of "n_rule_id node" 20]
  by (simp add: digest_header_def length_kind_code)

lemma length_digest_header_ge: "6 + length atom_text < length (digest_header node atom_text)"
proof -
  have "0 < length (dec n)" for n by simp
  then have "1 \<le> length (dec (n_id node))" "1 \<le> length (dec (n_rule_id node))"
    "1 \<le> length (dec (trace_kind_code (n_kind node)))" by (simp_all add: Suc_le_eq)
  then show ?thesis by (simp add: digest_header_def)
qed

lemma digest_premise_ge: "2 \<le> length (digest_premise p)"
  using dec_not_Nil [of p] by (cases "dec p") (simp_all add: digest_premise_def)

lemma digest_premise_le: "p < 10 ^ k \<Longrightarrow> 0 < k \<Longrightarrow> length (digest_premise p) \<le> k + 1"
  using length_dec_le [of p k] by (simp add: digest_premise_def)

lemma sum_premises_ge: "2 * length ps \<le> sum_list (map (length \<circ> digest_premise) ps)"
proof (induction ps)
  case Nil
  then show ?case by simp
next
  case (Cons p ps)
  then show ?case using digest_premise_ge [of p] by simp
qed

lemma sum_premises_le:
  "\<forall>p \<in> set ps. p < 10 ^ k \<Longrightarrow> 0 < k \<Longrightarrow>
     sum_list (map (length \<circ> digest_premise) ps) \<le> (k + 1) * length ps"
proof (induction ps)
  case Nil
  then show ?case by simp
next
  case (Cons p ps)
  then show ?case using digest_premise_le [of p k] by simp
qed

lemma digest_print_Inl: "digest_print c txt st = Inl e \<Longrightarrow> e = Out_of_bounds"
  by (cases st) (simp add: digest_print_eq split: if_splits)

lemma digest_premises_Inl:
  "fold_res (\<lambda>p. digest_print c (digest_premise p)) ps st = Inl e \<Longrightarrow> e = Out_of_bounds"
  by (induction ps arbitrary: st) (auto simp: bind_res_eq_Inl dest: digest_print_Inl)

lemma evidence_print_safe:
  "used \<le> capacity \<Longrightarrow> \<exists>st. (case e of None \<Rightarrow> Inr (buffer, used)
     | Some digest \<Rightarrow> digest_print capacity (f digest) (buffer, used)) = Inr st"
  by (simp add: digest_print_eq split: option.split)

lemma digest_node_fits:
  assumes "wf_atom (n_fact node)" and "n_rule_id node < 10 ^ 20" and "0 < k"
    and "n_id node < 10 ^ k" and "\<forall>p \<in> set (n_premises node). p < 10 ^ k"
    and "(k + 1) * length (n_premises node) + k \<le> 103"
  shows "\<exists>digest. etb_trace_digest_node node = Inr (node\<lparr>n_digest_hex := digest\<rparr>) \<and> length digest = 64"
proof -
  obtain t where t: "etb_atom_canonical_text (n_fact node) = Inr t"
    using etb_atom_canonical_text_wf assms(1) by blast
  let ?cap = "digest_capacity t" and ?h = "digest_header node t"
  have cap: "length ?h + sum_list (map (length \<circ> digest_premise) (n_premises node)) \<le> ?cap"
    using length_digest_header [OF assms(4,3,2), of t] sum_premises_le [OF assms(5,3)] assms(6)
    by (simp add: digest_capacity_def)
  obtain b1 where p1: "digest_print ?cap ?h ('''', 0) = Inr (b1, length ?h)"
    by (simp add: digest_print_eq)
  obtain b2 u2 where p2: "fold_res (\<lambda>p. digest_print ?cap (digest_premise p)) (n_premises node)
      (b1, length ?h) = Inr (b2, u2)"
    using digest_premises_fit [OF cap] by (metis surj_pair)
  have "u2 \<le> ?cap" using digest_premises_total [OF p2] cap by simp
  then obtain st where "(case n_evidence_digest node of None \<Rightarrow> Inr (b2, u2)
      | Some digest \<Rightarrow> digest_print ?cap (''|'' @ digest) (b2, u2)) = Inr st"
    using evidence_print_safe [where f = "\<lambda>digest. ''|'' @ digest"] by blast
  then have "digest_buffer node t = Inr (fst st)"
    unfolding digest_buffer_def Let_def p1 bind_res_Inr p2 by simp
  then show ?thesis by (auto simp: etb_trace_digest_node_def t sha.length_hash)
qed

text \<open>
  The room of the digest buffer. A rule identifier is a 64-bit number, so has at most 20
  digits. If node identifiers have at most \<open>k\<close> digits, the digest of a well-formed fact is
  computed without leaving the buffer for every node whose premises satisfy
  \<open>(k + 1) * premises + k \<le> 103\<close>: three premises whatever the identifiers, 13 in traces of less
  than a million nodes.
\<close>

theorem digest_fits:
  assumes "wf_atom (n_fact node)" and "n_rule_id node < 10 ^ 20" and "0 < k"
    and "n_id node < 10 ^ k" and "\<forall>p \<in> set (n_premises node). p < 10 ^ k"
    and "(k + 1) * length (n_premises node) + k \<le> 103"
  shows "\<exists>digest. etb_trace_digest_node node = Inr (node\<lparr>n_digest_hex := digest\<rparr>) \<and> length digest = 64"
  using assms by (rule digest_node_fits)

text \<open>
  The bound of the buffer is not checked against the number of premises: a node with 63 or
  more premises always makes the digest print outside its buffer, whatever the fact.
\<close>

theorem digest_many_premises_overflow:
  assumes "etb_atom_canonical_text (n_fact node) = Inr t" and "63 \<le> length (n_premises node)"
  shows "etb_trace_digest_node node = Inl Out_of_bounds"
proof -
  let ?cap = "digest_capacity t" and ?h = "digest_header node t"
  let ?ps = "take 62 (n_premises node)" and ?qs = "drop 62 (n_premises node)"
  let ?F = "fold_res (\<lambda>p. digest_print ?cap (digest_premise p))"
  obtain b1 where p1: "digest_print ?cap ?h ('''', 0) = Inr (b1, length ?h)"
    by (simp add: digest_print_eq)
  obtain q qs where q: "?qs = q # qs" using assms(2) by (cases ?qs) auto
  have "?F (n_premises node) (b1, length ?h) = bind_res (?F ?ps (b1, length ?h)) (?F ?qs)"
    by (simp flip: fold_res_append)
  also have "\<dots> = Inl Out_of_bounds"
  proof (cases "?F ?ps (b1, length ?h)")
    case (Inl e)
    then show ?thesis using digest_premises_Inl [OF Inl] by simp
  next
    case (Inr st)
    then obtain b2 u2 where st: "?F ?ps (b1, length ?h) = Inr (b2, u2)" by (cases st) auto
    have "2 * 62 \<le> sum_list (map (length \<circ> digest_premise) ?ps)"
      using sum_premises_ge [of ?ps] assms(2) by simp
    then have "?cap < u2"
      using digest_premises_total [OF st] length_digest_header_ge [of t node]
      by (simp add: digest_capacity_def)
    then show ?thesis by (simp add: st q digest_print_eq)
  qed
  finally show ?thesis
    unfolding etb_trace_digest_node_def digest_buffer_def Let_def assms(1) p1 bind_res_Inr by simp
qed

section \<open>Appending\<close>

text \<open>
  A good trace: every node is stored at its identifier, its digest is the one its other fields
  determine, and its premises are nodes before it.
\<close>

definition node_digest_ok :: "etb_trace_node \<Rightarrow> bool" where
  "node_digest_ok node \<longleftrightarrow> etb_trace_digest_node node = Inr node"

definition trace_ok :: "etb_trace \<Rightarrow> bool" where
  "trace_ok trace \<longleftrightarrow>
     (\<forall>i < length trace. n_id (trace ! i) = i \<and> node_digest_ok (trace ! i) \<and>
        (\<forall>p \<in> set (n_premises (trace ! i)). p < i))"

lemma trace_ok_Nil [simp]: "trace_ok []"
  by (simp add: trace_ok_def)

lemma digest_node_idem:
  "etb_trace_digest_node node = Inr node' \<Longrightarrow> node_digest_ok node'"
  by (auto simp: node_digest_ok_def etb_trace_digest_node_def digest_buffer_def digest_header_def
      Let_def)

lemma digest_node_fields:
  "etb_trace_digest_node node = Inr node' \<Longrightarrow> node' = node\<lparr>n_digest_hex := n_digest_hex node'\<rparr>"
  by (auto simp: etb_trace_digest_node_def)

lemma trace_append_eq:
  assumes "etb_trace_append trace node = Inr (i, trace')"
  shows "i = length trace \<and>
    (\<exists>digest. trace' = trace @ [node\<lparr>n_id := length trace, n_digest_hex := digest\<rparr>] \<and>
       node_digest_ok (last trace'))"
proof -
  let ?n = "\<lparr>n_id = length trace, n_kind = n_kind node, n_rule_id = n_rule_id node,
        n_fact = etb_atom_clone (n_fact node), n_premises = n_premises node,
        n_evidence_digest = n_evidence_digest node, n_digest_hex = ''''\<rparr>"
  obtain target where t: "etb_trace_digest_node ?n = Inr target"
    "i = length trace" "trace' = trace @ [target]"
    using assms by (auto simp: etb_trace_append_def)
  have "target = ?n\<lparr>n_digest_hex := n_digest_hex target\<rparr>" by (rule digest_node_fields [OF t(1)])
  then have "target = node\<lparr>n_id := length trace, n_digest_hex := n_digest_hex target\<rparr>"
    by (cases node; cases target) simp
  then show ?thesis using t digest_node_idem [OF t(1)] by auto
qed

lemma trace_append_ok:
  assumes "trace_ok trace" and "etb_trace_append trace node = Inr (i, trace')"
    and "\<forall>p \<in> set (n_premises node). p < length trace"
  shows "i = length trace \<and> length trace' = Suc (length trace) \<and> take (length trace) trace' = trace \<and>
    n_fact (trace' ! i) = n_fact node \<and> n_kind (trace' ! i) = n_kind node \<and>
    n_premises (trace' ! i) = n_premises node \<and> trace_ok trace'"
proof -
  obtain digest where i: "i = length trace"
    and t: "trace' = trace @ [node\<lparr>n_id := length trace, n_digest_hex := digest\<rparr>]"
    and d: "node_digest_ok (last trace')"
    using trace_append_eq [OF assms(2)] by blast
  have "trace_ok trace'"
    unfolding trace_ok_def
  proof (intro allI impI)
    fix j assume "j < length trace'"
    then consider "j < length trace" | "j = length trace" using t by fastforce
    then show "n_id (trace' ! j) = j \<and> node_digest_ok (trace' ! j) \<and>
        (\<forall>p \<in> set (n_premises (trace' ! j)). p < j)"
    proof cases
      case 1
      then show ?thesis using assms(1) t by (simp add: trace_ok_def nth_append)
    next
      case 2
      then show ?thesis using assms(3) t d by simp
    qed
  qed
  then show ?thesis using i t by simp
qed

text \<open>
  C28. Appending returns the index of the new node, keeps the earlier nodes, stores the fields of
  the node given, and keeps the trace good when the premises are nodes of the trace; so no
  derivation is circular and every digest matches its node.
\<close>

theorem etb_trace_append_ok:
  assumes "trace_ok trace" and "etb_trace_append trace node = Inr (i, trace')"
    and "\<forall>p \<in> set (n_premises node). p < length trace"
  shows "i = length trace \<and> length trace' = Suc (length trace) \<and> take (length trace) trace' = trace \<and>
    n_fact (trace' ! i) = n_fact node \<and> n_kind (trace' ! i) = n_kind node \<and>
    n_premises (trace' ! i) = n_premises node \<and> trace_ok trace'"
  using assms by (rule trace_append_ok)

text \<open>Appending succeeds whenever the digest fits.\<close>

lemma etb_trace_append_total:
  assumes "wf_atom (n_fact node)" and "n_rule_id node < 10 ^ 20" and "0 < k"
    and "length trace < 10 ^ k" and "\<forall>p \<in> set (n_premises node). p < 10 ^ k"
    and "(k + 1) * length (n_premises node) + k \<le> 103"
  shows "\<exists>trace'. etb_trace_append trace node = Inr (length trace, trace')"
proof -
  let ?n = "\<lparr>n_id = length trace, n_kind = n_kind node, n_rule_id = n_rule_id node,
        n_fact = etb_atom_clone (n_fact node), n_premises = n_premises node,
        n_evidence_digest = n_evidence_digest node, n_digest_hex = ''''\<rparr>"
  obtain target where "etb_trace_digest_node ?n = Inr target"
    using digest_node_fits [of ?n k] assms by auto
  then show ?thesis by (simp add: etb_trace_append_def)
qed

lemma etb_trace_append_Inl:
  "etb_trace_append trace node = Inl e \<Longrightarrow> e = Null_deref \<or> e = Out_of_bounds"
  by (auto simp: etb_trace_append_def etb_trace_digest_node_def digest_buffer_def Let_def
      bind_res_eq_Inl dest: digest_print_Inl digest_premises_Inl etb_atom_canonical_text_Inl
      split: option.splits)

text \<open>A line of the rendered trace: the text of a trace of well-formed facts always renders.\<close>

lemma etb_trace_render_total:
  "\<forall>node \<in> set trace. wf_atom (n_fact node) \<Longrightarrow> \<exists>text. etb_trace_render trace = Inr text"
proof -
  have "\<exists>text. fold_res (\<lambda>node buffer. bind_res (render_node node) (\<lambda>line. Inr (buffer @ line)))
      trace buffer = Inr text" if "\<forall>node \<in> set trace. wf_atom (n_fact node)" for buffer
    using that
  proof (induction trace arbitrary: buffer)
    case Nil
    then show ?case by simp
  next
    case (Cons node trace)
    then obtain t where "etb_atom_canonical_text (n_fact node) = Inr t"
      using etb_atom_canonical_text_wf by (meson list.set_intros(1))
    then obtain line where "render_node node = Inr line" by (simp add: render_node_def)
    then show ?case using Cons by simp
  qed
  then show "\<forall>node \<in> set trace. wf_atom (n_fact node) \<Longrightarrow> ?thesis"
    by (simp add: etb_trace_render_def)
qed

section \<open>Witnesses\<close>

definition sample_node :: "nat \<Rightarrow> etb_trace_node" where
  "sample_node n = \<lparr>n_id = 0, n_kind = ETB_TRACE_RULE, n_rule_id = 1,
     n_fact = etb_atom_init\<lparr>a_predicate := Some ''p''\<rparr>, n_premises = replicate n 0,
     n_evidence_digest = None, n_digest_hex = ''''\<rparr>"

lemma sample_node_wf: "wf_atom (n_fact (sample_node n))"
  by (simp add: sample_node_def wf_atom_def etb_atom_init_def)

lemma digest_fits_witness:
  "\<exists>digest. etb_trace_digest_node (sample_node 3) = Inr ((sample_node 3)\<lparr>n_digest_hex := digest\<rparr>) \<and>
     length digest = 64"
  by (rule digest_fits [where k = 20, OF sample_node_wf]) (simp_all add: sample_node_def)

lemma digest_many_premises_overflow_witness:
  "etb_trace_digest_node (sample_node 63) = Inl Out_of_bounds"
  by (rule digest_many_premises_overflow [of _ "''p''"])
    (simp_all add: sample_node_def etb_atom_canonical_text_def etb_atom_init_def)

lemma etb_trace_append_ok_witness:
  "\<exists>trace. etb_trace_append [] (sample_node 0) = Inr (0, trace) \<and> trace_ok trace"
proof -
  obtain trace where t: "etb_trace_append [] (sample_node 0) = Inr (0, trace)"
    using etb_trace_append_total [OF sample_node_wf, of 0 1 "[]"] by (auto simp: sample_node_def)
  moreover have "trace_ok trace"
    using etb_trace_append_ok [OF trace_ok_Nil t] by (simp add: sample_node_def)
  ultimately show ?thesis by blast
qed

end
