(* ===== verification/Cbor.thy ===== *)
theory Cbor
  imports Etb_Prelude
begin

text \<open>
  The CBOR writer and reader of \<open>src/core/cbor.c\<close>. Sizes and offsets are \<open>size_t\<close>, 64-bit
  words whose additions wrap as they do in C; every access to the input goes through
  \<open>cbor_at\<close> or \<open>cbor_memcpy\<close>, which report a read outside the buffer. The laws of the
  locale \<open>wire_codec\<close> are what the clients (adapter protocol, certificates, peer protocol) use;
  it is interpreted for every scalar encoding of the file.
\<close>

unbundle bit_operations_syntax

section \<open>Buffers and cursors\<close>

text \<open>
  A buffer is the list of the bytes written; \<open>etb_cbor_reserve\<close> only changes the capacity.
  A request for more than \<open>PTRDIFF_MAX\<close> bytes is the one allocation that is modelled to fail:
  its size comes from the wire.
\<close>

type_synonym etb_cbor_buffer = "byte list"

definition malloc_ok :: "u64 \<Rightarrow> bool" where
  "malloc_ok n \<longleftrightarrow> n < 0x8000000000000000"

lemma malloc_ok_iff: "malloc_ok n \<longleftrightarrow> unat n < 2 ^ 63"
proof -
  have "unat (0x8000000000000000 :: u64) = 2 ^ 63" by simp
  then show ?thesis by (simp only: malloc_ok_def word_less_nat_alt)
qed

record etb_cbor_cursor =
  cb_data :: "byte list"
  cb_size :: u64
  cb_offset :: u64

definition cbor_at :: "etb_cbor_cursor \<Rightarrow> byte res" where
  "cbor_at cur =
     (if unat (cb_offset cur) < length (cb_data cur)
      then Inr (cb_data cur ! unat (cb_offset cur)) else Inl Out_of_bounds)"

definition cbor_memcpy :: "etb_cbor_cursor \<Rightarrow> u64 \<Rightarrow> byte list res" where
  "cbor_memcpy cur n =
     (if unat (cb_offset cur) + unat n \<le> length (cb_data cur)
      then Inr (take (unat n) (drop (unat (cb_offset cur)) (cb_data cur)))
      else Inl Out_of_bounds)"

definition etb_cbor_cursor_init :: "byte list \<Rightarrow> etb_cbor_cursor" where
  "etb_cbor_cursor_init data =
     \<lparr>cb_data = data, cb_size = of_nat (length data), cb_offset = 0\<rparr>"

section \<open>Writing\<close>

definition etb_cbor_write_type_value :: "etb_cbor_buffer \<Rightarrow> byte \<Rightarrow> u64 \<Rightarrow> etb_cbor_buffer" where
  "etb_cbor_write_type_value buffer major value =
     (if value \<le> 23 then buffer @ [major OR ucast value]
      else if value \<le> 0xff then buffer @ [major OR 24, ucast value]
      else if value \<le> 0xffff then
        buffer @ [major OR 25, ucast (drop_bit 8 value), ucast value]
      else if value \<le> 0xffffffff then
        buffer @ [major OR 26, ucast (drop_bit 24 value), ucast (drop_bit 16 value),
                  ucast (drop_bit 8 value), ucast value]
      else
        buffer @ [major OR 27, ucast (drop_bit 56 value), ucast (drop_bit 48 value),
                  ucast (drop_bit 40 value), ucast (drop_bit 32 value), ucast (drop_bit 24 value),
                  ucast (drop_bit 16 value), ucast (drop_bit 8 value), ucast value])"

definition etb_cbor_write_uint :: "etb_cbor_buffer \<Rightarrow> u64 \<Rightarrow> etb_cbor_buffer" where
  "etb_cbor_write_uint buffer value = etb_cbor_write_type_value buffer 0x00 value"

text \<open>An \<open>int64_t\<close> is a 64-bit word read as two's complement.\<close>

definition etb_cbor_write_int :: "etb_cbor_buffer \<Rightarrow> u64 \<Rightarrow> etb_cbor_buffer" where
  "etb_cbor_write_int buffer value =
     (if 0 \<le> sint value then etb_cbor_write_uint buffer value
      else etb_cbor_write_type_value buffer 0x20 (- 1 - value))"

definition etb_cbor_write_bool :: "etb_cbor_buffer \<Rightarrow> bool \<Rightarrow> etb_cbor_buffer" where
  "etb_cbor_write_bool buffer value = buffer @ [if value then 0xf5 else 0xf4]"

definition etb_cbor_write_null :: "etb_cbor_buffer \<Rightarrow> etb_cbor_buffer" where
  "etb_cbor_write_null buffer = buffer @ [0xf6]"

definition etb_cbor_write_text :: "etb_cbor_buffer \<Rightarrow> string \<Rightarrow> etb_cbor_buffer" where
  "etb_cbor_write_text buffer value =
     etb_cbor_write_type_value buffer 0x60 (of_nat (length value)) @ bytes_of_string value"

definition etb_cbor_write_bytes :: "etb_cbor_buffer \<Rightarrow> byte list \<Rightarrow> etb_cbor_buffer" where
  "etb_cbor_write_bytes buffer value =
     etb_cbor_write_type_value buffer 0x40 (of_nat (length value)) @ value"

definition etb_cbor_write_array_header :: "etb_cbor_buffer \<Rightarrow> u64 \<Rightarrow> etb_cbor_buffer" where
  "etb_cbor_write_array_header buffer count = etb_cbor_write_type_value buffer 0x80 count"

definition etb_cbor_write_map_header :: "etb_cbor_buffer \<Rightarrow> u64 \<Rightarrow> etb_cbor_buffer" where
  "etb_cbor_write_map_header buffer count = etb_cbor_write_type_value buffer 0xa0 count"

section \<open>Reading\<close>

text \<open>
  A failing read leaves the cursor somewhere inside the item; no caller reads on after a
  failure, so a failure carries no cursor.
\<close>

primrec cbor_read_be :: "nat \<Rightarrow> u64 \<Rightarrow> etb_cbor_cursor \<Rightarrow> (u64 \<times> etb_cbor_cursor) res" where
  "cbor_read_be 0 result cur = Inr (result, cur)"
| "cbor_read_be (Suc bytes) result cur =
     bind_res (cbor_at cur) (\<lambda>b.
       cbor_read_be bytes (push_bit 8 result OR ucast b) (cur\<lparr>cb_offset := cb_offset cur + 1\<rparr>))"

definition cbor_value_bytes :: "byte \<Rightarrow> nat" where
  "cbor_value_bytes addl =
     (if addl = 24 then 1 else if addl = 25 then 2 else if addl = 26 then 4
      else if addl = 27 then 8 else 0)"

definition etb_cbor_read_type_value ::
  "etb_cbor_cursor \<Rightarrow> byte \<Rightarrow> (u64 \<times> etb_cbor_cursor) res" where
  "etb_cbor_read_type_value cur expected_major =
     (if cb_size cur \<le> cb_offset cur then Inl (Fail '''')
      else bind_res (cbor_at cur) (\<lambda>head.
        let cur1 = cur\<lparr>cb_offset := cb_offset cur + 1\<rparr>;
            major = head AND 0xe0;
            addl = head AND 0x1f
        in if major \<noteq> expected_major then Inl (Fail '''')
           else if addl \<le> 23 then Inr (ucast addl, cur1)
           else let bytes = cbor_value_bytes addl
                in if bytes = 0 \<or> cb_size cur1 < cb_offset cur1 + of_nat bytes
                   then Inl (Fail '''')
                   else cbor_read_be bytes 0 cur1))"

definition etb_cbor_read_uint :: "etb_cbor_cursor \<Rightarrow> (u64 \<times> etb_cbor_cursor) res" where
  "etb_cbor_read_uint cur = etb_cbor_read_type_value cur 0x00"

text \<open>
  The sign is taken from the head byte. \<open>-(int64_t)(raw + 1U)\<close> overflows when
  \<open>raw + 1 = 2\<^sup>6\<^sup>3\<close>.
\<close>

definition etb_cbor_read_int :: "etb_cbor_cursor \<Rightarrow> (u64 \<times> etb_cbor_cursor) res" where
  "etb_cbor_read_int cur =
     (if cb_size cur \<le> cb_offset cur then Inl (Fail '''')
      else bind_res (cbor_at cur) (\<lambda>head.
        if head AND 0xe0 = 0x00 then etb_cbor_read_uint cur
        else if head AND 0xe0 \<noteq> 0x20 then Inl (Fail '''')
        else bind_res (etb_cbor_read_type_value cur 0x20) (\<lambda>(raw, cur1).
          if raw + 1 = 0x8000000000000000 then Inl Signed_overflow
          else Inr (- (raw + 1), cur1))))"

definition etb_cbor_read_bool :: "etb_cbor_cursor \<Rightarrow> (bool \<times> etb_cbor_cursor) res" where
  "etb_cbor_read_bool cur =
     (if cb_size cur \<le> cb_offset cur then Inl (Fail '''')
      else bind_res (cbor_at cur) (\<lambda>byte.
        let cur1 = cur\<lparr>cb_offset := cb_offset cur + 1\<rparr>
        in if byte = 0xf4 then Inr (False, cur1)
           else if byte = 0xf5 then Inr (True, cur1)
           else Inl (Fail '''')))"

definition etb_cbor_read_null :: "etb_cbor_cursor \<Rightarrow> (unit \<times> etb_cbor_cursor) res" where
  "etb_cbor_read_null cur =
     (if cb_size cur \<le> cb_offset cur then Inl (Fail '''')
      else bind_res (cbor_at cur) (\<lambda>byte.
        if byte \<noteq> 0xf6 then Inl (Fail '''')
        else Inr ((), cur\<lparr>cb_offset := cb_offset cur + 1\<rparr>)))"

text \<open>
  The text is copied with its declared length and then used as a C string, which ends at its
  first NUL.
\<close>

definition etb_cbor_read_text :: "etb_cbor_cursor \<Rightarrow> (string \<times> etb_cbor_cursor) res" where
  "etb_cbor_read_text cur =
     bind_res (etb_cbor_read_type_value cur 0x60) (\<lambda>(size, cur1).
       if cb_size cur1 < cb_offset cur1 + size then Inl (Fail '''')
       else if \<not> malloc_ok (size + 1) then Inl (Fail '''')
       else bind_res (cbor_memcpy cur1 size) (\<lambda>bytes.
         Inr (c_str (string_of_bytes bytes), cur1\<lparr>cb_offset := cb_offset cur1 + size\<rparr>)))"

definition etb_cbor_read_bytes :: "etb_cbor_cursor \<Rightarrow> (byte list \<times> etb_cbor_cursor) res" where
  "etb_cbor_read_bytes cur =
     bind_res (etb_cbor_read_type_value cur 0x40) (\<lambda>(size, cur1).
       if cb_size cur1 < cb_offset cur1 + size then Inl (Fail '''')
       else if 0 < size \<and> \<not> malloc_ok size then Inl (Fail '''')
       else bind_res (if 0 < size then cbor_memcpy cur1 size else Inr []) (\<lambda>bytes.
         Inr (bytes, cur1\<lparr>cb_offset := cb_offset cur1 + size\<rparr>)))"

definition etb_cbor_read_array_header :: "etb_cbor_cursor \<Rightarrow> (u64 \<times> etb_cbor_cursor) res" where
  "etb_cbor_read_array_header cur = etb_cbor_read_type_value cur 0x80"

definition etb_cbor_read_map_header :: "etb_cbor_cursor \<Rightarrow> (u64 \<times> etb_cbor_cursor) res" where
  "etb_cbor_read_map_header cur = etb_cbor_read_type_value cur 0xa0"

section \<open>Cursors inside a message\<close>

text \<open>
  \<open>cursor_at pre rest\<close> is the cursor over \<open>pre @ rest\<close> that has consumed \<open>pre\<close>. A buffer
  in memory is shorter than \<open>2\<^sup>6\<^sup>3\<close> bytes; \<open>cursor_ok\<close> says that of a cursor's buffer, and
  that the recorded size and offset are right.
\<close>

definition cursor_at :: "byte list \<Rightarrow> byte list \<Rightarrow> etb_cbor_cursor" where
  "cursor_at pre rest =
     \<lparr>cb_data = pre @ rest, cb_size = of_nat (length (pre @ rest)),
      cb_offset = of_nat (length pre)\<rparr>"

definition fits :: "byte list \<Rightarrow> bool" where
  "fits bs \<longleftrightarrow> length bs < 2 ^ 63"

definition cursor_ok :: "etb_cbor_cursor \<Rightarrow> bool" where
  "cursor_ok cur \<longleftrightarrow>
     fits (cb_data cur) \<and> unat (cb_size cur) = length (cb_data cur)
     \<and> cb_offset cur \<le> cb_size cur"

lemma fits_append [simp]: "fits (xs @ ys) \<longleftrightarrow> length xs + length ys < 2 ^ 63"
  by (simp add: fits_def)

lemma cursor_init_eq: "etb_cbor_cursor_init data = cursor_at [] data"
  by (simp add: etb_cbor_cursor_init_def cursor_at_def)

lemma unat_of_nat_small: "n < 2 ^ 63 \<Longrightarrow> unat (of_nat n :: u64) = n"
  by (simp add: unat_of_nat)

lemma unat_cursor_at [simp]:
  assumes "length pre + length rest < 2 ^ 63"
  shows "unat (cb_size (cursor_at pre rest)) = length pre + length rest"
    and "unat (cb_offset (cursor_at pre rest)) = length pre"
proof -
  show "unat (cb_size (cursor_at pre rest)) = length pre + length rest"
    using unat_of_nat_small [OF assms] by (simp add: cursor_at_def)
  show "unat (cb_offset (cursor_at pre rest)) = length pre"
    using unat_of_nat_small [of "length pre"] assms by (simp add: cursor_at_def)
qed

lemma cb_data_cursor_at [simp]: "cb_data (cursor_at pre rest) = pre @ rest"
  by (simp add: cursor_at_def)

lemma cursor_at_ok: "fits (pre @ rest) \<Longrightarrow> cursor_ok (cursor_at pre rest)"
  by (simp add: cursor_ok_def word_le_nat_alt)

lemma cursor_ok_obtain:
  assumes "cursor_ok cur"
  obtains pre rest where "cur = cursor_at pre rest" and "fits (pre @ rest)"
proof
  let ?n = "unat (cb_offset cur)"
  have le: "?n \<le> length (cb_data cur)"
    using assms by (simp add: cursor_ok_def word_le_nat_alt)
  have sz: "of_nat (length (cb_data cur)) = cb_size cur"
    using assms by (simp add: cursor_ok_def fits_def word_unat_eq_iff unat_of_nat)
  show "cur = cursor_at (take ?n (cb_data cur)) (drop ?n (cb_data cur))"
    using le sz by (cases cur) (simp add: cursor_at_def min_absorb2 del: length_append)
  show "fits (take ?n (cb_data cur) @ drop ?n (cb_data cur))"
    using assms by (simp only: append_take_drop_id cursor_ok_def)
qed

lemma cursor_at_exhausted:
  "fits (pre @ rest) \<Longrightarrow> cb_size (cursor_at pre rest) \<le> cb_offset (cursor_at pre rest) \<longleftrightarrow> rest = []"
  by (simp add: word_le_nat_alt)

lemma cbor_at_cursor_at:
  "fits (pre @ rest) \<Longrightarrow>
     cbor_at (cursor_at pre rest) = (case rest of [] \<Rightarrow> Inl Out_of_bounds | b # _ \<Rightarrow> Inr b)"
  by (cases rest) (simp_all add: cbor_at_def fits_def)

lemma cursor_at_advance:
  "(cursor_at pre (b # rest))\<lparr>cb_offset := cb_offset (cursor_at pre (b # rest)) + 1\<rparr>
     = cursor_at (pre @ [b]) rest"
  by (simp add: cursor_at_def)

lemma cursor_at_advance_n:
  "(cursor_at pre (bs @ rest))\<lparr>cb_offset := cb_offset (cursor_at pre (bs @ rest)) + of_nat (length bs)\<rparr>
     = cursor_at (pre @ bs) rest"
  by (simp add: cursor_at_def)

lemma cbor_memcpy_cursor_at:
  assumes "fits (pre @ rest)"
  shows "cbor_memcpy (cursor_at pre rest) n =
     (if unat n \<le> length rest then Inr (take (unat n) rest) else Inl Out_of_bounds)"
  using assms by (simp add: cbor_memcpy_def)

lemma cursor_at_overrun:
  assumes "fits (pre @ rest)" and "k < 2 ^ 63"
  shows "cb_size (cursor_at pre rest) < cb_offset (cursor_at pre rest) + of_nat k
           \<longleftrightarrow> length rest < k"
proof -
  have k: "unat (of_nat k :: u64) = k" using assms(2) by (rule unat_of_nat_small)
  have "unat (cb_offset (cursor_at pre rest) + of_nat k) = length pre + k"
    using assms by (subst unat_plus_simple [THEN iffD1]) (simp_all add: no_olen_add_nat k)
  then show ?thesis using assms(1) by (simp add: word_less_nat_alt)
qed

lemmas cursor_at_simps =
  cursor_at_exhausted cbor_at_cursor_at cursor_at_advance cursor_at_advance_n
  cbor_memcpy_cursor_at cursor_at_overrun

section \<open>The codec contract\<close>

text \<open>
  A writer appends the encoding of a value to the buffer; the reader, on a cursor in front of
  that encoding, returns the value and stands behind it. \<open>ok\<close> is the set of values the
  encoding is made for.
\<close>

locale wire_codec =
  fixes wr :: "byte list \<Rightarrow> 'a \<Rightarrow> byte list"
    and rd :: "etb_cbor_cursor \<Rightarrow> ('a \<times> etb_cbor_cursor) res"
    and ok :: "'a \<Rightarrow> bool"
  assumes wr_append: "wr buf x = buf @ wr [] x"
    and rd_wr: "ok x \<Longrightarrow> fits (pre @ wr [] x @ rest) \<Longrightarrow>
      rd (cursor_at pre (wr [] x @ rest)) = Inr (x, cursor_at (pre @ wr [] x) rest)"
begin

lemma foldl_wr: "foldl wr buf xs = buf @ concat (map (wr []) xs)"
proof (induction xs arbitrary: buf)
  case Nil
  then show ?case by simp
next
  case (Cons x xs)
  then show ?case using wr_append [of buf x] by simp
qed

lemma wr_pull: "wr (a @ b) x = a @ wr b x"
  by (simp only: wr_append [of "a @ b"] wr_append [of b] append_assoc)

lemma foldl_wr_pull: "foldl wr (a @ b) xs = a @ foldl wr b xs"
  by (simp only: foldl_wr [of "a @ b"] foldl_wr [of b] append_assoc)

lemma rd_wr_whole:
  "ok x \<Longrightarrow> fits (wr [] x) \<Longrightarrow>
     \<exists>cur. rd (etb_cbor_cursor_init (wr [] x)) = Inr (x, cur)"
  using rd_wr [of x "[]" "[]"] by (simp add: cursor_init_eq)

lemma wr_inject:
  assumes "ok x" "ok y" "fits (wr [] x)" "wr [] x = wr [] y"
  shows "x = y"
  using rd_wr [of x "[]" "[]"] rd_wr [of y "[]" "[]"] assms by simp

end

text \<open>\<open>for (index = 0; index < count; ++index)\<close> around a reader: a list of that many items.\<close>

primrec cbor_read_list ::
  "(etb_cbor_cursor \<Rightarrow> ('a \<times> etb_cbor_cursor) res) \<Rightarrow> nat \<Rightarrow> etb_cbor_cursor
     \<Rightarrow> ('a list \<times> etb_cbor_cursor) res" where
  "cbor_read_list rd 0 cur = Inr ([], cur)"
| "cbor_read_list rd (Suc n) cur =
     bind_res (rd cur) (\<lambda>(x, cur1).
       bind_res (cbor_read_list rd n cur1) (\<lambda>(xs, cur2). Inr (x # xs, cur2)))"

context wire_codec begin

lemma cbor_read_list_wr:
  "list_all ok xs \<Longrightarrow> fits (pre @ concat (map (wr []) xs) @ rest) \<Longrightarrow>
     cbor_read_list rd (length xs) (cursor_at pre (concat (map (wr []) xs) @ rest))
       = Inr (xs, cursor_at (pre @ concat (map (wr []) xs)) rest)"
proof (induction xs arbitrary: pre)
  case Nil
  then show ?case by simp
next
  case (Cons x xs)
  have "rd (cursor_at pre (wr [] x @ (concat (map (wr []) xs) @ rest)))
      = Inr (x, cursor_at (pre @ wr [] x) (concat (map (wr []) xs) @ rest))"
    using Cons.prems by (intro rd_wr) simp_all
  moreover have "cbor_read_list rd (length xs)
      (cursor_at (pre @ wr [] x) (concat (map (wr []) xs) @ rest))
      = Inr (xs, cursor_at ((pre @ wr [] x) @ concat (map (wr []) xs)) rest)"
    using Cons.prems by (intro Cons.IH) simp_all
  ultimately show ?case by simp
qed

end

section \<open>Heads and big-endian values\<close>

primrec be_list :: "nat \<Rightarrow> u64 \<Rightarrow> byte list" where
  "be_list 0 v = []"
| "be_list (Suc n) v = ucast (drop_bit (8 * n) v) # be_list n v"

lemma length_be_list [simp]: "length (be_list n v) = n"
  by (induction n) simp_all

lemma be_list_step:
  "push_bit (8 * n) (push_bit 8 r OR ucast (ucast (drop_bit (8 * n) v) :: byte)) OR take_bit (8 * n) v
     = push_bit (8 * Suc n) r OR take_bit (8 * Suc n) (v :: u64)"
  by (rule bit_word_eqI) (auto simp: bit_simps add.commute)

lemma cbor_read_be_list:
  "fits (pre @ be_list n v @ rest) \<Longrightarrow>
     cbor_read_be n r (cursor_at pre (be_list n v @ rest))
       = Inr (push_bit (8 * n) r OR take_bit (8 * n) v, cursor_at (pre @ be_list n v) rest)"
proof (induction n arbitrary: pre r)
  case 0
  then show ?case by simp
next
  case (Suc n)
  let ?b = "ucast (drop_bit (8 * n) v) :: byte"
  have "cbor_read_be (Suc n) r (cursor_at pre (?b # (be_list n v @ rest)))
      = cbor_read_be n (push_bit 8 r OR ucast ?b) (cursor_at (pre @ [?b]) (be_list n v @ rest))"
    using Suc.prems by (simp add: cbor_at_cursor_at cursor_at_advance)
  also have "\<dots> = Inr (push_bit (8 * n) (push_bit 8 r OR ucast ?b) OR take_bit (8 * n) v,
      cursor_at ((pre @ [?b]) @ be_list n v) rest)"
    using Suc.prems by (intro Suc.IH) simp
  finally show ?case by (simp only: be_list_step) simp
qed

definition is_major :: "byte \<Rightarrow> bool" where
  "is_major m \<longleftrightarrow> m AND 0x1f = 0"

lemma is_major_consts [simp]:
  "is_major 0x00" "is_major 0x20" "is_major 0x40" "is_major 0x60" "is_major 0x80" "is_major 0xa0"
  by (simp_all add: is_major_def)

lemma head_major:
  assumes "is_major m" and "x AND 0xe0 = 0"
  shows "(m OR x) AND 0xe0 = m" and "(m OR x) AND 0x1f = x"
proof -
  have full: "(0x1f OR 0xe0 :: byte) = - 1" by simp
  have split: "y = (y AND 0x1f) OR (y AND 0xe0)" for y :: byte
    by (simp only: bit.conj_disj_distrib [symmetric] full and.right_neutral)
  have "m AND 0xe0 = m" using split [of m] assms(1) by (simp add: is_major_def)
  then show "(m OR x) AND 0xe0 = m" using assms(2) by (simp add: bit.conj_disj_distrib2)
  have "x AND 0x1f = x" using split [of x] assms(2) by simp
  then show "(m OR x) AND 0x1f = x"
    using assms(1) by (simp add: is_major_def bit.conj_disj_distrib2)
qed

lemma small_byte:
  assumes "v \<le> (23 :: u64)"
  shows "(ucast v :: byte) AND 0xe0 = 0" and "(ucast v :: byte) \<le> 23"
    and "ucast (ucast v :: byte) = v"
proof -
  define n where "n = unat v"
  have v: "v = of_nat n" by (simp add: n_def)
  have "n < 24" using assms by (simp add: n_def word_le_nat_alt)
  then have all: "n \<in> {0, 1, 2, 3, 4, 5, 6, 7, 8, 9, 10, 11, 12, 13, 14, 15, 16, 17, 18, 19, 20, 21, 22, 23}"
    by simp presburger
  show "(ucast v :: byte) AND 0xe0 = 0" using all by (auto simp: v)
  show "(ucast v :: byte) \<le> 23" using all by (auto simp: v)
  show "ucast (ucast v :: byte) = v" using all by (auto simp: v)
qed

text \<open>What the writer emits, as a head byte and a big-endian value of the shortest width.\<close>

definition cbor_width :: "u64 \<Rightarrow> nat" where
  "cbor_width v =
     (if v \<le> 23 then 0 else if v \<le> 0xff then 1 else if v \<le> 0xffff then 2
      else if v \<le> 0xffffffff then 4 else 8)"

definition cbor_addl :: "nat \<Rightarrow> byte" where
  "cbor_addl n = (if n = 1 then 24 else if n = 2 then 25 else if n = 4 then 26 else 27)"

lemma write_type_value_eq:
  "etb_cbor_write_type_value buf major v =
     (if cbor_width v = 0 then buf @ [major OR ucast v]
      else buf @ (major OR cbor_addl (cbor_width v)) # be_list (cbor_width v) v)"
  by (simp add: etb_cbor_write_type_value_def cbor_width_def cbor_addl_def eval_nat_numeral)

lemma write_type_value_append:
  "etb_cbor_write_type_value buf major v = buf @ etb_cbor_write_type_value [] major v"
  by (simp add: write_type_value_eq)

lemma cbor_width_cases:
  "cbor_width v = 0 \<and> v \<le> 23 \<or> cbor_width v \<in> {1, 2, 4, 8} \<and> \<not> v \<le> 23"
  by (auto simp: cbor_width_def)

lemma take_bit_cbor_width:
  assumes "cbor_width v \<noteq> 0"
  shows "take_bit (8 * cbor_width v) v = v"
proof -
  have "unat v < 2 ^ (8 * cbor_width v)"
    using assms unsigned_less [of v, where 'a = nat]
    by (auto simp: cbor_width_def word_le_nat_alt split: if_splits)
  then show ?thesis
    by (simp add: word_unat_eq_iff unsigned_take_bit_eq take_bit_nat_eq_self_iff)
qed

lemma cbor_addl_simps:
  assumes "n \<in> {1, 2, 4, 8}"
  shows "cbor_addl n AND 0xe0 = 0" and "\<not> cbor_addl n \<le> 23"
    and "cbor_value_bytes (cbor_addl n) = n"
  using assms by (auto simp: cbor_addl_def cbor_value_bytes_def)

lemma read_write_type_value:
  assumes major: "is_major m" and fits: "fits (pre @ etb_cbor_write_type_value [] m v @ rest)"
  shows "etb_cbor_read_type_value (cursor_at pre (etb_cbor_write_type_value [] m v @ rest)) m
     = Inr (v, cursor_at (pre @ etb_cbor_write_type_value [] m v) rest)"
proof (cases "cbor_width v = 0")
  case True
  then have v: "v \<le> 23" using cbor_width_cases [of v] by auto
  let ?h = "m OR ucast v"
  have "etb_cbor_write_type_value [] m v = [?h]" using True by (simp add: write_type_value_eq)
  moreover have "?h AND 0xe0 = m" "?h AND 0x1f = ucast v"
    using head_major [OF major small_byte(1) [OF v]] by simp_all
  ultimately show ?thesis
    using fits small_byte [OF v]
    by (simp add: etb_cbor_read_type_value_def cursor_at_simps cursor_at_exhausted)
next
  case False
  define n where "n = cbor_width v"
  let ?h = "m OR cbor_addl n"
  have n: "n \<in> {1, 2, 4, 8}" using cbor_width_cases [of v] False by (auto simp: n_def)
  have w: "etb_cbor_write_type_value [] m v = ?h # be_list n v"
    using False by (simp add: write_type_value_eq n_def)
  have h: "?h AND 0xe0 = m" "?h AND 0x1f = cbor_addl n"
    using head_major [OF major cbor_addl_simps(1) [OF n]] by simp_all
  have fit: "fits ((pre @ [?h]) @ be_list n v @ rest)" using fits by (simp add: w)
  have room: "\<not> cb_size (cursor_at (pre @ [?h]) (be_list n v @ rest))
      < cb_offset (cursor_at (pre @ [?h]) (be_list n v @ rest)) + of_nat n"
    using cursor_at_overrun [OF fit, of n] n by auto
  have "cbor_read_be n 0 (cursor_at (pre @ [?h]) (be_list n v @ rest))
      = Inr (v, cursor_at ((pre @ [?h]) @ be_list n v) rest)"
    using cbor_read_be_list [OF fit, of 0] take_bit_cbor_width False by (simp add: n_def)
  then show ?thesis
    using fit n cbor_addl_simps [OF n] h room
    by (simp add: w etb_cbor_read_type_value_def cursor_at_simps cursor_at_exhausted Let_def) auto
qed

section \<open>The encodings satisfy the contract\<close>

lemma write_type_value_Cons:
  "is_major m \<Longrightarrow> \<exists>h t. etb_cbor_write_type_value [] m v = h # t \<and> h AND 0xe0 = m"
  using head_major(1) [of m] cbor_addl_simps(1) [of "cbor_width v"] small_byte(1) [of v]
    cbor_width_cases [of v]
  by (auto simp: write_type_value_eq)

interpretation cbor_uint: wire_codec etb_cbor_write_uint etb_cbor_read_uint "\<lambda>_. True"
  by unfold_locales
    (simp_all add: etb_cbor_write_uint_def etb_cbor_read_uint_def read_write_type_value
      write_type_value_append [symmetric])

interpretation cbor_array_header:
  wire_codec etb_cbor_write_array_header etb_cbor_read_array_header "\<lambda>_. True"
  by unfold_locales
    (simp_all add: etb_cbor_write_array_header_def etb_cbor_read_array_header_def
      read_write_type_value write_type_value_append [symmetric])

interpretation cbor_map_header:
  wire_codec etb_cbor_write_map_header etb_cbor_read_map_header "\<lambda>_. True"
  by unfold_locales
    (simp_all add: etb_cbor_write_map_header_def etb_cbor_read_map_header_def
      read_write_type_value write_type_value_append [symmetric])

interpretation cbor_bool: wire_codec etb_cbor_write_bool etb_cbor_read_bool "\<lambda>_. True"
  by unfold_locales
    (auto simp: etb_cbor_write_bool_def etb_cbor_read_bool_def cursor_at_simps Let_def)

interpretation cbor_null: wire_codec "\<lambda>buf (_ :: unit). etb_cbor_write_null buf"
    etb_cbor_read_null "\<lambda>_. True"
  by unfold_locales
    (auto simp: etb_cbor_write_null_def etb_cbor_read_null_def cursor_at_simps)

text \<open>The one integer whose encoding does not read back is \<open>INT64_MIN\<close>.\<close>

definition int64_min :: u64 where
  "int64_min = 0x8000000000000000"

lemma write_int_alt:
  "etb_cbor_write_int [] v =
     (if 0 \<le> sint v then etb_cbor_write_type_value [] 0x00 v
      else etb_cbor_write_type_value [] 0x20 (- 1 - v))"
  by (simp add: etb_cbor_write_int_def etb_cbor_write_uint_def)

lemma read_write_int_gen:
  assumes fits: "fits (pre @ etb_cbor_write_int [] v @ rest)"
  shows "etb_cbor_read_int (cursor_at pre (etb_cbor_write_int [] v @ rest)) =
    (if v = int64_min then Inl Signed_overflow
     else Inr (v, cursor_at (pre @ etb_cbor_write_int [] v) rest))"
proof (cases "0 \<le> sint v")
  case True
  then have v: "v \<noteq> int64_min" by (auto simp: int64_min_def)
  obtain h t where w: "etb_cbor_write_type_value [] 0x00 v = h # t" "h AND 0xe0 = 0x00"
    using write_type_value_Cons [of "0x00" v] by auto
  have "etb_cbor_read_type_value (cursor_at pre (etb_cbor_write_type_value [] 0x00 v @ rest)) 0x00
     = Inr (v, cursor_at (pre @ etb_cbor_write_type_value [] 0x00 v) rest)"
    using fits True by (intro read_write_type_value) (simp_all add: write_int_alt)
  then show ?thesis
    using fits True v w
    by (simp add: write_int_alt etb_cbor_read_int_def etb_cbor_read_uint_def cursor_at_simps)
next
  case False
  obtain h t where w: "etb_cbor_write_type_value [] 0x20 (- 1 - v) = h # t" "h AND 0xe0 = 0x20"
    using write_type_value_Cons [of "0x20" "- 1 - v"] by auto
  have "etb_cbor_read_type_value
      (cursor_at pre (etb_cbor_write_type_value [] 0x20 (- 1 - v) @ rest)) 0x20
     = Inr (- 1 - v, cursor_at (pre @ etb_cbor_write_type_value [] 0x20 (- 1 - v)) rest)"
    using fits False by (intro read_write_type_value) (simp_all add: write_int_alt)
  moreover have "- (0x8000000000000000 :: u64) = 0x8000000000000000" by simp
  then have "- v = 0x8000000000000000 \<longleftrightarrow> v = int64_min"
    unfolding int64_min_def by (metis minus_minus)
  ultimately show ?thesis
    using fits False w
    by (simp add: write_int_alt etb_cbor_read_int_def cursor_at_simps)
qed

interpretation cbor_int: wire_codec etb_cbor_write_int etb_cbor_read_int "\<lambda>v. v \<noteq> int64_min"
proof
  show "etb_cbor_write_int buf x = buf @ etb_cbor_write_int [] x" for buf x
    by (simp add: etb_cbor_write_int_def etb_cbor_write_uint_def
        write_type_value_append [symmetric])
  show "x \<noteq> int64_min \<Longrightarrow> fits (pre @ etb_cbor_write_int [] x @ rest) \<Longrightarrow>
      etb_cbor_read_int (cursor_at pre (etb_cbor_write_int [] x @ rest))
        = Inr (x, cursor_at (pre @ etb_cbor_write_int [] x) rest)" for x pre rest
    by (simp only: read_write_int_gen if_False)
qed

text \<open>A C string that fits in memory.\<close>

definition c_text :: "string \<Rightarrow> bool" where
  "c_text s \<longleftrightarrow> CHR 0x00 \<notin> set s"

lemma read_write_text:
  assumes ok: "c_text s" and fits: "fits (pre @ etb_cbor_write_text [] s @ rest)"
  shows "etb_cbor_read_text (cursor_at pre (etb_cbor_write_text [] s @ rest))
    = Inr (s, cursor_at (pre @ etb_cbor_write_text [] s) rest)"
proof -
  let ?h = "etb_cbor_write_type_value [] 0x60 (of_nat (length s))"
  let ?b = "bytes_of_string s"
  have len: "length s < 2 ^ 63 - 1"
    using fits write_type_value_Cons [of "0x60" "of_nat (length s)"]
    by (auto simp: etb_cbor_write_text_def)
  have f1: "fits (pre @ ?h @ (?b @ rest))" and f2: "fits ((pre @ ?h) @ (?b @ rest))"
    and f3: "fits (?b @ rest)"
    using fits by (simp_all add: etb_cbor_write_text_def)
  have hd: "etb_cbor_read_type_value (cursor_at pre (?h @ (?b @ rest))) 0x60
      = Inr (of_nat (length s), cursor_at (pre @ ?h) (?b @ rest))"
    by (rule read_write_type_value [OF is_major_consts(4) f1])
  have room: "\<not> cb_size (cursor_at (pre @ ?h) (?b @ rest))
      < cb_offset (cursor_at (pre @ ?h) (?b @ rest)) + of_nat (length s)"
    using cursor_at_overrun [OF f2, of "length s"] len by simp
  have mal: "malloc_ok (of_nat (length s) + 1)"
    using len unat_of_nat_small [of "Suc (length s)"] by (simp add: malloc_ok_iff add.commute)
  have cpy: "cbor_memcpy (cursor_at (pre @ ?h) (?b @ rest)) (of_nat (length s)) = Inr ?b"
    using cbor_memcpy_cursor_at [OF f2] unat_of_nat_small [of "length s"] len by simp
  show ?thesis
    using hd room mal cpy cursor_at_advance_n [of "pre @ ?h" ?b rest] ok
    by (simp add: etb_cbor_write_text_def etb_cbor_read_text_def c_text_def c_str_id)
qed

lemma read_write_bytes:
  assumes fits: "fits (pre @ etb_cbor_write_bytes [] b @ rest)"
  shows "etb_cbor_read_bytes (cursor_at pre (etb_cbor_write_bytes [] b @ rest))
    = Inr (b, cursor_at (pre @ etb_cbor_write_bytes [] b) rest)"
proof -
  let ?h = "etb_cbor_write_type_value [] 0x40 (of_nat (length b))"
  have f1: "fits (pre @ ?h @ (b @ rest))" and f2: "fits ((pre @ ?h) @ (b @ rest))"
    using fits by (simp_all add: etb_cbor_write_bytes_def)
  have len: "length b < 2 ^ 63" using f2 by simp
  have hd: "etb_cbor_read_type_value (cursor_at pre (?h @ (b @ rest))) 0x40
      = Inr (of_nat (length b), cursor_at (pre @ ?h) (b @ rest))"
    by (rule read_write_type_value [OF is_major_consts(3) f1])
  have room: "\<not> cb_size (cursor_at (pre @ ?h) (b @ rest))
      < cb_offset (cursor_at (pre @ ?h) (b @ rest)) + of_nat (length b)"
    using cursor_at_overrun [OF f2, of "length b"] len by simp
  have mal: "malloc_ok (of_nat (length b))"
    using len unat_of_nat_small [of "length b"] by (simp add: malloc_ok_iff)
  have pos: "0 < (of_nat (length b) :: u64) \<longleftrightarrow> b \<noteq> []"
    using unat_of_nat_small [OF len] by (simp add: word_less_nat_alt)
  have cpy: "cbor_memcpy (cursor_at (pre @ ?h) (b @ rest)) (of_nat (length b)) = Inr b"
    using cbor_memcpy_cursor_at [OF f2] unat_of_nat_small [OF len] by simp
  show ?thesis
    using hd room mal cpy cursor_at_advance_n [of "pre @ ?h" b rest]
    by (cases "b = []") (simp_all add: etb_cbor_write_bytes_def etb_cbor_read_bytes_def pos)
qed

interpretation cbor_text: wire_codec etb_cbor_write_text etb_cbor_read_text c_text
proof
  show "etb_cbor_write_text buf x = buf @ etb_cbor_write_text [] x" for buf x
    using write_type_value_append [of buf "0x60"] by (simp add: etb_cbor_write_text_def)
  show "c_text x \<Longrightarrow> fits (pre @ etb_cbor_write_text [] x @ rest) \<Longrightarrow>
      etb_cbor_read_text (cursor_at pre (etb_cbor_write_text [] x @ rest))
        = Inr (x, cursor_at (pre @ etb_cbor_write_text [] x) rest)" for x pre rest
    by (rule read_write_text)
qed

interpretation cbor_bytes: wire_codec etb_cbor_write_bytes etb_cbor_read_bytes "\<lambda>_. True"
proof
  show "etb_cbor_write_bytes buf x = buf @ etb_cbor_write_bytes [] x" for buf x
    using write_type_value_append [of buf "0x40"] by (simp add: etb_cbor_write_bytes_def)
  show "True \<Longrightarrow> fits (pre @ etb_cbor_write_bytes [] x @ rest) \<Longrightarrow>
      etb_cbor_read_bytes (cursor_at pre (etb_cbor_write_bytes [] x @ rest))
        = Inr (x, cursor_at (pre @ etb_cbor_write_bytes [] x) rest)" for x pre rest
    by (rule read_write_bytes)
qed

lemmas cbor_appends =
  cbor_uint.wr_append cbor_int.wr_append cbor_bool.wr_append cbor_null.wr_append
  cbor_text.wr_append cbor_bytes.wr_append cbor_array_header.wr_append cbor_map_header.wr_append

lemmas cbor_pulls =
  cbor_uint.wr_pull cbor_int.wr_pull cbor_bool.wr_pull cbor_null.wr_pull
  cbor_text.wr_pull cbor_bytes.wr_pull cbor_array_header.wr_pull cbor_map_header.wr_pull
  cbor_text.foldl_wr_pull cbor_bool.foldl_wr_pull cbor_uint.foldl_wr_pull

lemmas cbor_reads =
  cbor_uint.rd_wr cbor_int.rd_wr cbor_bool.rd_wr cbor_null.rd_wr
  cbor_text.rd_wr cbor_bytes.rd_wr cbor_array_header.rd_wr cbor_map_header.rd_wr

section \<open>Reading untrusted bytes\<close>

text \<open>
  \<open>reads_safely cur r\<close>: from a good cursor the reader neither leaves the buffer nor overflows,
  and a value comes with a good cursor over the same buffer.
\<close>

definition reads_safely :: "etb_cbor_cursor \<Rightarrow> ('a \<times> etb_cbor_cursor) res \<Rightarrow> bool" where
  "reads_safely cur r \<longleftrightarrow>
     safe r \<and> (\<forall>x cur'. r = Inr (x, cur') \<longrightarrow> cursor_ok cur' \<and> cb_data cur' = cb_data cur)"

lemma reads_safely_Fail [simp]: "reads_safely cur (Inl (Fail msg))"
  by (simp add: reads_safely_def)

lemma reads_safely_Inr [simp]:
  "reads_safely cur (Inr (x, cur')) \<longleftrightarrow> cursor_ok cur' \<and> cb_data cur' = cb_data cur"
  by (auto simp: reads_safely_def)

lemma reads_safely_bind:
  assumes "reads_safely cur m"
    and "\<And>x cur'. m = Inr (x, cur') \<Longrightarrow> cursor_ok cur' \<Longrightarrow> cb_data cur' = cb_data cur
      \<Longrightarrow> reads_safely cur' (f (x, cur'))"
  shows "reads_safely cur (bind_res m f)"
proof (cases m)
  case (Inl e)
  then show ?thesis using assms(1) by (auto simp: reads_safely_def safe_def)
next
  case (Inr p)
  then obtain x cur' where m: "m = Inr (x, cur')" by (cases p) auto
  then have "cursor_ok cur'" "cb_data cur' = cb_data cur"
    using assms(1) by (auto simp: reads_safely_def)
  then have "reads_safely cur' (f (x, cur'))" by (intro assms(2) [OF m])
  then show ?thesis using \<open>cb_data cur' = cb_data cur\<close>
    unfolding m bind_res_Inr reads_safely_def by metis
qed

lemma reads_safely_on_fail [simp]: "reads_safely cur (on_fail msg r) \<longleftrightarrow> reads_safely cur r"
  by (simp add: reads_safely_def)

lemma reads_safely_list:
  assumes "\<And>cur. cursor_ok cur \<Longrightarrow> reads_safely cur (rd cur)" and "cursor_ok cur"
  shows "reads_safely cur (cbor_read_list rd n cur)"
  using assms(2)
proof (induction n arbitrary: cur)
  case 0
  then show ?case by simp
next
  case (Suc n)
  show ?case
    unfolding cbor_read_list.simps
  proof (rule reads_safely_bind [OF assms(1) [OF Suc.prems]])
    fix x cur1 assume ok: "cursor_ok cur1"
    show "reads_safely cur1 (case (x, cur1) of (x, cur1) \<Rightarrow>
        bind_res (cbor_read_list rd n cur1) (\<lambda>(xs, cur2). Inr (x # xs, cur2)))"
      unfolding prod.case
      by (rule reads_safely_bind [OF Suc.IH [OF ok]]) simp
  qed
qed

lemma cbor_read_be_safe:
  "fits (pre @ rest) \<Longrightarrow> n \<le> length rest \<Longrightarrow>
     \<exists>v. cbor_read_be n r (cursor_at pre rest) = Inr (v, cursor_at (pre @ take n rest) (drop n rest))"
proof (induction n arbitrary: pre rest r)
  case 0
  then show ?case by simp
next
  case (Suc n)
  then obtain b rest' where r: "rest = b # rest'" by (cases rest) auto
  have "fits ((pre @ [b]) @ rest')" "n \<le> length rest'" using Suc.prems r by simp_all
  from Suc.IH [OF this, of "push_bit 8 r OR ucast b"] show ?case
    using Suc.prems r by (simp add: cbor_at_cursor_at cursor_at_advance)
qed

lemma read_type_value_safe:
  assumes "cursor_ok cur"
  shows "reads_safely cur (etb_cbor_read_type_value cur m)"
proof -
  obtain pre rest where cur: "cur = cursor_at pre rest" and fit: "fits (pre @ rest)"
    using assms by (rule cursor_ok_obtain)
  show ?thesis
  proof (cases rest)
    case Nil
    then show ?thesis
      using fit by (simp add: etb_cbor_read_type_value_def cur cursor_at_exhausted)
  next
    case (Cons h rest')
    let ?cur1 = "cursor_at (pre @ [h]) rest'"
    let ?n = "cbor_value_bytes (h AND 0x1f)"
    have fit1: "fits ((pre @ [h]) @ rest')" using fit Cons by simp
    have ok1: "cursor_ok ?cur1" by (rule cursor_at_ok [OF fit1])
    have n: "?n < 2 ^ 63" by (simp add: cbor_value_bytes_def)
    have be: "reads_safely cur (cbor_read_be ?n 0 ?cur1)"
      if room: "\<not> cb_size ?cur1 < cb_offset ?cur1 + of_nat ?n"
    proof -
      have len: "?n \<le> length rest'" using room cursor_at_overrun [OF fit1 n] by simp
      have "fits (((pre @ [h]) @ take ?n rest') @ drop ?n rest')" using fit1 len by simp
      then have "cursor_ok (cursor_at ((pre @ [h]) @ take ?n rest') (drop ?n rest'))"
        by (rule cursor_at_ok)
      then show ?thesis using cbor_read_be_safe [OF fit1 len, of 0] by (auto simp: cur Cons)
    qed
    show ?thesis
      using fit ok1 be
      by (auto simp: etb_cbor_read_type_value_def cur Cons cursor_at_exhausted
          cbor_at_cursor_at cursor_at_advance Let_def)
  qed
qed

lemma read_headers_safe:
  assumes "cursor_ok cur"
  shows "reads_safely cur (etb_cbor_read_uint cur)"
    and "reads_safely cur (etb_cbor_read_array_header cur)"
    and "reads_safely cur (etb_cbor_read_map_header cur)"
  using read_type_value_safe [OF assms]
  by (simp_all add: etb_cbor_read_uint_def etb_cbor_read_array_header_def
      etb_cbor_read_map_header_def)

lemma read_bool_null_safe:
  assumes "cursor_ok cur"
  shows "reads_safely cur (etb_cbor_read_bool cur)" and "reads_safely cur (etb_cbor_read_null cur)"
proof -
  obtain pre rest where cur: "cur = cursor_at pre rest" and fit: "fits (pre @ rest)"
    using assms by (rule cursor_ok_obtain)
  have ok: "cursor_ok (cursor_at (pre @ [b]) rest')" if "rest = b # rest'" for b rest'
    using fit that by (intro cursor_at_ok) simp
  show "reads_safely cur (etb_cbor_read_bool cur)"
    using fit ok
    by (cases rest) (auto simp: etb_cbor_read_bool_def cur cursor_at_exhausted
        cbor_at_cursor_at cursor_at_advance Let_def)
  show "reads_safely cur (etb_cbor_read_null cur)"
    using fit ok
    by (cases rest) (auto simp: etb_cbor_read_null_def cur cursor_at_exhausted
        cbor_at_cursor_at cursor_at_advance)
qed

text \<open>
  The bounds test \<open>offset + size > cursor->size\<close> of the text and byte-string readers, with its
  wrapping addition: below \<open>2\<^sup>6\<^sup>3\<close> it lets a size through only when the bytes are there.
\<close>

lemma cbor_room:
  assumes fit: "fits (pre @ rest)"
    and room: "\<not> cb_size (cursor_at pre rest) < cb_offset (cursor_at pre rest) + sz"
    and small: "unat sz < 2 ^ 63"
  shows "unat sz \<le> length rest"
proof -
  have "sz = of_nat (unat sz)" by (simp add: word_unat_eq_iff)
  then show ?thesis using room cursor_at_overrun [OF fit small] by simp
qed

lemma cbor_take_ok:
  assumes fit: "fits (pre @ rest)" and "unat sz \<le> length rest"
  shows "cursor_ok ((cursor_at pre rest)\<lparr>cb_offset := cb_offset (cursor_at pre rest) + sz\<rparr>)"
proof -
  have "rest = take (unat sz) rest @ drop (unat sz) rest" by simp
  moreover have "sz = of_nat (length (take (unat sz) rest))"
    using assms by (simp add: min_absorb2 word_unat_eq_iff)
  ultimately have "(cursor_at pre rest)\<lparr>cb_offset := cb_offset (cursor_at pre rest) + sz\<rparr>
      = cursor_at (pre @ take (unat sz) rest) (drop (unat sz) rest)"
    using cursor_at_advance_n by metis
  moreover have "fits ((pre @ take (unat sz) rest) @ drop (unat sz) rest)"
    using fit by (simp del: fits_append)
  ultimately show ?thesis using cursor_at_ok by metis
qed

lemma etb_cbor_read_bytes_safe:
  assumes "cursor_ok cur"
  shows "reads_safely cur (etb_cbor_read_bytes cur)"
  unfolding etb_cbor_read_bytes_def
proof (rule reads_safely_bind [OF read_type_value_safe [OF assms]])
  fix sz cur1 assume "cursor_ok cur1"
  then obtain pre rest where cur1: "cur1 = cursor_at pre rest" and fit: "fits (pre @ rest)"
    by (rule cursor_ok_obtain)
  show "reads_safely cur1 (case (sz, cur1) of (sz, cur1) \<Rightarrow>
      if cb_size cur1 < cb_offset cur1 + sz then Inl (Fail '''')
      else if 0 < sz \<and> \<not> malloc_ok sz then Inl (Fail '''')
      else bind_res (if 0 < sz then cbor_memcpy cur1 sz else Inr []) (\<lambda>bytes.
        Inr (bytes, cur1\<lparr>cb_offset := cb_offset cur1 + sz\<rparr>)))"
  proof (cases "cb_size cur1 < cb_offset cur1 + sz \<or> 0 < sz \<and> \<not> malloc_ok sz")
    case True
    then show ?thesis by auto
  next
    case False
    then have "unat sz < 2 ^ 63"
      by (cases "sz = 0") (auto simp: malloc_ok_iff word_gt_0)
    then have le: "unat sz \<le> length rest" using cbor_room [OF fit] False cur1 by simp
    then show ?thesis
      using False fit cbor_take_ok [OF fit le]
      by (simp add: cur1 cbor_memcpy_cursor_at [OF fit])
  qed
qed

lemma read_type_value_progress:
  assumes fit: "fits (pre @ rest)"
    and rd: "etb_cbor_read_type_value (cursor_at pre rest) m = Inr (v, cur')"
  shows "\<exists>c rest'. rest = c @ rest' \<and> c \<noteq> [] \<and> cur' = cursor_at (pre @ c) rest'"
proof (cases rest)
  case Nil
  then show ?thesis using rd fit by (simp add: etb_cbor_read_type_value_def cursor_at_exhausted)
next
  case (Cons h rest')
  let ?cur1 = "cursor_at (pre @ [h]) rest'"
  let ?n = "cbor_value_bytes (h AND 0x1f)"
  have fit1: "fits ((pre @ [h]) @ rest')" using fit Cons by simp
  have n: "?n < 2 ^ 63" by (simp add: cbor_value_bytes_def)
  have body: "cur' = ?cur1 \<or>
      (\<not> cb_size ?cur1 < cb_offset ?cur1 + of_nat ?n \<and> cbor_read_be ?n 0 ?cur1 = Inr (v, cur'))"
    using rd fit by (auto simp: etb_cbor_read_type_value_def Cons cursor_at_exhausted
        cbor_at_cursor_at cursor_at_advance Let_def split: if_splits)
  show ?thesis
  proof (cases "cur' = ?cur1")
    case True
    then show ?thesis using Cons by (intro exI [of _ "[h]"] exI [of _ rest']) simp
  next
    case False
    then have room: "\<not> cb_size ?cur1 < cb_offset ?cur1 + of_nat ?n"
      and be: "cbor_read_be ?n 0 ?cur1 = Inr (v, cur')" using body by auto
    have len: "?n \<le> length rest'" using room cursor_at_overrun [OF fit1 n] by simp
    have "cur' = cursor_at ((pre @ [h]) @ take ?n rest') (drop ?n rest')"
      using be cbor_read_be_safe [OF fit1 len, of 0] by auto
    then show ?thesis using Cons
      by (intro exI [of _ "h # take ?n rest'"] exI [of _ "drop ?n rest'"]) simp
  qed
qed

text \<open>
  C36. The text reader on untrusted bytes. Whatever length the message declares, the reader stays
  inside the buffer and yields a good cursor, with one exception: a declared length of
  \<open>2\<^sup>6\<^sup>4 - 1\<close>. There both wrapping additions of the code succeed (\<open>offset + size\<close> passes the
  bounds test, \<open>size + 1\<close> is an allocation of nothing) and \<open>memcpy\<close> runs out of the buffer.
\<close>

theorem etb_cbor_read_text_safety:
  assumes ok: "cursor_ok cur"
  shows "if \<exists>cur1. etb_cbor_read_type_value cur 0x60 = Inr (- 1, cur1)
         then etb_cbor_read_text cur = Inl Out_of_bounds
         else reads_safely cur (etb_cbor_read_text cur)"
proof (cases "\<exists>cur1. etb_cbor_read_type_value cur 0x60 = Inr (- 1, cur1)")
  case True
  then obtain cur1 where hd: "etb_cbor_read_type_value cur 0x60 = Inr (- 1, cur1)" by auto
  obtain pre rest where cur: "cur = cursor_at pre rest" "fits (pre @ rest)"
    using ok by (rule cursor_ok_obtain)
  obtain c rest' where c: "rest = c @ rest'" "c \<noteq> []" "cur1 = cursor_at (pre @ c) rest'"
    using read_type_value_progress [OF cur(2)] hd cur(1) by metis
  have fit: "fits ((pre @ c) @ rest')" using cur c by simp
  have off: "unat (cb_offset cur1) = length pre + length c" using fit c by simp
  then have "cb_offset cur1 \<noteq> 0" using c(2) by auto
  then have "unat (cb_offset cur1 - 1) = length pre + length c - 1"
    using off unat_minus_one [of "cb_offset cur1"] by simp
  moreover have "unat (cb_size cur1) = length pre + length c + length rest'" using fit c by simp
  ultimately have inside: "\<not> cb_size cur1 < cb_offset cur1 + - 1"
    by (simp only: word_less_nat_alt flip: diff_conv_add_uminus)
  have "unat (- 1 :: u64) = 2 ^ 64 - 1"
    by (simp add: unsigned_minus_1_eq_mask mask_eq_exp_minus_1)
  moreover have "length rest' < 2 ^ 64 - 1" using fit c(2) by (simp add: fits_def)
  ultimately have "cbor_memcpy cur1 (- 1) = Inl Out_of_bounds"
    unfolding c(3) cbor_memcpy_cursor_at [OF fit] by simp
  then have "etb_cbor_read_text cur = Inl Out_of_bounds"
    using inside by (simp add: etb_cbor_read_text_def hd malloc_ok_iff)
  with True show ?thesis by simp
next
  case False
  have "reads_safely cur (etb_cbor_read_text cur)"
    unfolding etb_cbor_read_text_def
  proof (rule reads_safely_bind [OF read_type_value_safe [OF ok]])
    fix sz cur1 assume hd: "etb_cbor_read_type_value cur 0x60 = Inr (sz, cur1)"
      and "cursor_ok cur1"
    then obtain pre rest where cur1: "cur1 = cursor_at pre rest" and fit: "fits (pre @ rest)"
      using cursor_ok_obtain by metis
    have sz: "sz \<noteq> - 1" using False hd by auto
    show "reads_safely cur1 (case (sz, cur1) of (sz, cur1) \<Rightarrow>
        if cb_size cur1 < cb_offset cur1 + sz then Inl (Fail '''')
        else if \<not> malloc_ok (sz + 1) then Inl (Fail '''')
        else bind_res (cbor_memcpy cur1 sz) (\<lambda>bytes.
          Inr (c_str (string_of_bytes bytes), cur1\<lparr>cb_offset := cb_offset cur1 + sz\<rparr>)))"
    proof (cases "cb_size cur1 < cb_offset cur1 + sz \<or> \<not> malloc_ok (sz + 1)")
      case True
      then show ?thesis by auto
    next
      case False
      have "unat (sz + 1) = Suc (unat sz)"
        using sz by (metis add.commute add_eq_0_iff unatSuc)
      then have "unat sz < 2 ^ 63" using False by (simp add: malloc_ok_iff)
      then have le: "unat sz \<le> length rest" using cbor_room [OF fit] False cur1 by simp
      then show ?thesis
        using False fit cbor_take_ok [OF fit le]
        by (simp add: cur1 cbor_memcpy_cursor_at [OF fit])
    qed
  qed
  with False show ?thesis by simp
qed

lemma cbor_read_be_numeral:
  "cbor_read_be (numeral k) result cur =
     bind_res (cbor_at cur) (\<lambda>b.
       cbor_read_be (pred_numeral k) (push_bit 8 result OR ucast b)
         (cur\<lparr>cb_offset := cb_offset cur + 1\<rparr>))"
  by (simp add: numeral_eq_Suc)

lemma read_text_attack:
  "etb_cbor_read_text (etb_cbor_cursor_init [0x7b, 0xff, 0xff, 0xff, 0xff, 0xff, 0xff, 0xff, 0xff])
     = Inl Out_of_bounds"
  by (simp add: etb_cbor_cursor_init_def etb_cbor_read_text_def etb_cbor_read_type_value_def
      cbor_at_def cbor_value_bytes_def Let_def cbor_read_be_numeral cbor_memcpy_def malloc_ok_iff)

section \<open>Composite messages\<close>

text \<open>
  \<open>decodes rd bytes x\<close>: in front of \<open>bytes\<close>, wherever they stand in a buffer, the reader returns
  \<open>x\<close> and consumes exactly \<open>bytes\<close>. Readers in sequence decode the concatenation.
\<close>

definition decodes ::
    "(etb_cbor_cursor \<Rightarrow> ('a \<times> etb_cbor_cursor) res) \<Rightarrow> byte list \<Rightarrow> 'a \<Rightarrow> bool" where
  "decodes rd bytes x \<longleftrightarrow>
     (\<forall>pre rest. fits (pre @ bytes @ rest) \<longrightarrow>
        rd (cursor_at pre (bytes @ rest)) = Inr (x, cursor_at (pre @ bytes) rest))"

lemma decodes_bind:
  assumes "decodes rd b x" and "decodes (f x) c y"
  shows "decodes (\<lambda>cur. bind_res (rd cur) (\<lambda>(x, cur). f x cur)) (b @ c) y"
  unfolding decodes_def
proof (intro allI impI)
  fix pre rest assume fit: "fits (pre @ (b @ c) @ rest)"
  have "rd (cursor_at pre (b @ (c @ rest))) = Inr (x, cursor_at (pre @ b) (c @ rest))"
    by (rule assms(1) [unfolded decodes_def, rule_format]) (use fit in simp)
  moreover have "f x (cursor_at (pre @ b) (c @ rest)) = Inr (y, cursor_at ((pre @ b) @ c) rest)"
    by (rule assms(2) [unfolded decodes_def, rule_format]) (use fit in simp)
  ultimately show "bind_res (rd (cursor_at pre ((b @ c) @ rest))) (\<lambda>(x, cur). f x cur)
      = Inr (y, cursor_at (pre @ b @ c) rest)" by simp
qed

lemma decodes_bind':
  "decodes rd b x \<Longrightarrow> decodes (f x) c y \<Longrightarrow> bytes = b @ c \<Longrightarrow>
     decodes (\<lambda>cur. bind_res (rd cur) (\<lambda>(x, cur). f x cur)) bytes y"
  by (simp only: decodes_bind)

lemma decodes_return: "decodes (\<lambda>cur. Inr (x, cur)) [] x"
  by (simp add: decodes_def)

lemma decodes_last:
  "decodes rd b x \<Longrightarrow> decodes (\<lambda>cur. bind_res (rd cur) (\<lambda>(x, cur). Inr (g x, cur))) b (g x)"
  using decodes_bind [OF _ decodes_return, of rd b x g] by simp

lemma decodes_on_fail: "decodes rd b x \<Longrightarrow> decodes (\<lambda>cur. on_fail msg (rd cur)) b x"
  by (simp add: decodes_def)

lemma decodes_if: "c \<Longrightarrow> decodes f b x \<Longrightarrow> decodes (\<lambda>cur. if c then f cur else g cur) b x"
  "\<not> c \<Longrightarrow> decodes g b x \<Longrightarrow> decodes (\<lambda>cur. if c then f cur else g cur) b x"
  by simp_all

lemma decodes_read_list:
  "(\<And>x. x \<in> set xs \<Longrightarrow> decodes rd (enc x) (g x)) \<Longrightarrow>
     decodes (cbor_read_list rd (length xs)) (concat (map enc xs)) (map g xs)"
proof (induction xs)
  case Nil
  then show ?case by (simp add: decodes_return)
next
  case (Cons x xs)
  have "decodes (\<lambda>cur. bind_res (cbor_read_list rd (length xs) cur) (\<lambda>(ys, cur). Inr (g x # ys, cur)))
      (concat (map enc xs)) (g x # map g xs)"
    by (rule decodes_last [where g = "\<lambda>ys. g x # ys"]) (rule Cons.IH, use Cons.prems in simp)
  then show ?case
    using decodes_bind [OF Cons.prems [of x], of "\<lambda>y cur. bind_res (cbor_read_list rd (length xs) cur)
      (\<lambda>(ys, cur). Inr (y # ys, cur))"] by simp
qed

lemma decodes_list:
  "(\<And>x. x \<in> set xs \<Longrightarrow> decodes rd (enc x) x) \<Longrightarrow>
     decodes (cbor_read_list rd (length xs)) (concat (map enc xs)) xs"
  using decodes_read_list [of xs rd enc "\<lambda>x. x"] by simp

lemma decodes_whole:
  "decodes rd bytes x \<Longrightarrow> fits bytes \<Longrightarrow>
     rd (etb_cbor_cursor_init bytes) = Inr (x, cursor_at bytes [])"
  unfolding cursor_init_eq
  using decodes_def [THEN iffD1, rule_format, of rd bytes x "[]" "[]"] by simp

lemma decodes_counted:
  assumes "length xs < 2 ^ 63" and "\<And>x. x \<in> set xs \<Longrightarrow> decodes rd (enc x) x"
  shows "decodes (cbor_read_list rd (unat (of_nat (length xs) :: u64))) (concat (map enc xs)) xs"
  using decodes_list [OF assms(2)] assms(1) by (simp add: unat_of_nat_small)

text \<open>
  The loop over the fields of a map: a text key, then what the handler of that key reads. Every
  map the code reads (certificates, requests, responses, bundles, routes) is read by this loop.
\<close>

primrec cbor_read_fields ::
  "string \<Rightarrow> (string \<Rightarrow> 's \<Rightarrow> etb_cbor_cursor \<Rightarrow> ('s \<times> etb_cbor_cursor) res) \<Rightarrow> nat \<Rightarrow> 's
     \<Rightarrow> etb_cbor_cursor \<Rightarrow> ('s \<times> etb_cbor_cursor) res" where
  "cbor_read_fields message handler 0 st cursor = Inr (st, cursor)"
| "cbor_read_fields message handler (Suc n) st cursor =
     bind_res (on_fail message (etb_cbor_read_text cursor)) (\<lambda>(key, cursor).
     bind_res (handler key st cursor) (\<lambda>(st, cursor). cbor_read_fields message handler n st cursor))"

text \<open>\<open>calloc(n, size)\<close> of an array whose size is declared by the sender.\<close>

definition calloc_ok :: "u64 \<Rightarrow> nat \<Rightarrow> bool" where
  "calloc_ok n sz \<longleftrightarrow> unat n * sz < 2 ^ 63"

lemma read_list_all:
  "cbor_read_list rd n cur = Inr (xs, cur') \<Longrightarrow> (\<And>cur x cur'. rd cur = Inr (x, cur') \<Longrightarrow> P x) \<Longrightarrow>
     list_all P xs"
proof (induction n arbitrary: cur xs)
  case 0
  then show ?case by simp
next
  case (Suc n)
  then obtain x cur1 ys where "rd cur = Inr (x, cur1)" "cbor_read_list rd n cur1 = Inr (ys, cur')"
    "xs = x # ys" by auto
  then show ?case using Suc by simp
qed

context wire_codec begin

lemma decodes_wr: "ok x \<Longrightarrow> decodes rd (wr [] x) x"
  by (simp add: decodes_def rd_wr)

end

lemmas cbor_decodes =
  cbor_uint.decodes_wr [OF TrueI] cbor_array_header.decodes_wr [OF TrueI]
  cbor_map_header.decodes_wr [OF TrueI] cbor_bool.decodes_wr [OF TrueI]
  cbor_null.decodes_wr [OF TrueI] cbor_int.decodes_wr cbor_text.decodes_wr
  cbor_bytes.decodes_wr [OF TrueI]

lemma decodes_fields_end: "decodes (cbor_read_fields message handler 0 st) [] st"
  using decodes_return by (simp add: cbor_read_fields.simps [abs_def])

lemma decodes_field:
  assumes "c_text key" and "decodes (handler key st) bytes st'"
    and "decodes (cbor_read_fields message handler n st') rest st''"
  shows "decodes (cbor_read_fields message handler (Suc n) st) (etb_cbor_write_text [] key @ bytes @ rest) st''"
proof -
  have "decodes (\<lambda>cursor. bind_res (handler key st cursor) (\<lambda>(st, cursor).
      cbor_read_fields message handler n st cursor)) (bytes @ rest) st''"
    by (rule decodes_bind) (rule assms(2,3))+
  then show ?thesis
    unfolding cbor_read_fields.simps [abs_def]
    by (rule decodes_bind [OF decodes_on_fail [OF cbor_text.decodes_wr [OF assms(1)]]])
qed

lemma decodes_last_field:
  assumes "c_text key" and "decodes (handler key st) bytes st'"
  shows "decodes (cbor_read_fields message handler (Suc 0) st) (etb_cbor_write_text [] key @ bytes) st'"
  using decodes_field [where handler = handler and st' = st' and n = 0 and rest = "[]" and st'' = st',
      OF assms decodes_fields_end] by simp

lemma decodes_map:
  assumes "decodes (cbor_read_fields message handler n st) bytes st'" and "n < 2 ^ 63"
  shows "decodes (\<lambda>cursor. bind_res (on_fail header_message (etb_cbor_read_map_header cursor))
    (\<lambda>(pair_count, cursor). cbor_read_fields message handler (unat pair_count) st cursor))
    (etb_cbor_write_map_header [] (of_nat n) @ bytes) st'"
  by (rule decodes_bind [OF decodes_on_fail [OF cbor_map_header.decodes_wr [OF TrueI]]])
    (use assms in \<open>simp add: unat_of_nat_small\<close>)


text \<open>
  The encoding of the least 64-bit integer does not read back: reading it negates a value
  whose negation is not representable.
\<close>

theorem etb_cbor_read_int_min:
  "etb_cbor_read_int (etb_cbor_cursor_init (etb_cbor_write_int [] int64_min)) = Inl Signed_overflow"
proof -
  have "fits ([] @ etb_cbor_write_int [] int64_min @ [])"
    by (simp add: etb_cbor_write_int_def etb_cbor_write_type_value_def etb_cbor_write_uint_def fits_def Let_def)
  from read_write_int_gen [OF this] show ?thesis by (simp add: cursor_init_eq)
qed

lemma etb_cbor_read_text_safety_witness:
  "etb_cbor_read_text (etb_cbor_cursor_init [0x7b, 0xff, 0xff, 0xff, 0xff, 0xff, 0xff, 0xff, 0xff])
     = Inl Out_of_bounds"
proof -
  let ?cur = "etb_cbor_cursor_init [0x7b, 0xff, 0xff, 0xff, 0xff, 0xff, 0xff, 0xff, 0xff]"
  have "cursor_ok ?cur"
    by (simp add: cursor_ok_def etb_cbor_cursor_init_def fits_def)
  moreover have "\<exists>cur1. etb_cbor_read_type_value ?cur 0x60 = Inr (- 1, cur1)"
    by (simp add: etb_cbor_read_type_value_def etb_cbor_cursor_init_def cbor_at_def
        cbor_value_bytes_def Let_def cbor_read_be_numeral word_le_nat_alt)
  ultimately show ?thesis using etb_cbor_read_text_safety [of ?cur] by simp
qed


end
