(* ===== verification/Capability.thy ===== *)
theory Capability
  imports Ast Cbor
begin

text \<open>
  Capabilities: \<open>include/etb/capability.h\<close> and \<open>src/runtime/capability.c\<close>. The registry is
  the list of declarations; the first with a matching name and arity is found.

  A capability is an external program that reads one CBOR request on its standard input and
  writes one CBOR response on its standard output. Running it (\<open>pipe\<close>, \<open>posix_spawn\<close>,
  \<open>write\<close>, \<open>read\<close>, \<open>waitpid\<close>) is the argument \<open>adapter\<close> of \<open>etb_capability_invoke\<close>: for a
  path and the request bytes it says which step failed or which bytes came back from a process
  that exited with status 0. Everything before and after, the request encoder and the response
  decoder, is the code's.
\<close>

section \<open>Registry\<close>

type_synonym etb_capability_registry = "etb_capability_decl list"

record etb_capability_result =
  cr_tuples :: "etb_term list list"
  cr_evidence_digests :: "string list"

text \<open>The slot is filled before the test of the name: a declaration without a name stays behind.\<close>

definition etb_capability_registry_add ::
    "etb_capability_registry \<Rightarrow> etb_capability_decl \<Rightarrow> bool \<times> etb_capability_registry" where
  "etb_capability_registry_add registry decl =
     (c_name decl \<noteq> None,
      registry @ [\<lparr>c_name = c_name decl, c_arity = c_arity decl, c_path = c_path decl,
                   c_deterministic = c_deterministic decl,
                   c_proof_admissible = c_proof_admissible decl,
                   c_timeout_ms = c_timeout_ms decl\<rparr>])"

fun etb_capability_registry_find ::
    "etb_capability_registry \<Rightarrow> string option \<Rightarrow> nat \<Rightarrow> etb_capability_decl option res" where
  "etb_capability_registry_find [] name arity = Inr None"
| "etb_capability_registry_find (d # registry) name arity =
     (if c_arity d = arity then
        bind_res (c_streq (c_name d) name) (\<lambda>same.
          if same then Inr (Some d) else etb_capability_registry_find registry name arity)
      else etb_capability_registry_find registry name arity)"

definition registry_ok :: "etb_capability_registry \<Rightarrow> bool" where
  "registry_ok registry \<longleftrightarrow> list_all (\<lambda>d. c_name d \<noteq> None) registry"

lemma registry_find_eq:
  "registry_ok registry \<Longrightarrow> etb_capability_registry_find registry (Some name) arity =
     Inr (List.find (\<lambda>d. c_arity d = arity \<and> c_name d = Some name) registry)"
  by (induction registry) (auto simp: registry_ok_def simp del: bind_res_eq_Inr)

lemma registry_add_decl [simp]:
  "etb_capability_registry_add registry decl = (c_name decl \<noteq> None, registry @ [decl])"
  by (simp add: etb_capability_registry_add_def)

lemma registry_ok_add:
  "registry_ok registry \<Longrightarrow> etb_capability_registry_add registry decl = (True, registry') \<Longrightarrow>
     registry_ok registry'"
  by (auto simp: registry_ok_def)

section \<open>Wire terms\<close>

definition etb_write_term :: "etb_cbor_buffer \<Rightarrow> etb_term \<Rightarrow> etb_cbor_buffer" where
  "etb_write_term buffer t =
     (let buffer = etb_cbor_write_uint (etb_cbor_write_array_header buffer 2)
                     (of_nat (term_kind_code (t_kind t)))
      in case t_kind t of
           ETB_TERM_INTEGER \<Rightarrow> etb_cbor_write_int buffer (t_integer t)
         | ETB_TERM_NULL \<Rightarrow> etb_cbor_write_null buffer
         | _ \<Rightarrow> etb_cbor_write_text buffer (case t_text t of None \<Rightarrow> '''' | Some s \<Rightarrow> s))"

text \<open>The \<open>switch\<close> on the kind; the default is a symbol.\<close>

definition etb_read_term_payload :: "nat \<Rightarrow> etb_cbor_cursor \<Rightarrow> (etb_term \<times> etb_cbor_cursor) res" where
  "etb_read_term_payload code cursor =
     (if code = term_kind_code ETB_TERM_INTEGER then
         bind_res (etb_cbor_read_int cursor) (\<lambda>(integer, cursor).
           Inr (etb_term_make_integer integer, cursor))
       else if code = term_kind_code ETB_TERM_NULL then
         bind_res (etb_cbor_read_null cursor) (\<lambda>(_, cursor). Inr (etb_term_make_null, cursor))
       else if code = term_kind_code ETB_TERM_VARIABLE then
         bind_res (etb_cbor_read_text cursor) (\<lambda>(txt, cursor).
           Inr (etb_term_make_variable (Some txt), cursor))
       else if code = term_kind_code ETB_TERM_STRING then
         bind_res (etb_cbor_read_text cursor) (\<lambda>(txt, cursor).
           Inr (etb_term_make_string (Some txt), cursor))
       else
         bind_res (etb_cbor_read_text cursor) (\<lambda>(txt, cursor).
           Inr (etb_term_make_symbol (Some txt), cursor)))"

text \<open>The cast of the 64-bit kind to the enumeration keeps its low 32 bits.\<close>

definition etb_read_term :: "etb_cbor_cursor \<Rightarrow> (etb_term \<times> etb_cbor_cursor) res" where
  "etb_read_term cursor =
     bind_res (etb_cbor_read_array_header cursor) (\<lambda>(count, cursor).
     if count \<noteq> 2 then Inl (Fail '''')
     else bind_res (etb_cbor_read_uint cursor) (\<lambda>(kind, cursor).
       etb_read_term_payload (unat (ucast kind :: u32)) cursor))"

section \<open>Requests and responses\<close>

definition etb_write_request :: "etb_term list \<Rightarrow> bool list \<Rightarrow> etb_cbor_buffer \<Rightarrow> etb_cbor_buffer" where
  "etb_write_request args bound_mask buffer =
     (let count = of_nat (length args);
          buffer = etb_cbor_write_array_header (etb_cbor_write_array_header buffer 2) count;
          buffer = foldl etb_write_term buffer args;
          buffer = etb_cbor_write_array_header buffer count
      in foldl etb_cbor_write_bool buffer (take (length args) bound_mask))"

definition etb_read_tuple :: "etb_cbor_cursor \<Rightarrow> (etb_term list \<times> etb_cbor_cursor) res" where
  "etb_read_tuple cursor =
     bind_res (on_fail ''invalid tuple in adapter response'' (etb_cbor_read_array_header cursor))
       (\<lambda>(term_count, cursor).
         on_fail ''invalid term in adapter response''
           (cbor_read_list etb_read_term (unat term_count) cursor))"

definition etb_read_response_at ::
    "etb_cbor_cursor \<Rightarrow> (etb_capability_result \<times> etb_cbor_cursor) res" where
  "etb_read_response_at cursor =
     bind_res (on_fail ''invalid adapter response'' (etb_cbor_read_array_header cursor)) (\<lambda>(count, cursor).
     if count \<noteq> 2 then Inl (Fail ''invalid adapter response'')
     else bind_res (on_fail ''invalid adapter response'' (etb_cbor_read_array_header cursor))
       (\<lambda>(tuple_count, cursor).
     if \<not> calloc_ok tuple_count 24 then Inl (Fail ''out of memory'')
     else bind_res (cbor_read_list etb_read_tuple (unat tuple_count) cursor) (\<lambda>(tuples, cursor).
     bind_res (on_fail ''invalid evidence list'' (etb_cbor_read_array_header cursor))
       (\<lambda>(evidence_count, cursor).
     if \<not> calloc_ok evidence_count 8 then Inl (Fail ''out of memory'')
     else bind_res (on_fail ''invalid evidence digest''
            (cbor_read_list etb_cbor_read_text (unat evidence_count) cursor)) (\<lambda>(evidence, cursor).
       Inr (\<lparr>cr_tuples = tuples, cr_evidence_digests = evidence\<rparr>, cursor))))))"

definition etb_read_response :: "byte list \<Rightarrow> etb_capability_result res" where
  "etb_read_response data =
     bind_res (etb_read_response_at (etb_cbor_cursor_init data)) (\<lambda>(result, _). Inr result)"

datatype adapter_run =
    Pipe_failed | Spawn_failed | Write_failed | Output_failed | Exit_failed | Adapter_output "byte list"

type_synonym adapter = "string \<Rightarrow> byte list \<Rightarrow> adapter_run"

definition etb_capability_invoke ::
    "adapter \<Rightarrow> etb_capability_decl \<Rightarrow> etb_term list \<Rightarrow> bool list \<Rightarrow> etb_capability_result res" where
  "etb_capability_invoke adapter decl args bound_mask =
     (case c_path decl of
        None \<Rightarrow> Inl (Fail (''capability '' @ fmt_s (c_name decl) @ '' has no path''))
      | Some path \<Rightarrow>
          (case adapter path (etb_write_request args bound_mask []) of
             Pipe_failed \<Rightarrow> Inl (Fail ''failed to create pipes'')
           | Spawn_failed \<Rightarrow> Inl (Fail (''failed to spawn adapter '' @ path))
           | Write_failed \<Rightarrow> Inl (Fail ''failed to write capability request'')
           | Output_failed \<Rightarrow> Inl (Fail ''failed to read capability response'')
           | Exit_failed \<Rightarrow> Inl (Fail ''adapter exited unsuccessfully'')
           | Adapter_output data \<Rightarrow> etb_read_response data))"

section \<open>The codec\<close>

definition wire_term :: "etb_term \<Rightarrow> bool" where
  "wire_term t \<longleftrightarrow> wf_term t \<and> (t_kind t = ETB_TERM_INTEGER \<longrightarrow> t_integer t \<noteq> int64_min) \<and>
     (\<forall>s. t_text t = Some s \<longrightarrow> c_text s)"

lemma write_term_append: "etb_write_term buf t = buf @ etb_write_term [] t"
  unfolding etb_write_term_def Let_def cbor_array_header.wr_append [of buf]
  by (cases "t_kind t") (simp_all add: cbor_pulls)

definition term_payload :: "etb_term \<Rightarrow> byte list" where
  "term_payload t =
     (case t_kind t of
        ETB_TERM_INTEGER \<Rightarrow> etb_cbor_write_int [] (t_integer t)
      | ETB_TERM_NULL \<Rightarrow> etb_cbor_write_null []
      | _ \<Rightarrow> etb_cbor_write_text [] (case t_text t of None \<Rightarrow> '''' | Some s \<Rightarrow> s))"

lemma write_term_split:
  "etb_write_term [] t = etb_cbor_write_array_header [] 2 @
     etb_cbor_write_uint [] (of_nat (term_kind_code (t_kind t))) @ term_payload t"
proof -
  let ?h = "etb_cbor_write_array_header [] 2"
  let ?k = "etb_cbor_write_uint [] (of_nat (term_kind_code (t_kind t)))"
  have "etb_cbor_write_uint ?h (of_nat (term_kind_code (t_kind t))) = ?h @ ?k"
    by (rule cbor_uint.wr_append)
  then show ?thesis
    using cbor_int.wr_append [of "?h @ ?k"] cbor_text.wr_append [of "?h @ ?k"]
      cbor_null.wr_append [of "?h @ ?k"]
    by (cases "t_kind t") (simp_all add: etb_write_term_def term_payload_def)
qed

lemma kind_code_cast: "unat (ucast (of_nat (term_kind_code k) :: u64) :: u32) = term_kind_code k"
  by (cases k) simp_all

lemma decodes_text_term:
  "c_text s \<Longrightarrow> decodes (\<lambda>cursor. bind_res (etb_cbor_read_text cursor) (\<lambda>(s, cursor).
     Inr (mk (Some s), cursor))) (etb_cbor_write_text [] s) (mk (Some s))"
  by (rule decodes_last [where g = "\<lambda>s. mk (Some s)"]) (rule cbor_text.decodes_wr)

lemma decodes_payload:
  assumes "wire_term t"
  shows "decodes (etb_read_term_payload (term_kind_code (t_kind t))) (term_payload t) t"
proof -
  have made: "\<exists>s. t_text t = Some s \<and> c_text s \<and> t = \<lparr>t_kind = t_kind t, t_text = Some s, t_integer = 0\<rparr>"
    if "t_kind t \<noteq> ETB_TERM_INTEGER" "t_kind t \<noteq> ETB_TERM_NULL"
    using assms that
    by (cases t) (auto simp: wire_term_def wf_term_def split: etb_term_kind.splits)
  show ?thesis
  proof (cases "t_kind t")
    case ETB_TERM_INTEGER
    then have t: "t = etb_term_make_integer (t_integer t)"
      using assms by (cases t) (simp add: wire_term_def wf_term_def etb_term_make_defs)
    have "decodes (\<lambda>cursor. bind_res (etb_cbor_read_int cursor) (\<lambda>(integer, cursor).
           Inr (etb_term_make_integer integer, cursor))) (term_payload t) (etb_term_make_integer (t_integer t))"
      using assms ETB_TERM_INTEGER
      by (intro decodes_last) (simp add: term_payload_def wire_term_def cbor_decodes)
    then show ?thesis using t ETB_TERM_INTEGER by (simp add: etb_read_term_payload_def [abs_def])
  next
    case ETB_TERM_NULL
    then have t: "t = etb_term_make_null"
      using assms by (cases t) (simp add: wire_term_def wf_term_def etb_term_make_defs)
    have "decodes (\<lambda>cursor. bind_res (etb_cbor_read_null cursor) (\<lambda>(_, cursor).
           Inr (etb_term_make_null, cursor))) (term_payload t) etb_term_make_null"
      using ETB_TERM_NULL cbor_null.decodes_wr [OF TrueI, of "()"]
      by (intro decodes_last [where g = "\<lambda>_. etb_term_make_null"]) (simp add: term_payload_def)
    then show ?thesis using t ETB_TERM_NULL by (simp add: etb_read_term_payload_def [abs_def])
  qed (use made decodes_text_term [of _ etb_term_make_symbol]
        decodes_text_term [of _ etb_term_make_variable] decodes_text_term [of _ etb_term_make_string]
      in \<open>force simp: etb_read_term_payload_def [abs_def] term_payload_def etb_term_make_defs\<close>)+
qed

lemma decodes_term:
  assumes "wire_term t"
  shows "decodes etb_read_term (etb_write_term [] t) t"
proof -
  have "decodes (\<lambda>cursor. bind_res (etb_cbor_read_uint cursor) (\<lambda>(kind, cursor).
       etb_read_term_payload (unat (ucast kind :: u32)) cursor))
      (etb_cbor_write_uint [] (of_nat (term_kind_code (t_kind t))) @ term_payload t) t"
    by (rule decodes_bind [OF cbor_uint.decodes_wr [OF TrueI]])
      (simp add: kind_code_cast decodes_payload assms)
  then show ?thesis
    unfolding etb_read_term_def [abs_def] write_term_split
    by (intro decodes_bind [OF cbor_array_header.decodes_wr [OF TrueI]]) simp
qed

interpretation term_codec: wire_codec etb_write_term etb_read_term wire_term
proof unfold_locales
  show "etb_write_term buf x = buf @ etb_write_term [] x" for buf x by (rule write_term_append)
  show "wire_term x \<Longrightarrow> fits (pre @ etb_write_term [] x @ rest) \<Longrightarrow>
      etb_read_term (cursor_at pre (etb_write_term [] x @ rest)) =
      Inr (x, cursor_at (pre @ etb_write_term [] x) rest)" for x pre rest
    using decodes_term by (simp add: decodes_def)
qed

text \<open>
  The response a well-behaved adapter sends for a list of tuples and evidence digests, in the
  encoding the sample adapters use.
\<close>

definition tuple_bytes :: "etb_term list \<Rightarrow> byte list" where
  "tuple_bytes ts = etb_cbor_write_array_header [] (of_nat (length ts)) @ concat (map (etb_write_term []) ts)"

definition response_bytes :: "etb_term list list \<Rightarrow> string list \<Rightarrow> byte list" where
  "response_bytes tuples evidence =
     etb_cbor_write_array_header [] 2 @
     etb_cbor_write_array_header [] (of_nat (length tuples)) @ concat (map tuple_bytes tuples) @
     etb_cbor_write_array_header [] (of_nat (length evidence)) @
     concat (map (etb_cbor_write_text []) evidence)"

lemma decodes_tuple:
  assumes "length ts < 2 ^ 63" and "list_all wire_term ts"
  shows "decodes etb_read_tuple (tuple_bytes ts) ts"
  unfolding etb_read_tuple_def [abs_def] tuple_bytes_def
  by (rule decodes_bind [OF decodes_on_fail [OF cbor_array_header.decodes_wr [OF TrueI]]])
    (use assms in \<open>simp add: decodes_on_fail decodes_counted decodes_term list_all_iff\<close>)

lemma response_correct:
  assumes t: "\<forall>ts \<in> set tuples. length ts < 2 ^ 63 \<and> list_all wire_term ts"
    and e: "list_all c_text evidence"
    and n: "length tuples * 24 < 2 ^ 63" "length evidence * 8 < 2 ^ 63"
    and fit: "fits (response_bytes tuples evidence)"
  shows "etb_read_response (response_bytes tuples evidence) =
    Inr \<lparr>cr_tuples = tuples, cr_evidence_digests = evidence\<rparr>"
proof -
  have small: "length tuples < 2 ^ 63" "length evidence < 2 ^ 63" using n by auto
  have calloc: "calloc_ok (of_nat (length tuples)) 24" "calloc_ok (of_nat (length evidence)) 8"
    using n small by (simp_all add: calloc_ok_def unat_of_nat_small)
  have tuples: "decodes (cbor_read_list etb_read_tuple (unat (of_nat (length tuples) :: u64)))
      (concat (map tuple_bytes tuples)) tuples"
    using small t by (intro decodes_counted decodes_tuple) auto
  have evidence: "decodes (\<lambda>cur. bind_res (on_fail ''invalid evidence digest''
      (cbor_read_list etb_cbor_read_text (unat (of_nat (length evidence) :: u64)) cur))
      (\<lambda>(evidence, cur). Inr (\<lparr>cr_tuples = tuples, cr_evidence_digests = evidence\<rparr>, cur)))
      (concat (map (etb_cbor_write_text []) evidence))
      \<lparr>cr_tuples = tuples, cr_evidence_digests = evidence\<rparr>"
    using small e
    by (intro decodes_last [where g = "\<lambda>evidence. \<lparr>cr_tuples = tuples, cr_evidence_digests = evidence\<rparr>"]
        decodes_on_fail decodes_counted) (auto simp: list_all_iff cbor_decodes)
  have "decodes etb_read_response_at (response_bytes tuples evidence)
      \<lparr>cr_tuples = tuples, cr_evidence_digests = evidence\<rparr>"
    unfolding etb_read_response_at_def [abs_def] response_bytes_def
    apply (rule decodes_bind [OF decodes_on_fail [OF cbor_array_header.decodes_wr [OF TrueI]]])
    apply (simp only: simp_thms if_False)
    apply (rule decodes_bind [OF decodes_on_fail [OF cbor_array_header.decodes_wr [OF TrueI]]])
    apply (simp only: calloc simp_thms if_False)
    apply (rule decodes_bind [OF tuples])
    apply (rule decodes_bind [OF decodes_on_fail [OF cbor_array_header.decodes_wr [OF TrueI]]])
    apply (simp only: calloc simp_thms if_False evidence)
    done
  from decodes_whole [OF this fit] show ?thesis by (simp add: etb_read_response_def)
qed

text \<open>
  The response reader inverts the response encoding: whatever terms and digests an adapter
  encodes come back as the result, as long as the tables they describe can be allocated.
\<close>

theorem etb_read_response_correct:
  assumes t: "\<forall>ts \<in> set tuples. length ts < 2 ^ 63 \<and> list_all wire_term ts"
    and e: "list_all c_text evidence"
    and n: "length tuples * 24 < 2 ^ 63" "length evidence * 8 < 2 ^ 63"
    and fit: "fits (response_bytes tuples evidence)"
  shows "etb_read_response (response_bytes tuples evidence) =
    Inr \<lparr>cr_tuples = tuples, cr_evidence_digests = evidence\<rparr>"
  by (rule response_correct) fact+

section \<open>What comes back\<close>

lemma read_term_wf: "etb_read_term cur = Inr (t, cur') \<Longrightarrow> wf_term t"
  by (auto simp: etb_read_term_def etb_read_term_payload_def split: if_splits)

lemma read_response_wf:
  assumes "etb_read_response data = Inr result"
  shows "list_all (list_all wf_term) (cr_tuples result)"
proof -
  have tuple: "list_all wf_term ts" if "etb_read_tuple cur = Inr (ts, cur')" for cur ts cur'
    using that read_list_all [OF _ read_term_wf] by (auto simp: etb_read_tuple_def)
  obtain n cur cur' where "cbor_read_list etb_read_tuple n cur = Inr (cr_tuples result, cur')"
    using assms
    by (auto simp: etb_read_response_def etb_read_response_at_def split: if_splits)
  then show ?thesis by (rule read_list_all) (rule tuple)
qed

lemma invoke_wf:
  "etb_capability_invoke adapter decl args bound_mask = Inr result \<Longrightarrow>
     list_all (list_all wf_term) (cr_tuples result)"
  by (auto simp: etb_capability_invoke_def read_response_wf split: option.splits adapter_run.splits)

text \<open>
  The text reader's unchecked length reaches the response reader: a fourteen-byte response with
  one term whose text claims \<open>2\<^sup>6\<^sup>4 - 1\<close> bytes makes it copy out of the buffer.
\<close>

lemma read_response_attack:
  "etb_read_response [0x82, 0x81, 0x81, 0x82, 0x00, 0x7b, 0xff, 0xff, 0xff, 0xff, 0xff, 0xff, 0xff, 0xff]
     = Inl Out_of_bounds"
  by (simp add: etb_read_response_def etb_read_response_at_def etb_cbor_cursor_init_def
      etb_cbor_read_array_header_def etb_read_tuple_def etb_read_term_def etb_read_term_payload_def
      etb_cbor_read_uint_def etb_cbor_read_text_def etb_cbor_read_type_value_def calloc_ok_def
      cbor_at_def cbor_value_bytes_def Let_def cbor_read_be_numeral cbor_memcpy_def malloc_ok_iff
      on_fail_def word_le_nat_alt)

lemma etb_read_response_correct_witness:
  "etb_read_response (response_bytes [[etb_term_make_integer 7], []] [''d'']) =
     Inr \<lparr>cr_tuples = [[etb_term_make_integer 7], []], cr_evidence_digests = [''d'']\<rparr>"
  by (rule etb_read_response_correct)
    (simp_all add: wire_term_def wf_term_def etb_term_make_defs int64_min_def c_text_def fits_def
      response_bytes_def tuple_bytes_def etb_write_term_def etb_cbor_write_array_header_def
      etb_cbor_write_uint_def etb_cbor_write_int_def etb_cbor_write_text_def
      etb_cbor_write_type_value_def Let_def)

end
