(* ===== verification/Engine_State.thy ===== *)
theory Engine_State
  imports Unify Trace Capability
begin

text \<open>
  The engine's state and the operations that set it up: \<open>include/etb/engine.h\<close>, the loading part
  of \<open>src/engine/eval.c\<close>, and \<open>src/engine/negation.c\<close>.

  \<open>etb_engine_load_program\<close> replaces the program and the capability registry and keeps the
  relations and the trace of the programs run before.
\<close>

record etb_engine =
  e_program :: etb_program
  e_capabilities :: etb_capability_registry
  e_relations :: etb_relation_set
  e_trace :: etb_trace
  e_now :: u64

definition etb_engine_init :: "u64 \<Rightarrow> etb_engine" where
  "etb_engine_init time = \<lparr>e_program = [], e_capabilities = [], e_relations = [], e_trace = [], e_now = time\<rparr>"

definition etb_clone_statement :: "etb_statement \<Rightarrow> etb_statement res" where
  "etb_clone_statement src =
     (case src of
        ETB_STMT_CAPABILITY d \<Rightarrow>
          if c_name d = None then Inl (Fail '''')
          else Inr (ETB_STMT_CAPABILITY
            \<lparr>c_name = c_name d, c_arity = c_arity d, c_path = c_path d,
             c_deterministic = c_deterministic d, c_proof_admissible = c_proof_admissible d,
             c_timeout_ms = c_timeout_ms d\<rparr>)
      | ETB_STMT_CLAUSE c \<Rightarrow>
          Inr (ETB_STMT_CLAUSE
            \<lparr>cl_head = etb_atom_clone (cl_head c),
             cl_body = foldl (\<lambda>body l. etb_literal_list_push body
               \<lparr>l_negated = l_negated l, l_atom = etb_atom_clone (l_atom l)\<rparr>) [] (cl_body c),
             cl_source_line = cl_source_line c\<rparr>))"

definition load_statement :: "etb_statement \<Rightarrow> etb_engine \<Rightarrow> etb_engine res" where
  "load_statement statement engine =
     bind_res (on_fail ''out of memory'' (etb_clone_statement statement)) (\<lambda>clone.
       let engine = engine\<lparr>e_program := etb_program_push (e_program engine) clone\<rparr> in
       case clone of
         ETB_STMT_CAPABILITY d \<Rightarrow>
           (case etb_capability_registry_add (e_capabilities engine) d of
              (added, registry) \<Rightarrow>
                if \<not> added then Inl (Fail ''failed to register capability'')
                else Inr (engine\<lparr>e_capabilities := registry\<rparr>))
       | ETB_STMT_CLAUSE _ \<Rightarrow> Inr engine)"

definition etb_engine_load_program :: "etb_engine \<Rightarrow> etb_program \<Rightarrow> etb_engine res" where
  "etb_engine_load_program engine program =
     fold_res load_statement program (engine\<lparr>e_program := [], e_capabilities := []\<rparr>)"

text \<open>\<open>negation.c\<close>\<close>

definition etb_literal_is_capability :: "etb_engine \<Rightarrow> etb_literal \<Rightarrow> bool res" where
  "etb_literal_is_capability engine literal =
     (if a_kind (l_atom literal) \<noteq> ETB_ATOM_PREDICATE then Inr False
      else bind_res (etb_capability_registry_find (e_capabilities engine)
             (a_predicate (l_atom literal)) (length (a_terms (l_atom literal)))) (\<lambda>decl.
        Inr (decl \<noteq> None)))"

definition etb_negated_literal_allowed :: "etb_engine \<Rightarrow> etb_literal \<Rightarrow> bool res" where
  "etb_negated_literal_allowed engine literal =
     (if \<not> l_negated literal then Inr True
      else if a_kind (l_atom literal) \<noteq> ETB_ATOM_PREDICATE then Inr False
      else bind_res (etb_literal_is_capability engine literal) (\<lambda>is_cap. Inr (\<not> is_cap)))"

section \<open>Loading\<close>

definition capabilities :: "etb_program \<Rightarrow> etb_capability_decl list" where
  "capabilities program =
     concat (map (\<lambda>s. case s of ETB_STMT_CAPABILITY d \<Rightarrow> [d] | ETB_STMT_CLAUSE _ \<Rightarrow> []) program)"

definition named_statement :: "etb_statement \<Rightarrow> bool" where
  "named_statement s \<longleftrightarrow>
     (case s of ETB_STMT_CAPABILITY d \<Rightarrow> c_name d \<noteq> None | ETB_STMT_CLAUSE _ \<Rightarrow> True)"

lemma clone_body: "foldl (\<lambda>body l. etb_literal_list_push body
     \<lparr>l_negated = l_negated l, l_atom = etb_atom_clone (l_atom l)\<rparr>) acc ls = acc @ ls"
  by (induction ls arbitrary: acc) (simp_all add: etb_literal_list_push_def)

lemma clone_statement_eq:
  "etb_clone_statement s = (if named_statement s then Inr s else Inl (Fail ''''))"
  using clone_body [of "[]"]
  by (auto simp: etb_clone_statement_def named_statement_def split: etb_statement.splits)

lemma load_statement_named:
  "named_statement s \<Longrightarrow> load_statement s engine = Inr (engine\<lparr>e_program := e_program engine @ [s],
     e_capabilities := e_capabilities engine @ capabilities [s]\<rparr>)"
  by (cases s) (auto simp: load_statement_def clone_statement_eq etb_program_push_def
      named_statement_def capabilities_def Let_def)

lemma load_statement_unnamed:
  "\<not> named_statement s \<Longrightarrow> load_statement s engine = Inl (Fail ''out of memory'')"
  by (simp add: load_statement_def clone_statement_eq)

lemma capabilities_Cons: "capabilities (s # program) = capabilities [s] @ capabilities program"
  by (simp add: capabilities_def)

lemma load_statements:
  "fold_res load_statement program engine =
     (if list_all named_statement program
      then Inr (engine\<lparr>e_program := e_program engine @ program,
                       e_capabilities := e_capabilities engine @ capabilities program\<rparr>)
      else Inl (Fail ''out of memory''))"
proof (induction program arbitrary: engine)
  case Nil
  then show ?case by (simp add: capabilities_def)
next
  case (Cons s program)
  then show ?case
    by (cases "named_statement s")
      (simp_all add: load_statement_named load_statement_unnamed capabilities_Cons [of s program]
        del: bind_res_eq_Inr)
qed

lemma registry_ok_capabilities:
  "list_all named_statement program \<Longrightarrow> registry_ok (capabilities program)"
  by (induction program)
    (auto simp: capabilities_def registry_ok_def named_statement_def split: etb_statement.splits)

lemma load_program_eq:
  "etb_engine_load_program engine program =
     (if list_all named_statement program
      then Inr (engine\<lparr>e_program := program, e_capabilities := capabilities program\<rparr>)
      else Inl (Fail ''out of memory''))"
  by (simp add: etb_engine_load_program_def load_statements)

text \<open>
  Loading succeeds exactly on the programs whose capability declarations are named; it then
  installs the program and its declarations, a registry in which every lookup is free of null
  pointers, and leaves the tables, the trace and the clock as they were.
\<close>

theorem etb_engine_load_program_correct:
  "etb_engine_load_program engine program =
     (if list_all named_statement program
      then Inr (engine\<lparr>e_program := program, e_capabilities := capabilities program\<rparr>)
      else Inl (Fail ''out of memory'')) \<and>
   (list_all named_statement program \<longrightarrow> registry_ok (capabilities program))"
  by (simp add: load_program_eq registry_ok_capabilities)

definition sample_decl :: etb_capability_decl where
  "sample_decl = \<lparr>c_name = Some ''cap'', c_arity = 1, c_path = None, c_deterministic = True,
     c_proof_admissible = True, c_timeout_ms = 1\<rparr>"

lemma etb_engine_load_program_correct_witness:
  "list_all named_statement [ETB_STMT_CAPABILITY sample_decl] \<and>
   registry_ok (capabilities [ETB_STMT_CAPABILITY sample_decl])"
proof -
  have "list_all named_statement [ETB_STMT_CAPABILITY sample_decl]"
    by (simp add: named_statement_def sample_decl_def)
  then show ?thesis using etb_engine_load_program_correct by blast
qed

lemma is_capability_eq:
  assumes "registry_ok (e_capabilities engine)" and "wf_literal l"
  shows "etb_literal_is_capability engine l =
    Inr (a_kind (l_atom l) = ETB_ATOM_PREDICATE \<and>
      List.find (\<lambda>d. c_arity d = length (a_terms (l_atom l)) \<and> c_name d = a_predicate (l_atom l))
        (e_capabilities engine) \<noteq> None)"
proof (cases "a_kind (l_atom l) = ETB_ATOM_PREDICATE")
  case True
  then obtain p where "a_predicate (l_atom l) = Some p"
    using assms(2) wf_atom_names(3) by (auto simp: wf_literal_def)
  then show ?thesis using True registry_find_eq [OF assms(1)]
    by (simp add: etb_literal_is_capability_def)
qed (simp add: etb_literal_is_capability_def)

end
