(* ===== verification/Delegation.thy ===== *)
theory Delegation
  imports Engine_State
begin

text \<open>
  Delegation between principals: \<open>src/engine/delegation.c\<close>. A \<open>speaks_for\<close> fact is an edge
  from its principal to its delegate with a scope, an expiry and a depth bound. The code searches
  the edges depth first; the recursion is bounded because the depth grows by one per call and a
  bound is a 32-bit number or the initial 8.

  \<open>delegates\<close> is the rule set the search decides: \<open>etb_delegation_visit_iff\<close> is the equivalence,
  on facts whose names are present. From it follow the soundness of the search in the reachability
  relation of the usable edges, and its exact reach when no edge sets a bound of its own.
\<close>

section \<open>The search\<close>

text \<open>\<open>strncmp(predicate, scope, strlen(scope)) == 0\<close>: the scope is a prefix of the predicate.\<close>

definition etb_scope_allows :: "string option \<Rightarrow> string option \<Rightarrow> bool res" where
  "etb_scope_allows scope predicate =
     (case scope of
        None \<Rightarrow> Inr True
      | Some s \<Rightarrow>
          if s = ''*'' then Inr True
          else (case predicate of
                  None \<Rightarrow> Inl Null_deref
                | Some p \<Rightarrow> Inr (take (length s) p = s)))"

text \<open>A loop that returns \<open>true\<close> at the first item that passes.\<close>

primrec search_res :: "('a \<Rightarrow> bool res) \<Rightarrow> 'a list \<Rightarrow> bool res" where
  "search_res f [] = Inr False"
| "search_res f (x # xs) = bind_res (f x) (\<lambda>b. if b then Inr True else search_res f xs)"

lemma search_res_cong [fundef_cong]:
  "xs = ys \<Longrightarrow> (\<And>x. x \<in> set ys \<Longrightarrow> f x = g x) \<Longrightarrow> search_res f xs = search_res g ys"
proof (induction xs arbitrary: ys)
  case Nil
  then show ?case by auto
next
  case (Cons x xs)
  then show ?case by (cases ys) (auto cong: if_cong)
qed

definition edge_live :: "u64 \<Rightarrow> string option \<Rightarrow> etb_atom \<Rightarrow> bool res" where
  "edge_live now predicate atom =
     (if d_expires_at (a_delegation atom) \<noteq> 0 \<and> now > d_expires_at (a_delegation atom)
      then Inr False
      else etb_scope_allows (d_scope (a_delegation atom)) predicate)"

definition edge_bound :: "nat \<Rightarrow> etb_atom \<Rightarrow> nat" where
  "edge_bound max_depth atom =
     (if d_max_depth (a_delegation atom) = 0 then max_depth
      else unat (d_max_depth (a_delegation atom)))"

text \<open>The test of the first loop: an edge from the speaker straight to the target.\<close>

definition direct_edge ::
    "string option \<Rightarrow> string option \<Rightarrow> string option \<Rightarrow> u64 \<Rightarrow> etb_atom \<Rightarrow> bool res" where
  "direct_edge speaker target predicate now atom =
     bind_res (c_streq (a_principal atom) speaker) (\<lambda>same.
     if \<not> same then Inr False
     else bind_res (c_streq (a_delegate atom) target) (\<lambda>same.
       if \<not> same then Inr False else edge_live now predicate atom))"

function etb_delegation_visit ::
    "etb_fact list option \<Rightarrow> string option \<Rightarrow> string option \<Rightarrow> string option \<Rightarrow> u64 \<Rightarrow> nat \<Rightarrow> nat \<Rightarrow> bool res"
where
  "etb_delegation_visit relation speaker target predicate now depth max_depth =
     bind_res (c_streq speaker target) (\<lambda>same.
     if same then Inr True
     else
       case relation of
         None \<Rightarrow> Inr False
       | Some facts \<Rightarrow>
           if depth > max_depth then Inr False
           else
             bind_res (search_res (\<lambda>f. direct_edge speaker target predicate now (f_atom f)) facts)
               (\<lambda>found.
             if found then Inr True
             else search_res (\<lambda>f.
               bind_res (c_streq (a_principal (f_atom f)) speaker) (\<lambda>same.
               if \<not> same then Inr False
               else bind_res (edge_live now predicate (f_atom f)) (\<lambda>live.
                 if \<not> live then Inr False
                 else etb_delegation_visit relation (a_delegate (f_atom f)) target predicate now
                        (depth + 1) (edge_bound max_depth (f_atom f))))) facts))"
  by pat_completeness auto

lemma edge_bound_le: "edge_bound max_depth atom \<le> max (2 ^ 32) max_depth"
proof -
  have "unat (d_max_depth (a_delegation atom)) < 2 ^ 32"
    using unsigned_less [of "d_max_depth (a_delegation atom)", where 'a = nat] by simp
  then show ?thesis by (simp add: edge_bound_def le_max_iff_disj less_imp_le)
qed

termination etb_delegation_visit
proof (relation "measure (\<lambda>(_, _, _, _, _, depth, max_depth). Suc (max (2 ^ 32) max_depth) - depth)",
    goal_cases)
  case 1
  show ?case by simp
next
  case (2 relation speaker target predicate now depth max_depth same facts found f)
  then have "depth \<le> max (2 ^ 32) max_depth" by simp
  then show ?case using edge_bound_le [of max_depth "f_atom f"] by simp
qed

declare etb_delegation_visit.simps [simp del]

definition etb_delegation_allows ::
    "etb_engine \<Rightarrow> string option \<Rightarrow> string option \<Rightarrow> string option \<Rightarrow> u64 \<Rightarrow> bool res" where
  "etb_delegation_allows engine speaker target predicate now =
     etb_delegation_visit
       (map_option r_facts (etb_relation_set_find (e_relations engine) ''__speaks_for__/2''))
       speaker target predicate now 0 8"

section \<open>The rules it decides\<close>

text \<open>An edge that counts now, for this predicate.\<close>

definition usable :: "u64 \<Rightarrow> string \<Rightarrow> etb_atom \<Rightarrow> bool" where
  "usable now p atom \<longleftrightarrow>
     (d_expires_at (a_delegation atom) = 0 \<or> now \<le> d_expires_at (a_delegation atom)) \<and>
     (case d_scope (a_delegation atom) of
        None \<Rightarrow> True | Some s \<Rightarrow> s = ''*'' \<or> take (length s) p = s)"

inductive delegates :: "etb_atom set \<Rightarrow> u64 \<Rightarrow> string \<Rightarrow> string \<Rightarrow> string \<Rightarrow> nat \<Rightarrow> nat \<Rightarrow> bool"
  for edges now p
where
  self: "delegates edges now p s s depth bound"
| direct: "depth \<le> bound \<Longrightarrow> e \<in> edges \<Longrightarrow> usable now p e \<Longrightarrow>
    a_principal e = Some s \<Longrightarrow> a_delegate e = Some t \<Longrightarrow> delegates edges now p s t depth bound"
| via: "depth \<le> bound \<Longrightarrow> e \<in> edges \<Longrightarrow> usable now p e \<Longrightarrow>
    a_principal e = Some s \<Longrightarrow> a_delegate e = Some u \<Longrightarrow>
    delegates edges now p u t (depth + 1) (edge_bound bound e) \<Longrightarrow> delegates edges now p s t depth bound"

inductive_cases delegatesE: "delegates edges now p s t depth bound"

lemma delegates_mono [mono]:
  "edges \<subseteq> edges' \<Longrightarrow>
     delegates edges now p s t depth bound \<longrightarrow> delegates edges' now p s t depth bound"
proof
  assume "delegates edges now p s t depth bound" and "edges \<subseteq> edges'"
  then show "delegates edges' now p s t depth bound"
    by (induction rule: delegates.induct) (auto intro: delegates.intros)
qed

definition named_edges :: "etb_atom list \<Rightarrow> bool" where
  "named_edges edges \<longleftrightarrow> list_all (\<lambda>e. a_principal e \<noteq> None \<and> a_delegate e \<noteq> None) edges"

lemma edge_live_eq: "edge_live now (Some p) e = Inr (usable now p e)"
  by (auto simp: edge_live_def usable_def etb_scope_allows_def not_le split: option.splits)

lemma search_res_total:
  "(\<And>x. x \<in> set xs \<Longrightarrow> f x = Inr (P x)) \<Longrightarrow> search_res f xs = Inr (\<exists>x \<in> set xs. P x)"
  by (induction xs) auto

lemma direct_edge_eq:
  assumes "a_principal e \<noteq> None" and "a_delegate e \<noteq> None"
  shows "direct_edge (Some s) (Some t) (Some p) now e =
    Inr (a_principal e = Some s \<and> a_delegate e = Some t \<and> usable now p e)"
  using assms by (auto simp: direct_edge_def edge_live_eq simp del: bind_res_eq_Inr)

text \<open>One unfolding of the rules, and one of the search.\<close>

definition direct_edges :: "etb_atom set \<Rightarrow> u64 \<Rightarrow> string \<Rightarrow> string \<Rightarrow> string \<Rightarrow> bool" where
  "direct_edges edges now p s t \<longleftrightarrow>
     (\<exists>e \<in> edges. a_principal e = Some s \<and> a_delegate e = Some t \<and> usable now p e)"

lemma delegates_unfold:
  "delegates edges now p s t depth bound \<longleftrightarrow>
     s = t \<or> depth \<le> bound \<and> (direct_edges edges now p s t \<or>
       (\<exists>e \<in> edges. a_principal e = Some s \<and> usable now p e \<and>
          (\<exists>u. a_delegate e = Some u \<and> delegates edges now p u t (depth + 1) (edge_bound bound e))))"
  unfolding direct_edges_def
  by (auto elim: delegatesE intro: delegates.intros)

lemma visit_unfold:
  assumes "named_edges (map f_atom facts)"
  shows "etb_delegation_visit (Some facts) (Some s) (Some t) (Some p) now depth bound =
     (if s = t then Inr True
      else if bound < depth then Inr False
      else if direct_edges (f_atom ` set facts) now p s t then Inr True
      else search_res (\<lambda>f.
             if a_principal (f_atom f) = Some s \<and> usable now p (f_atom f)
             then etb_delegation_visit (Some facts) (a_delegate (f_atom f)) (Some t) (Some p) now
                    (depth + 1) (edge_bound bound (f_atom f))
             else Inr False) facts)"
proof -
  have names: "a_principal (f_atom f) \<noteq> None" "a_delegate (f_atom f) \<noteq> None" if "f \<in> set facts" for f
    using assms that by (auto simp: named_edges_def list_all_iff)
  have dir: "search_res (\<lambda>f. direct_edge (Some s) (Some t) (Some p) now (f_atom f)) facts =
      Inr (direct_edges (f_atom ` set facts) now p s t)"
    using search_res_total [of facts _ "\<lambda>f. a_principal (f_atom f) = Some s \<and>
        a_delegate (f_atom f) = Some t \<and> usable now p (f_atom f)"] names
    by (simp add: direct_edges_def direct_edge_eq)
  have "search_res (\<lambda>f. bind_res (c_streq (a_principal (f_atom f)) (Some s)) (\<lambda>same.
               if \<not> same then Inr False
               else bind_res (edge_live now (Some p) (f_atom f)) (\<lambda>live.
                 if \<not> live then Inr False
                 else etb_delegation_visit (Some facts) (a_delegate (f_atom f)) (Some t) (Some p) now
                        (depth + 1) (edge_bound bound (f_atom f))))) facts =
    search_res (\<lambda>f.
             if a_principal (f_atom f) = Some s \<and> usable now p (f_atom f)
             then etb_delegation_visit (Some facts) (a_delegate (f_atom f)) (Some t) (Some p) now
                    (depth + 1) (edge_bound bound (f_atom f))
             else Inr False) facts"
  proof (rule search_res_cong [OF refl])
    fix f assume "f \<in> set facts"
    then obtain q where q: "a_principal (f_atom f) = Some q" using names by blast
    then show "bind_res (c_streq (a_principal (f_atom f)) (Some s)) (\<lambda>same.
               if \<not> same then Inr False
               else bind_res (edge_live now (Some p) (f_atom f)) (\<lambda>live.
                 if \<not> live then Inr False
                 else etb_delegation_visit (Some facts) (a_delegate (f_atom f)) (Some t) (Some p) now
                        (depth + 1) (edge_bound bound (f_atom f)))) =
             (if a_principal (f_atom f) = Some s \<and> usable now p (f_atom f)
             then etb_delegation_visit (Some facts) (a_delegate (f_atom f)) (Some t) (Some p) now
                    (depth + 1) (edge_bound bound (f_atom f))
             else Inr False)"
      by (cases "q = s"; cases "usable now p (f_atom f)")
        (simp_all add: edge_live_eq del: bind_res_eq_Inr)
  qed
  then show ?thesis
    unfolding etb_delegation_visit.simps [of "Some facts" "Some s" "Some t" "Some p" now depth bound]
    by (simp add: dir not_less del: bind_res_eq_Inr)
qed

lemma visit_iff:
  assumes named: "named_edges (map f_atom facts)"
  shows "etb_delegation_visit (Some facts) (Some s) (Some t) (Some p) now depth bound =
    Inr (delegates (f_atom ` set facts) now p s t depth bound)"
proof (induction "Suc (max (2 ^ 32) bound) - depth" arbitrary: s depth bound rule: less_induct)
  case less
  let ?edges = "f_atom ` set facts"
  let ?via = "\<lambda>f. a_principal (f_atom f) = Some s \<and> usable now p (f_atom f) \<and>
      (\<exists>u. a_delegate (f_atom f) = Some u \<and>
        delegates ?edges now p u t (depth + 1) (edge_bound bound (f_atom f)))"
  show ?case
  proof (cases "depth \<le> bound")
    case False
    then show ?thesis using visit_unfold [OF named, of s t] delegates_unfold [of ?edges now p s t depth] by simp
  next
    case True
    have "search_res (\<lambda>f.
             if a_principal (f_atom f) = Some s \<and> usable now p (f_atom f)
             then etb_delegation_visit (Some facts) (a_delegate (f_atom f)) (Some t) (Some p) now
                    (depth + 1) (edge_bound bound (f_atom f))
             else Inr False) facts = Inr (\<exists>f \<in> set facts. ?via f)"
    proof (rule search_res_total)
      fix f assume "f \<in> set facts"
      then obtain u where u: "a_delegate (f_atom f) = Some u"
        using named by (auto simp: named_edges_def list_all_iff)
      have "Suc (max (2 ^ 32) (edge_bound bound (f_atom f))) - (depth + 1) < Suc (max (2 ^ 32) bound) - depth"
        using edge_bound_le [of bound "f_atom f"] True by linarith
      from less [OF this] show "(if a_principal (f_atom f) = Some s \<and> usable now p (f_atom f)
             then etb_delegation_visit (Some facts) (a_delegate (f_atom f)) (Some t) (Some p) now
                    (depth + 1) (edge_bound bound (f_atom f))
             else Inr False) = Inr (?via f)"
        using u by auto
    qed
    moreover have "delegates ?edges now p s t depth bound \<longleftrightarrow>
        s = t \<or> direct_edges ?edges now p s t \<or> (\<exists>f \<in> set facts. ?via f)"
      using True by (simp add: delegates_unfold [of ?edges now p s t depth bound])
    ultimately show ?thesis
      using True by (simp add: visit_unfold [OF named, of s t _ now depth bound] not_less)
  qed
qed

text \<open>
  C10. The delegation search terminates, and on facts that carry their names it meets no null
  pointer and answers true exactly when the delegation rules (reflexivity, a usable direct edge,
  a usable edge followed by a delegation one level deeper) derive the claim.
\<close>

theorem etb_delegation_visit_iff:
  assumes "named_edges (map f_atom facts)"
  shows "etb_delegation_visit (Some facts) (Some s) (Some t) (Some p) now depth bound =
    Inr (delegates (f_atom ` set facts) now p s t depth bound)"
  using assms by (rule visit_iff)

section \<open>What a positive answer means\<close>

definition edge_rel :: "etb_atom set \<Rightarrow> u64 \<Rightarrow> string \<Rightarrow> (string \<times> string) set" where
  "edge_rel edges now p =
     {(s, t). \<exists>e \<in> edges. a_principal e = Some s \<and> a_delegate e = Some t \<and> usable now p e}"

lemma delegates_path: "delegates edges now p s t depth bound \<Longrightarrow> (s, t) \<in> (edge_rel edges now p)\<^sup>*"
proof (induction rule: delegates.induct)
  case (self s depth bound)
  then show ?case by simp
next
  case (direct depth bound e s t)
  then show ?case by (intro r_into_rtrancl) (auto simp: edge_rel_def)
next
  case (via depth bound e s u t)
  then have "(s, u) \<in> edge_rel edges now p" by (auto simp: edge_rel_def)
  then show ?case using via.IH by (rule converse_rtrancl_into_rtrancl)
qed

lemma delegates_steps:
  assumes "\<forall>e \<in> edges. d_max_depth (a_delegation e) = 0"
  shows "delegates edges now p s t depth bound \<longleftrightarrow>
    (\<exists>n \<le> Suc bound - depth. (s, t) \<in> (edge_rel edges now p) ^^ n)"
proof
  assume "delegates edges now p s t depth bound"
  then show "\<exists>n \<le> Suc bound - depth. (s, t) \<in> (edge_rel edges now p) ^^ n"
    using assms
  proof (induction rule: delegates.induct)
    case (self s depth bound)
    then show ?case by (intro exI [of _ 0]) simp
  next
    case (direct depth bound e s t)
    then have "(s, t) \<in> edge_rel edges now p" by (auto simp: edge_rel_def)
    then show ?case using direct by (intro exI [of _ 1]) simp
  next
    case (via depth bound e s u t)
    then obtain n where "n \<le> Suc bound - (depth + 1)" "(u, t) \<in> (edge_rel edges now p) ^^ n"
      by (auto simp: edge_bound_def)
    moreover have "(s, u) \<in> edge_rel edges now p" using via by (auto simp: edge_rel_def)
    ultimately show ?case using via(1)
      by (intro exI [of _ "Suc n"] conjI relpow_Suc_I2) simp_all
  qed
next
  have "(s, t) \<in> (edge_rel edges now p) ^^ n \<Longrightarrow> n \<le> Suc bound - depth \<Longrightarrow>
      delegates edges now p s t depth bound" for n
  proof (induction n arbitrary: s depth)
    case 0
    then show ?case by (simp add: delegates.self)
  next
    case (Suc n)
    then obtain u where u: "(s, u) \<in> edge_rel edges now p" "(u, t) \<in> (edge_rel edges now p) ^^ n"
      by (meson relpow_Suc_D2)
    then obtain e where e: "e \<in> edges" "usable now p e" "a_principal e = Some s" "a_delegate e = Some u"
      by (auto simp: edge_rel_def)
    have "delegates edges now p u t (depth + 1) bound" using Suc.IH [OF u(2)] Suc.prems(2) by simp
    then have "delegates edges now p u t (depth + 1) (edge_bound bound e)"
      using assms e(1) by (simp add: edge_bound_def)
    then show ?case using Suc.prems(2) by (intro delegates.via [OF _ e]) simp_all
  qed
  then show "\<exists>n \<le> Suc bound - depth. (s, t) \<in> (edge_rel edges now p) ^^ n \<Longrightarrow>
      delegates edges now p s t depth bound" by blast
qed

text \<open>
  Soundness and reach of \<open>etb_delegation_allows\<close>. A positive answer always comes from a path
  of usable edges from the speaker to the target. When no edge bounds the depth itself, the answer
  is exact: it is positive just when there is such a path of at most nine edges (one more than
  the bound 8 passed in, since the bound is compared after the count starts at 0).
\<close>

theorem etb_delegation_allows_sound:
  assumes rel: "etb_relation_set_find (e_relations engine) ''__speaks_for__/2'' = Some relation"
    and named: "named_edges (map f_atom (r_facts relation))"
  shows "(etb_delegation_allows engine (Some s) (Some t) (Some p) now = Inr True \<longrightarrow>
      (s, t) \<in> (edge_rel (f_atom ` set (r_facts relation)) now p)\<^sup>*) \<and>
    ((\<forall>f \<in> set (r_facts relation). d_max_depth (a_delegation (f_atom f)) = 0) \<longrightarrow>
      etb_delegation_allows engine (Some s) (Some t) (Some p) now =
        Inr (\<exists>n \<le> 9. (s, t) \<in> (edge_rel (f_atom ` set (r_facts relation)) now p) ^^ n))"
proof -
  have v: "etb_delegation_allows engine (Some s) (Some t) (Some p) now =
      Inr (delegates (f_atom ` set (r_facts relation)) now p s t 0 8)"
    by (simp add: etb_delegation_allows_def rel visit_iff [OF named])
  show ?thesis
    using delegates_path [of "f_atom ` set (r_facts relation)" now p s t 0 8]
      delegates_steps [of "f_atom ` set (r_facts relation)" now p s t 0 8]
    by (simp add: v)
qed

definition speaks_edge :: "string \<Rightarrow> string \<Rightarrow> u32 \<Rightarrow> etb_fact" where
  "speaks_edge s t depth = \<lparr>f_atom = etb_atom_init\<lparr>a_kind := ETB_ATOM_SPEAKS_FOR, a_principal := Some s,
     a_delegate := Some t, a_delegation := \<lparr>d_scope = None, d_expires_at = 0, d_max_depth = depth\<rparr>\<rparr>,
     f_trace_id = 0, f_from_capability = False\<rparr>"

text \<open>
  A depth bound on an edge does not limit what is delegated beyond it: the bound of each later
  edge replaces it. With the first edge bounded by 1, a chain of four edges is still accepted when
  the next edge carries a bound of 9, and refused when it carries none.
\<close>

theorem edge_bound_is_replaced:
  "etb_delegation_visit (Some [speaks_edge ''a'' ''b'' 1, speaks_edge ''b'' ''c'' 9,
       speaks_edge ''c'' ''d'' 0, speaks_edge ''d'' ''e'' 0])
     (Some ''a'') (Some ''e'') (Some ''p'') now 0 8 = Inr True \<and>
   etb_delegation_visit (Some [speaks_edge ''a'' ''b'' 1, speaks_edge ''b'' ''c'' 0,
       speaks_edge ''c'' ''d'' 0, speaks_edge ''d'' ''e'' 0])
     (Some ''a'') (Some ''e'') (Some ''p'') now 0 8 = Inr False"
proof -
  note eval = visit_unfold named_edges_def direct_edges_def usable_def speaks_edge_def
    etb_atom_init_def edge_bound_def
  show ?thesis by (simp add: eval del: bind_res_eq_Inr)
qed

lemma etb_delegation_visit_iff_witness:
  "delegates (f_atom ` set [speaks_edge ''a'' ''b'' 0]) 0 ''p'' ''a'' ''b'' 0 8"
proof -
  have "etb_delegation_visit (Some [speaks_edge ''a'' ''b'' 0]) (Some ''a'') (Some ''b'') (Some ''p'') 0 0 8 = Inr True"
    by (simp add: visit_unfold named_edges_def direct_edges_def usable_def speaks_edge_def
        etb_atom_init_def del: bind_res_eq_Inr)
  moreover have "named_edges (map f_atom [speaks_edge ''a'' ''b'' 0])"
    by (simp add: named_edges_def speaks_edge_def etb_atom_init_def)
  ultimately show ?thesis
    using etb_delegation_visit_iff [of "[speaks_edge ''a'' ''b'' 0]" "''a''" "''b''" "''p''" 0 0 8] by simp
qed

lemma etb_delegation_allows_sound_witness:
  "etb_delegation_allows (etb_engine_init 0\<lparr>e_relations := [\<lparr>r_key = ''__speaks_for__/2'',
       r_facts = [speaks_edge ''a'' ''b'' 0]\<rparr>]\<rparr>) (Some ''a'') (Some ''b'') (Some ''p'') 0 = Inr True"
proof -
  let ?rel = "\<lparr>r_key = ''__speaks_for__/2'', r_facts = [speaks_edge ''a'' ''b'' 0]\<rparr>"
  let ?engine = "etb_engine_init 0\<lparr>e_relations := [?rel]\<rparr>"
  have "etb_relation_set_find (e_relations ?engine) ''__speaks_for__/2'' = Some ?rel"
    by (simp add: etb_relation_set_find_def)
  moreover have "named_edges (map f_atom (r_facts ?rel))"
    by (simp add: named_edges_def speaks_edge_def etb_atom_init_def)
  ultimately have "etb_delegation_allows ?engine (Some ''a'') (Some ''b'') (Some ''p'') 0 =
      Inr (\<exists>n \<le> 9. (''a'', ''b'') \<in> (edge_rel (f_atom ` set (r_facts ?rel)) 0 ''p'') ^^ n)"
    using etb_delegation_allows_sound [of ?engine ?rel "''a''" "''b''" "''p''" 0]
    by (simp add: speaks_edge_def etb_atom_init_def)
  moreover have "\<exists>n \<le> 9. (''a'', ''b'') \<in> (edge_rel (f_atom ` set (r_facts ?rel)) 0 ''p'') ^^ n"
    by (rule exI [of _ 1]) (simp add: edge_rel_def speaks_edge_def etb_atom_init_def usable_def)
  ultimately show ?thesis by simp
qed

end
