(* ===== verification/Strata.thy ===== *)
theory Strata
  imports Engine_State
begin

text \<open>
  Program validation: \<open>src/engine/strata.c\<close>. Three loops over the clauses collect the relation
  keys of the heads, check the negated literals and the range restriction, and raise the strata
  of the keys until nothing changes or the passes run out. A stratum is a non-negative \<open>int\<close>
  that only ever grows by one above another, far from its bounds, so it is a natural number.

  \<open>etb_program_validate_iff\<close> says exactly which programs are accepted; stratifiability is not
  among the conditions, as \<open>unstratified_accepted\<close> shows.
\<close>

section \<open>String sets\<close>

definition string_set_contains :: "string list \<Rightarrow> string \<Rightarrow> bool" where
  "string_set_contains items s \<longleftrightarrow> list_ex (\<lambda>t. t = s) items"

definition string_set_add :: "string list \<Rightarrow> string \<Rightarrow> string list" where
  "string_set_add items s = (if string_set_contains items s then items else items @ [s])"

text \<open>A null text is compared or duplicated: undefined either way.\<close>

definition etb_string_set_add :: "string list \<Rightarrow> string option \<Rightarrow> string list res" where
  "etb_string_set_add items txt =
     (case txt of None \<Rightarrow> Inl Null_deref | Some s \<Rightarrow> Inr (string_set_add items s))"

interpretation strset: unique_store string_set_contains string_set_add
  by unfold_locales (auto simp: string_set_contains_def string_set_add_def list_ex_iff)

definition etb_collect_atom_variables :: "etb_atom \<Rightarrow> string list \<Rightarrow> string list res" where
  "etb_collect_atom_variables atom items =
     fold_res (\<lambda>t items. if t_kind t = ETB_TERM_VARIABLE
                         then etb_string_set_add items (t_text t) else Inr items)
       (a_terms atom) items"

text \<open>The first index of a key, or \<open>-1\<close>.\<close>

fun key_index_from :: "string list \<Rightarrow> string \<Rightarrow> nat \<Rightarrow> nat option" where
  "key_index_from [] key i = None"
| "key_index_from (k # keys) key i = (if k = key then Some i else key_index_from keys key (i + 1))"

definition etb_key_index :: "string list \<Rightarrow> string \<Rightarrow> nat option" where
  "etb_key_index keys key = key_index_from keys key 0"

section \<open>Validation\<close>

definition collect_key :: "etb_statement \<Rightarrow> string list \<Rightarrow> string list" where
  "collect_key statement keys =
     (case statement of
        ETB_STMT_CAPABILITY _ \<Rightarrow> keys
      | ETB_STMT_CLAUSE c \<Rightarrow>
          (let key = etb_atom_relation_key (cl_head c)
           in case etb_key_index keys key of None \<Rightarrow> keys @ [key] | Some _ \<Rightarrow> keys))"

definition collect_literal ::
    "etb_engine \<Rightarrow> etb_literal \<Rightarrow> string list \<times> string list \<Rightarrow> (string list \<times> string list) res" where
  "collect_literal engine literal = (\<lambda>(positive, constrained).
     bind_res (etb_negated_literal_allowed engine literal) (\<lambda>allowed.
     if \<not> allowed then Inl (Fail ''unsupported negated literal'')
     else if \<not> l_negated literal then
       bind_res (etb_collect_atom_variables (l_atom literal) positive) (\<lambda>positive.
         Inr (positive, constrained))
     else
       bind_res (etb_collect_atom_variables (l_atom literal) constrained) (\<lambda>constrained.
         Inr (positive, constrained))))"

definition check_clause :: "etb_engine \<Rightarrow> etb_clause \<Rightarrow> unit res" where
  "check_clause engine clause =
     bind_res (fold_res (collect_literal engine) (cl_body clause) ([], [])) (\<lambda>(positive, constrained).
     bind_res (etb_collect_atom_variables (cl_head clause) constrained) (\<lambda>constrained.
     if list_all (\<lambda>v. etb_key_index positive v \<noteq> None) constrained then Inr ()
     else Inl (Fail ''range restriction violated'')))"

definition check_statement :: "etb_engine \<Rightarrow> etb_statement \<Rightarrow> unit \<Rightarrow> unit res" where
  "check_statement engine statement = (\<lambda>_.
     case statement of
       ETB_STMT_CAPABILITY _ \<Rightarrow> Inr ()
     | ETB_STMT_CLAUSE c \<Rightarrow> check_clause engine c)"

text \<open>The state of a pass: the strata and whether one changed.\<close>

type_synonym strata_state = "nat list \<times> bool"

definition raise_literal ::
    "etb_engine \<Rightarrow> string list \<Rightarrow> nat \<Rightarrow> etb_literal \<Rightarrow> strata_state \<Rightarrow> strata_state res" where
  "raise_literal engine keys head_index literal = (\<lambda>(strata, changed).
     bind_res (etb_literal_is_capability engine literal) (\<lambda>is_cap.
     if is_cap then Inr (strata, changed)
     else
       case etb_key_index keys (etb_atom_relation_key (l_atom literal)) of
         None \<Rightarrow> Inr (strata, changed)
       | Some body_index \<Rightarrow>
           let needed = strata ! body_index + (if l_negated literal then 1 else 0) in
           if strata ! head_index < needed then Inr (strata[head_index := needed], True)
           else Inr (strata, changed)))"

definition raise_statement ::
    "etb_engine \<Rightarrow> string list \<Rightarrow> etb_statement \<Rightarrow> strata_state \<Rightarrow> strata_state res" where
  "raise_statement engine keys statement st =
     (case statement of
        ETB_STMT_CAPABILITY _ \<Rightarrow> Inr st
      | ETB_STMT_CLAUSE c \<Rightarrow>
          (case etb_key_index keys (etb_atom_relation_key (cl_head c)) of
             None \<Rightarrow> Inr st
           | Some head_index \<Rightarrow> fold_res (raise_literal engine keys head_index) (cl_body c) st))"

primrec strata_passes :: "etb_engine \<Rightarrow> string list \<Rightarrow> nat \<Rightarrow> nat list \<Rightarrow> nat list res" where
  "strata_passes engine keys 0 strata = Inr strata"
| "strata_passes engine keys (Suc passes) strata =
     bind_res (fold_res (raise_statement engine keys) (e_program engine) (strata, False))
       (\<lambda>(strata, changed). if \<not> changed then Inr strata else strata_passes engine keys passes strata)"

definition program_keys :: "etb_program \<Rightarrow> string list" where
  "program_keys program = fold collect_key program []"

definition etb_program_validate :: "etb_engine \<Rightarrow> nat list res" where
  "etb_program_validate engine =
     (let keys = program_keys (e_program engine) in
      bind_res (fold_res (check_statement engine) (e_program engine) ()) (\<lambda>_.
        strata_passes engine keys (length keys + 4) (replicate (length keys) 0)))"

section \<open>What is accepted\<close>

lemma key_index_from_Some:
  "key_index_from keys key i = Some j \<Longrightarrow> i \<le> j \<and> j - i < length keys \<and> keys ! (j - i) = key"
proof (induction keys arbitrary: i)
  case Nil
  then show ?case by simp
next
  case (Cons k keys)
  then show ?case by (cases "k = key") (fastforce simp: nth_Cons' split: if_splits)+
qed

lemma key_index_from_None: "key_index_from keys key i = None \<longleftrightarrow> key \<notin> set keys"
  by (induction keys arbitrary: i) auto

lemma key_index_Some: "etb_key_index keys key = Some j \<Longrightarrow> j < length keys \<and> keys ! j = key"
  using key_index_from_Some [of keys key 0 j] by (simp add: etb_key_index_def)

lemma key_index_None: "etb_key_index keys key = None \<longleftrightarrow> key \<notin> set keys"
  by (simp add: etb_key_index_def key_index_from_None)

definition atom_vars :: "etb_atom \<Rightarrow> string set" where
  "atom_vars a = {x. \<exists>t \<in> set (a_terms a). t_kind t = ETB_TERM_VARIABLE \<and> t_text t = Some x}"

lemma collect_variables:
  assumes "list_all wf_term (a_terms a)"
  shows "\<exists>items'. etb_collect_atom_variables a items = Inr items' \<and> set items' = set items \<union> atom_vars a"
proof -
  have "\<exists>items'. fold_res (\<lambda>t items. if t_kind t = ETB_TERM_VARIABLE
        then etb_string_set_add items (t_text t) else Inr items) ts items = Inr items' \<and>
      set items' = set items \<union> {x. \<exists>t \<in> set ts. t_kind t = ETB_TERM_VARIABLE \<and> t_text t = Some x}"
    if "list_all wf_term ts" for ts
    using that
  proof (induction ts arbitrary: items)
    case Nil
    then show ?case by simp
  next
    case (Cons t ts)
    show ?case
    proof (cases "t_kind t = ETB_TERM_VARIABLE")
      case False
      then show ?thesis using Cons by simp
    next
      case True
      then obtain x where x: "t_text t = Some x" using Cons.prems by (auto simp: wf_term_def)
      obtain items' where "fold_res (\<lambda>t items. if t_kind t = ETB_TERM_VARIABLE
          then etb_string_set_add items (t_text t) else Inr items) ts (string_set_add items x) = Inr items'"
        "set items' = set (string_set_add items x) \<union>
          {x. \<exists>t \<in> set ts. t_kind t = ETB_TERM_VARIABLE \<and> t_text t = Some x}"
        using Cons.IH [of "string_set_add items x"] Cons.prems by auto
      then show ?thesis using True x by (auto simp: etb_string_set_add_def strset.set_add)
    qed
  qed
  then show ?thesis using assms by (simp add: etb_collect_atom_variables_def atom_vars_def)
qed

definition capability_call :: "etb_engine \<Rightarrow> etb_atom \<Rightarrow> bool" where
  "capability_call engine a \<longleftrightarrow> a_kind a = ETB_ATOM_PREDICATE \<and>
     List.find (\<lambda>d. c_arity d = length (a_terms a) \<and> c_name d = a_predicate a) (e_capabilities engine) \<noteq> None"

text \<open>The conditions on a clause.\<close>

definition negation_supported :: "etb_engine \<Rightarrow> etb_literal \<Rightarrow> bool" where
  "negation_supported engine l \<longleftrightarrow>
     \<not> l_negated l \<or> a_kind (l_atom l) = ETB_ATOM_PREDICATE \<and> \<not> capability_call engine (l_atom l)"

definition positive_vars :: "etb_clause \<Rightarrow> string set" where
  "positive_vars c = (\<Union>l \<in> set (cl_body c). if l_negated l then {} else atom_vars (l_atom l))"

definition constrained_vars :: "etb_clause \<Rightarrow> string set" where
  "constrained_vars c = atom_vars (cl_head c) \<union>
     (\<Union>l \<in> set (cl_body c). if l_negated l then atom_vars (l_atom l) else {})"

definition clause_accepted :: "etb_engine \<Rightarrow> etb_clause \<Rightarrow> bool" where
  "clause_accepted engine c \<longleftrightarrow>
     list_all (negation_supported engine) (cl_body c) \<and> constrained_vars c \<subseteq> positive_vars c"

lemma negated_allowed_eq:
  "registry_ok (e_capabilities engine) \<Longrightarrow> wf_literal l \<Longrightarrow>
     etb_negated_literal_allowed engine l = Inr (negation_supported engine l)"
  by (auto simp: etb_negated_literal_allowed_def negation_supported_def is_capability_eq
      capability_call_def)

lemma collect_literal_eq:
  assumes "registry_ok (e_capabilities engine)" and "wf_literal l"
  shows "if negation_supported engine l
     then \<exists>p c. collect_literal engine l (pos, con) = Inr (p, c) \<and>
       set p = set pos \<union> (if l_negated l then {} else atom_vars (l_atom l)) \<and>
       set c = set con \<union> (if l_negated l then atom_vars (l_atom l) else {})
     else collect_literal engine l (pos, con) = Inl (Fail ''unsupported negated literal'')"
proof -
  have wf: "list_all wf_term (a_terms (l_atom l))" using assms(2) by (simp add: wf_literal_def wf_atom_def)
  obtain p where "etb_collect_atom_variables (l_atom l) pos = Inr p"
    "set p = set pos \<union> atom_vars (l_atom l)" using collect_variables [OF wf] by blast
  moreover obtain c where "etb_collect_atom_variables (l_atom l) con = Inr c"
    "set c = set con \<union> atom_vars (l_atom l)" using collect_variables [OF wf] by blast
  ultimately show ?thesis
    using negated_allowed_eq [OF assms] by (simp add: collect_literal_def)
qed

lemma collect_body_eq:
  assumes "registry_ok (e_capabilities engine)"
  shows "list_all wf_literal ls \<Longrightarrow>
    (if list_all (negation_supported engine) ls
     then \<exists>p c. fold_res (collect_literal engine) ls (pos, con) = Inr (p, c) \<and>
       set p = set pos \<union> (\<Union>l \<in> set ls. if l_negated l then {} else atom_vars (l_atom l)) \<and>
       set c = set con \<union> (\<Union>l \<in> set ls. if l_negated l then atom_vars (l_atom l) else {})
     else fold_res (collect_literal engine) ls (pos, con) = Inl (Fail ''unsupported negated literal''))"
proof (induction ls arbitrary: pos con)
  case Nil
  then show ?case by simp
next
  case (Cons l ls)
  note step = collect_literal_eq [OF assms, of l pos con]
  show ?case
  proof (cases "negation_supported engine l")
    case False
    then show ?thesis using step Cons.prems by simp
  next
    case True
    then obtain p c where pc: "collect_literal engine l (pos, con) = Inr (p, c)"
      "set p = set pos \<union> (if l_negated l then {} else atom_vars (l_atom l))"
      "set c = set con \<union> (if l_negated l then atom_vars (l_atom l) else {})"
      using step Cons.prems by auto
    show ?thesis using Cons.IH [of p c] Cons.prems True pc by (auto simp: Un_assoc)
  qed
qed

lemma check_clause_eq:
  assumes "registry_ok (e_capabilities engine)" and "wf_clause c"
  shows "if clause_accepted engine c then check_clause engine c = Inr ()
    else \<exists>msg. check_clause engine c = Inl (Fail msg)"
proof (cases "list_all (negation_supported engine) (cl_body c)")
  case False
  then show ?thesis
    using collect_body_eq [OF assms(1), of "cl_body c" "[]" "[]"] assms(2)
    by (simp add: check_clause_def clause_accepted_def wf_clause_def)
next
  case True
  obtain pos con where body: "fold_res (collect_literal engine) (cl_body c) ([], []) = Inr (pos, con)"
    "set pos = positive_vars c"
    "set con = (\<Union>l \<in> set (cl_body c). if l_negated l then atom_vars (l_atom l) else {})"
    using collect_body_eq [OF assms(1), of "cl_body c" "[]" "[]"] assms(2) True
    by (auto simp: wf_clause_def positive_vars_def)
  obtain con' where "etb_collect_atom_variables (cl_head c) con = Inr con'"
    "set con' = set con \<union> atom_vars (cl_head c)"
    using collect_variables [of "cl_head c" con] assms(2) by (auto simp: wf_clause_def wf_atom_def)
  then show ?thesis
    using body True
    by (auto simp: check_clause_def clause_accepted_def constrained_vars_def list_all_iff
        key_index_None)
qed

section \<open>The strata as a least solution\<close>

text \<open>
  A clause head \<open>h\<close> and a body literal \<open>b\<close> ask for \<open>stratum b + w \<le> stratum h\<close>, with
  \<open>w = 1\<close> for a negated literal. A pass relaxes the constraints in order, as in the
  Bellman-Ford algorithm.
\<close>

type_synonym strata_constraint = "nat \<times> nat \<times> nat"

definition relax :: "strata_constraint \<Rightarrow> strata_state \<Rightarrow> strata_state" where
  "relax = (\<lambda>(h, b, w) (s, changed).
     if s ! h < s ! b + w then (s[h := s ! b + w], True) else (s, changed))"

primrec relax_passes :: "strata_constraint list \<Rightarrow> nat \<Rightarrow> nat list \<Rightarrow> nat list" where
  "relax_passes C 0 s = s"
| "relax_passes C (Suc n) s =
     (case fold relax C (s, False) of (s', changed) \<Rightarrow> if changed then relax_passes C n s' else s')"

definition solution :: "strata_constraint list \<Rightarrow> nat list \<Rightarrow> bool" where
  "solution C S \<longleftrightarrow> (\<forall>(h, b, w) \<in> set C. S ! b + w \<le> S ! h)"

definition below :: "nat list \<Rightarrow> nat list \<Rightarrow> bool" where
  "below s t \<longleftrightarrow> list_all2 (\<le>) s t"

definition in_range :: "nat \<Rightarrow> strata_constraint list \<Rightarrow> bool" where
  "in_range n C \<longleftrightarrow> (\<forall>(h, b, w) \<in> set C. h < n \<and> b < n)"

lemma below_nth: "below s t \<longleftrightarrow> length s = length t \<and> (\<forall>i < length t. s ! i \<le> t ! i)"
  by (auto simp: below_def list_all2_conv_all_nth)

lemma below_refl [simp]: "below s s"
  by (simp add: below_nth)

lemma below_trans: "below s t \<Longrightarrow> below t u \<Longrightarrow> below s u"
  by (fastforce simp: below_nth)

lemma below_antisym: "below s t \<Longrightarrow> below t s \<Longrightarrow> s = t"
  by (auto simp: below_nth intro!: nth_equalityI antisym)

lemma relax_grows: "fst c < length s \<Longrightarrow> below s (fst (relax c (s, ch)))"
  by (auto simp: relax_def below_nth nth_list_update split: prod.splits)

lemma fold_relax_grows:
  "in_range (length s) C \<Longrightarrow> below s (fst (fold relax C (s, ch)))"
proof (induction C arbitrary: s ch)
  case Nil
  then show ?case by simp
next
  case (Cons c C)
  obtain s1 ch1 where r: "relax c (s, ch) = (s1, ch1)" by fastforce
  have "below s s1" using relax_grows [of c s ch] Cons.prems r by (auto simp: in_range_def)
  moreover have "below s1 (fst (fold relax C (s1, ch1)))"
    using Cons.IH [of s1 ch1] Cons.prems \<open>below s s1\<close> by (auto simp: in_range_def below_nth)
  ultimately show ?case using r below_trans by simp
qed

lemma fold_relax_reaches:
  "in_range (length s) C \<Longrightarrow> (h, b, w) \<in> set C \<Longrightarrow>
     s ! b + w \<le> fst (fold relax C (s, ch)) ! h"
proof (induction C arbitrary: s ch)
  case Nil
  then show ?case by simp
next
  case (Cons c C)
  obtain s1 ch1 where r: "relax c (s, ch) = (s1, ch1)" by fastforce
  have le: "below s s1" using relax_grows [of c s ch] Cons.prems r by (auto simp: in_range_def)
  have rng: "in_range (length s1) C" using Cons.prems le by (auto simp: in_range_def below_nth)
  have hb: "h < length s" "b < length s" using Cons.prems by (auto simp: in_range_def)
  show ?case
  proof (cases "c = (h, b, w)")
    case True
    then have "s ! b + w \<le> s1 ! h" using r hb by (auto simp: relax_def split: if_splits)
    moreover have "s1 ! h \<le> fst (fold relax C (s1, ch1)) ! h"
      using fold_relax_grows [OF rng, of ch1] hb le by (auto simp: below_nth)
    ultimately show ?thesis using r by simp
  next
    case False
    then have "s1 ! b + w \<le> fst (fold relax C (s1, ch1)) ! h"
      using Cons.IH [OF rng] Cons.prems(2) by simp
    moreover have "s ! b \<le> s1 ! b" using le hb by (auto simp: below_nth)
    ultimately show ?thesis using r by simp
  qed
qed

lemma fold_relax_below:
  "in_range (length s) C \<Longrightarrow> solution C S \<Longrightarrow> below s S \<Longrightarrow> below (fst (fold relax C (s, ch))) S"
proof (induction C arbitrary: s ch)
  case Nil
  then show ?case by simp
next
  case (Cons c C)
  obtain h b w where c: "c = (h, b, w)" by (cases c)
  obtain s1 ch1 where r: "relax c (s, ch) = (s1, ch1)" by fastforce
  have "s ! b + w \<le> S ! h"
    using Cons.prems c by (fastforce simp: solution_def below_nth in_range_def)
  then have "below s1 S" using r c Cons.prems(1,3)
    by (auto simp: relax_def below_nth nth_list_update in_range_def split: if_splits)
  moreover have "length s1 = length s" using r by (auto simp: relax_def split: prod.splits if_splits)
  ultimately show ?case
    using Cons.IH [of s1 ch1] Cons.prems r by (auto simp: solution_def in_range_def)
qed

lemma fold_relax_changed: "snd (fold relax C (s, True))"
proof (induction C arbitrary: s)
  case Nil
  then show ?case by simp
next
  case (Cons c C)
  obtain s1 where "relax c (s, True) = (s1, True)"
    by (cases c, cases "s ! fst c < s ! fst (snd c) + snd (snd c)") (simp_all add: relax_def)
  then show ?case using Cons.IH by simp
qed

lemma fold_relax_settled:
  "\<not> snd (fold relax C (s, False)) \<Longrightarrow> fst (fold relax C (s, False)) = s \<and> solution C s"
proof (induction C)
  case Nil
  then show ?case by (simp add: solution_def)
next
  case (Cons c C)
  obtain h b w where c: "c = (h, b, w)" by (cases c)
  have "\<not> s ! h < s ! b + w"
    using Cons.prems fold_relax_changed [of C "s[h := s ! b + w]"] by (auto simp: relax_def c)
  then show ?case using Cons by (auto simp: relax_def c solution_def)
qed

text \<open>
  The pass argument. Let \<open>S\<close> be a solution with the least sum and \<open>s\<close> below it. If \<open>s\<close> differs
  from \<open>S\<close>, some unfinished key has a tight constraint from a finished one (otherwise lowering
  every unfinished key by one would give a smaller solution), and the next pass finishes it.
\<close>

definition unfinished :: "nat list \<Rightarrow> nat list \<Rightarrow> nat set" where
  "unfinished S s = {i. i < length S \<and> s ! i \<noteq> S ! i}"

lemma tight_constraint:
  assumes min: "\<And>T. length T = length S \<Longrightarrow> solution C T \<Longrightarrow> sum_list S \<le> sum_list T"
    and sol: "solution C S" and rng: "in_range (length S) C" and le: "below s S" and ne: "s \<noteq> S"
  shows "\<exists>(h, b, w) \<in> set C. h \<in> unfinished S s \<and> b \<notin> unfinished S s \<and> S ! b + w = S ! h"
proof (rule ccontr)
  assume none: "\<not> ?thesis"
  let ?T = "map (\<lambda>i. if i \<in> unfinished S s then S ! i - 1 else S ! i) [0..<length S]"
  have lower: "S ! i \<noteq> 0" if "i \<in> unfinished S s" for i
    using that le by (auto simp: unfinished_def below_nth)
  have "solution C ?T"
    unfolding solution_def
  proof (intro ballI, clarify)
    fix h b w assume c: "(h, b, w) \<in> set C"
    then have hb: "h < length S" "b < length S" and ok: "S ! b + w \<le> S ! h"
      using sol rng by (auto simp: solution_def in_range_def)
    have "h \<in> unfinished S s \<Longrightarrow> b \<notin> unfinished S s \<Longrightarrow> S ! b + w < S ! h"
      using none c ok by (fastforce simp: le_less)
    then show "?T ! b + w \<le> ?T ! h" using hb ok lower [of b] lower [of h] by auto
  qed
  then have "sum_list S \<le> sum_list ?T" using min by simp
  moreover obtain i where i: "i \<in> unfinished S s" "i < length S"
    using ne le by (auto simp: unfinished_def below_nth list_eq_iff_nth_eq)
  have "sum_list ?T = (\<Sum>i<length S. if i \<in> unfinished S s then S ! i - 1 else S ! i)"
    by (simp add: interv_sum_list_conv_sum_set_nat atLeast0LessThan)
  moreover have "sum_list S = (\<Sum>i<length S. S ! i)"
    by (simp add: sum_list_sum_nth atLeast0LessThan)
  moreover have "(\<Sum>i<length S. if i \<in> unfinished S s then S ! i - 1 else S ! i) < (\<Sum>i<length S. S ! i)"
    using i lower [OF i(1)] by (intro sum_strict_mono_ex1 bexI [of _ i]) auto
  ultimately show False by simp
qed

lemma pass_finishes:
  assumes min: "\<And>T. length T = length S \<Longrightarrow> solution C T \<Longrightarrow> sum_list S \<le> sum_list T"
    and sol: "solution C S" and rng: "in_range (length S) C" and le: "below s S" and ne: "s \<noteq> S"
  shows "card (unfinished S (fst (fold relax C (s, False)))) < card (unfinished S s)"
proof -
  let ?s' = "fst (fold relax C (s, False))"
  have len: "length s = length S" using le by (simp add: below_nth)
  obtain h b w where c: "(h, b, w) \<in> set C" "h \<in> unfinished S s" "b \<notin> unfinished S s" "S ! b + w = S ! h"
    using tight_constraint [OF min sol rng le ne] by auto
  have le': "below ?s' S" using fold_relax_below [of s C S False] rng sol le len by simp
  have grow: "below s ?s'" using fold_relax_grows [of s C False] rng len by simp
  have "s ! b = S ! b" using c(1,3) rng by (auto simp: unfinished_def in_range_def)
  then have "S ! h \<le> ?s' ! h" using fold_relax_reaches [of s C h b w False] rng len c by simp
  then have "?s' ! h = S ! h" using le' c(2) by (auto simp: below_nth unfinished_def intro: antisym)
  then have "h \<notin> unfinished S ?s'" by (simp add: unfinished_def)
  moreover have "unfinished S ?s' \<subseteq> unfinished S s"
  proof
    fix i assume i: "i \<in> unfinished S ?s'"
    then have "s ! i \<le> ?s' ! i" "?s' ! i \<le> S ! i" "?s' ! i \<noteq> S ! i"
      using grow le' by (auto simp: below_nth unfinished_def)
    then show "i \<in> unfinished S s" using i by (auto simp: unfinished_def)
  qed
  ultimately have "unfinished S ?s' \<subset> unfinished S s" using c(2) by blast
  then show ?thesis by (intro psubset_card_mono) (simp_all add: unfinished_def)
qed

lemma relax_passes_least:
  assumes min: "\<And>T. length T = length S \<Longrightarrow> solution C T \<Longrightarrow> sum_list S \<le> sum_list T"
    and sol: "solution C S" and rng: "in_range (length S) C"
  shows "below s S \<Longrightarrow> card (unfinished S s) \<le> n \<Longrightarrow> relax_passes C n s = S"
proof (induction n arbitrary: s)
  case 0
  then have "unfinished S s = {}" by (simp add: unfinished_def)
  then show ?case using 0 by (auto simp: unfinished_def below_nth list_eq_iff_nth_eq)
next
  case (Suc n)
  obtain s' ch where st: "fold relax C (s, False) = (s', ch)" by fastforce
  have len: "length s = length S" using Suc.prems(1) by (simp add: below_nth)
  have le': "below s' S" using fold_relax_below [of s C S False] rng sol Suc.prems(1) len st by simp
  show ?case
  proof (cases ch)
    case False
    then have fix_s: "s' = s" "solution C s" using fold_relax_settled [of C s] st by auto
    have "s = S"
    proof (rule ccontr)
      assume "s \<noteq> S"
      then show False using pass_finishes [OF min sol rng Suc.prems(1)] st fix_s(1) by simp
    qed
    then show ?thesis using st False fix_s by simp
  next
    case True
    have "s \<noteq> S"
    proof
      assume "s = S"
      then have "s' = S" "\<not> ch"
      proof -
        have "fold relax C (S, False) = (S, False)"
          using sol by (induction C) (auto simp: solution_def relax_def)
        then show "s' = S" "\<not> ch" using st \<open>s = S\<close> by auto
      qed
      with True show False by simp
    qed
    then have "card (unfinished S s') \<le> n"
      using pass_finishes [OF min sol rng Suc.prems(1)] st Suc.prems(2) by simp
    then show ?thesis using Suc.IH [OF le'] st True by simp
  qed
qed

lemma least_solution_exists:
  assumes "solution C T" and "length T = n"
  obtains S where "solution C S" "length S = n"
    "\<And>U. length U = n \<Longrightarrow> solution C U \<Longrightarrow> sum_list S \<le> sum_list U"
proof -
  obtain S where "solution C S \<and> length S = n"
    "\<And>U. solution C U \<and> length U = n \<Longrightarrow> sum_list S \<le> sum_list U"
    using ex_has_least_nat [of "\<lambda>S. solution C S \<and> length S = n" T sum_list] assms by auto
  then show ?thesis using that by blast
qed

lemma relax_passes_below:
  "in_range (length s) C \<Longrightarrow> solution C T \<Longrightarrow> below s T \<Longrightarrow> below (relax_passes C n s) T"
proof (induction n arbitrary: s)
  case 0
  then show ?case by simp
next
  case (Suc n)
  obtain s' ch where st: "fold relax C (s, False) = (s', ch)" by fastforce
  have "below s' T" using fold_relax_below [of s C T False] Suc.prems st by simp
  moreover have "length s' = length s"
    using fold_relax_grows [of s C False] Suc.prems(1) st by (simp add: below_nth)
  ultimately show ?case using Suc.IH [of s'] Suc.prems st by simp
qed

lemma relax_passes_solves:
  assumes sol: "solution C T" and len: "length T = n" and rng: "in_range n C" and m: "n \<le> m"
  shows "solution C (relax_passes C m (replicate n 0)) \<and> below (relax_passes C m (replicate n 0)) T"
proof -
  obtain S where S: "solution C S" "length S = n"
    "\<And>U. length U = n \<Longrightarrow> solution C U \<Longrightarrow> sum_list S \<le> sum_list U"
    using least_solution_exists [OF sol len] by blast
  have "card (unfinished S (replicate n 0)) \<le> card {..<n}"
    using S(2) by (intro card_mono) (auto simp: unfinished_def)
  then have "relax_passes C m (replicate n 0) = S"
    using relax_passes_least [of S C "replicate n 0" m] S rng m by (simp add: below_nth)
  then show ?thesis
    using S(1) relax_passes_below [of "replicate n 0" C T m] sol rng len by (simp add: below_nth)
qed

section \<open>The code's passes\<close>

text \<open>The constraints a program poses on its keys.\<close>

definition clause_constraints :: "etb_engine \<Rightarrow> string list \<Rightarrow> etb_clause \<Rightarrow> strata_constraint list" where
  "clause_constraints engine keys c =
     (case etb_key_index keys (etb_atom_relation_key (cl_head c)) of
        None \<Rightarrow> []
      | Some h \<Rightarrow> concat (map (\<lambda>l.
          if capability_call engine (l_atom l) then []
          else case etb_key_index keys (etb_atom_relation_key (l_atom l)) of
                 None \<Rightarrow> []
               | Some b \<Rightarrow> [(h, b, if l_negated l then 1 else 0)]) (cl_body c)))"

definition program_constraints :: "etb_engine \<Rightarrow> string list \<Rightarrow> etb_program \<Rightarrow> strata_constraint list" where
  "program_constraints engine keys program =
     concat (map (\<lambda>s. case s of ETB_STMT_CLAUSE c \<Rightarrow> clause_constraints engine keys c
                              | ETB_STMT_CAPABILITY _ \<Rightarrow> []) program)"

lemma raise_literals_eq:
  assumes "registry_ok (e_capabilities engine)"
  shows "list_all wf_literal ls \<Longrightarrow> fold_res (raise_literal engine keys h) ls st =
    Inr (fold relax (concat (map (\<lambda>l.
          if capability_call engine (l_atom l) then []
          else case etb_key_index keys (etb_atom_relation_key (l_atom l)) of
                 None \<Rightarrow> []
               | Some b \<Rightarrow> [(h, b, if l_negated l then 1 else 0)]) ls)) st)"
proof (induction ls arbitrary: st)
  case Nil
  then show ?case by simp
next
  case (Cons l ls)
  obtain s ch where st: "st = (s, ch)" by (cases st)
  have "raise_literal engine keys h l st = Inr (fold relax (if capability_call engine (l_atom l) then []
          else case etb_key_index keys (etb_atom_relation_key (l_atom l)) of
                 None \<Rightarrow> []
               | Some b \<Rightarrow> [(h, b, if l_negated l then 1 else 0)]) st)"
    using Cons.prems is_capability_eq [OF assms, of l]
    by (auto simp: raise_literal_def st capability_call_def relax_def Let_def split: option.split)
  then show ?case using Cons by (simp add: comp_def del: bind_res_eq_Inr)
qed

lemma raise_statements_eq:
  assumes "registry_ok (e_capabilities engine)"
  shows "list_all wf_statement program \<Longrightarrow> fold_res (raise_statement engine keys) program st =
    Inr (fold relax (program_constraints engine keys program) st)"
proof (induction program arbitrary: st)
  case Nil
  then show ?case by (simp add: program_constraints_def)
next
  case (Cons s program)
  have "raise_statement engine keys s st = Inr (fold relax (program_constraints engine keys [s]) st)"
    using Cons.prems raise_literals_eq [OF assms]
    by (cases st)
      (auto simp: raise_statement_def program_constraints_def clause_constraints_def wf_statement_def
        wf_clause_def split: etb_statement.split option.split)
  then show ?case using Cons by (simp add: program_constraints_def comp_def del: bind_res_eq_Inr)
qed

lemma strata_passes_eq:
  assumes "registry_ok (e_capabilities engine)" and "wf_program (e_program engine)"
  shows "strata_passes engine keys n s =
    Inr (relax_passes (program_constraints engine keys (e_program engine)) n s)"
  using raise_statements_eq [OF assms(1)] assms(2)
  by (induction n arbitrary: s) (auto simp: wf_program_def split: prod.splits)

lemma key_index_lt: "etb_key_index keys key = Some j \<Longrightarrow> j < length keys"
  using key_index_Some by blast

lemma program_constraints_in_range: "in_range (length keys) (program_constraints engine keys program)"
  by (auto simp: in_range_def program_constraints_def clause_constraints_def
      split: etb_statement.splits option.splits if_splits dest: key_index_lt [OF sym])

lemma check_statement_simps:
  "check_statement engine (ETB_STMT_CAPABILITY d) u = Inr ()"
  "check_statement engine (ETB_STMT_CLAUSE c) u = check_clause engine c"
  by (simp_all add: check_statement_def)

lemma check_statements_eq:
  assumes "registry_ok (e_capabilities engine)"
  shows "list_all wf_statement program \<Longrightarrow>
    (if \<forall>c. ETB_STMT_CLAUSE c \<in> set program \<longrightarrow> clause_accepted engine c
     then fold_res (check_statement engine) program () = Inr ()
     else \<exists>msg. fold_res (check_statement engine) program () = Inl (Fail msg))"
proof (induction program)
  case Nil
  then show ?case by simp
next
  case (Cons s program)
  show ?case
  proof (cases s)
    case (ETB_STMT_CAPABILITY d)
    then show ?thesis using Cons by (simp add: check_statement_simps)
  next
    case (ETB_STMT_CLAUSE c)
    then have "wf_clause c" using Cons.prems by (simp add: wf_statement_def)
    then show ?thesis
      using ETB_STMT_CLAUSE Cons check_clause_eq [OF assms, of c]
      by (cases "clause_accepted engine c") (auto simp: check_statement_simps)
  qed
qed

definition program_accepted :: "etb_engine \<Rightarrow> bool" where
  "program_accepted engine \<longleftrightarrow>
     (\<forall>c. ETB_STMT_CLAUSE c \<in> set (e_program engine) \<longrightarrow> clause_accepted engine c)"

lemma validate_eq:
  assumes "registry_ok (e_capabilities engine)" and "wf_program (e_program engine)"
  shows "if program_accepted engine
    then etb_program_validate engine =
      Inr (relax_passes (program_constraints engine (program_keys (e_program engine)) (e_program engine))
        (length (program_keys (e_program engine)) + 4) (replicate (length (program_keys (e_program engine))) 0))
    else \<exists>msg. etb_program_validate engine = Inl (Fail msg)"
  using check_statements_eq [OF assms(1), of "e_program engine"] assms
  by (auto simp: etb_program_validate_def Let_def program_accepted_def wf_program_def strata_passes_eq
      split: if_splits)

text \<open>
  C18. The acceptance condition. On well-formed programs validation meets no null pointer and
  accepts exactly the programs each of whose clauses is range restricted (every variable of the
  head and of the negated literals occurs in a positive literal) and negates only ordinary
  predicates that are no capability calls.
\<close>

theorem etb_program_validate_iff:
  assumes "registry_ok (e_capabilities engine)" and "wf_program (e_program engine)"
  shows "safe (etb_program_validate engine) \<and>
    ((\<exists>strata. etb_program_validate engine = Inr strata) \<longleftrightarrow> program_accepted engine)"
  using validate_eq [OF assms] by (auto split: if_splits)

definition stratified_by :: "etb_engine \<Rightarrow> nat list \<Rightarrow> bool" where
  "stratified_by engine strata \<longleftrightarrow>
     length strata = length (program_keys (e_program engine)) \<and>
     solution (program_constraints engine (program_keys (e_program engine)) (e_program engine)) strata"

text \<open>
  C17. For a stratifiable program the strata computed are a stratification, and the least one:
  the bound of \<open>key_count + 4\<close> passes is enough for the passes to settle.
\<close>

theorem etb_program_validate_strata:
  assumes "registry_ok (e_capabilities engine)" and "wf_program (e_program engine)"
    and "etb_program_validate engine = Inr strata" and "stratified_by engine other"
  shows "stratified_by engine strata \<and> below strata other"
proof -
  let ?keys = "program_keys (e_program engine)"
  let ?C = "program_constraints engine ?keys (e_program engine)"
  have "strata = relax_passes ?C (length ?keys + 4) (replicate (length ?keys) 0)"
    using validate_eq [OF assms(1,2)] assms(3) by (auto split: if_splits)
  then have "solution ?C strata \<and> below strata other"
    using relax_passes_solves [of ?C other "length ?keys" "length ?keys + 4"]
      program_constraints_in_range assms(4) by (simp add: stratified_by_def)
  then show ?thesis using assms(4) by (simp add: stratified_by_def below_nth)
qed

lemma dec_0: "dec 0 = ''0''"
  by code_simp

definition nullary :: "string \<Rightarrow> etb_atom" where
  "nullary p = etb_atom_init\<lparr>a_predicate := Some p\<rparr>"

definition self_denial :: etb_engine where
  "self_denial = (etb_engine_init 0)\<lparr>e_program := [ETB_STMT_CLAUSE
     \<lparr>cl_head = nullary ''p'', cl_body = [\<lparr>l_negated = True, l_atom = nullary ''p''\<rparr>], cl_source_line = 1\<rparr>]\<rparr>"

text \<open>
  Stratifiability itself is not checked: the program \<open>p :- not p.\<close> has no stratification
  and is accepted, with the strata the last pass happened to leave.
\<close>

theorem unstratified_accepted:
  "etb_program_validate self_denial = Inr [5] \<and> \<not> (\<exists>strata. stratified_by self_denial strata)"
proof
  have key: "etb_atom_relation_key (nullary ''p'') = ''p/0''"
    by (simp add: etb_atom_relation_key_def nullary_def etb_atom_init_def fmt_s_def dec_0)
  have keys: "program_keys (e_program self_denial) = [''p/0'']"
    by (simp add: program_keys_def self_denial_def collect_key_def key etb_key_index_def)
  have acc: "program_accepted self_denial"
    by (simp add: program_accepted_def self_denial_def clause_accepted_def negation_supported_def
        capability_call_def etb_engine_init_def nullary_def etb_atom_init_def constrained_vars_def atom_vars_def)
  have wf: "registry_ok (e_capabilities self_denial)" "wf_program (e_program self_denial)"
    by (simp_all add: self_denial_def etb_engine_init_def registry_ok_def wf_program_def wf_statement_def
        wf_clause_def wf_literal_def nullary_def wf_atom_def etb_atom_init_def)
  have cons: "program_constraints self_denial [''p/0''] (e_program self_denial) = [(0, 0, 1)]"
    by (simp add: program_constraints_def clause_constraints_def self_denial_def key etb_key_index_def
        capability_call_def etb_engine_init_def)
  show "etb_program_validate self_denial = Inr [5]"
    using validate_eq [OF wf] acc by (simp add: keys cons relax_def eval_nat_numeral)
  show "\<not> (\<exists>strata. stratified_by self_denial strata)"
    by (simp add: stratified_by_def keys cons solution_def)
qed

definition negation_engine :: etb_engine where
  "negation_engine = (etb_engine_init 0)\<lparr>e_program := [
     ETB_STMT_CLAUSE \<lparr>cl_head = nullary ''p'', cl_body = [\<lparr>l_negated = True, l_atom = nullary ''q''\<rparr>],
       cl_source_line = 1\<rparr>,
     ETB_STMT_CLAUSE \<lparr>cl_head = nullary ''q'', cl_body = [], cl_source_line = 2\<rparr>]\<rparr>"

lemma nullary_key: "etb_atom_relation_key (nullary p) = p @ ''/0''"
  by (simp add: etb_atom_relation_key_def nullary_def etb_atom_init_def fmt_s_def dec_0)

lemma negation_engine_ok:
  "registry_ok (e_capabilities negation_engine)" "wf_program (e_program negation_engine)"
  "program_accepted negation_engine"
  by (simp_all add: negation_engine_def etb_engine_init_def registry_ok_def wf_program_def wf_statement_def
      wf_clause_def wf_literal_def nullary_def wf_atom_def etb_atom_init_def program_accepted_def
      clause_accepted_def negation_supported_def capability_call_def constrained_vars_def atom_vars_def)

lemma negation_engine_stratified: "stratified_by negation_engine [1, 0]"
proof -
  have keys: "program_keys (e_program negation_engine) = [''p/0'', ''q/0'']"
    by (simp add: program_keys_def negation_engine_def collect_key_def nullary_key etb_key_index_def)
  have "program_constraints negation_engine [''p/0'', ''q/0''] (e_program negation_engine) = [(0, 1, 1)]"
    by (simp add: program_constraints_def negation_engine_def clause_constraints_def nullary_key
        etb_key_index_def capability_call_def etb_engine_init_def)
  then show ?thesis by (simp add: stratified_by_def keys solution_def)
qed

lemma etb_program_validate_iff_witness:
  "\<exists>strata. etb_program_validate negation_engine = Inr strata"
  using etb_program_validate_iff [OF negation_engine_ok(1,2)] negation_engine_ok(3) by blast

lemma etb_program_validate_strata_witness:
  "\<exists>strata. etb_program_validate negation_engine = Inr strata \<and> stratified_by negation_engine strata"
proof -
  obtain strata where v: "etb_program_validate negation_engine = Inr strata"
    using validate_eq [OF negation_engine_ok(1,2)] negation_engine_ok(3) by auto
  show ?thesis
    using etb_program_validate_strata [OF negation_engine_ok(1,2) v negation_engine_stratified] v by blast
qed

end
