(* ===== verification/Eval.thy ===== *)
theory Eval
  imports Delegation Strata
begin

text \<open>
  Evaluation: \<open>src/engine/eval.c\<close> from \<open>etb_fact_valid_now\<close> on. A literal is matched against
  the tables (or handed to a capability), which yields the evaluation states that continue; a clause
  body is the depth-first composition of its literals; a pass evaluates every clause against the
  tables as they stood before the pass and then adds what was derived; the fixpoint repeats passes
  at most 64 times.

  The engine is \<open>const\<close> in the code below the fixpoint, except that a cast lets the trace be
  appended to; so the functions here thread the engine and change nothing of it but \<open>e_trace\<close>.
  A failing run of the code leaves the trace nodes it had appended; the model returns the error alone.
  The capability adapters are the parameter \<open>adapter\<close> of \<open>etb_capability_invoke\<close>.
\<close>

section \<open>Times\<close>

definition etb_fact_valid_now :: "etb_engine \<Rightarrow> etb_atom \<Rightarrow> bool" where
  "etb_fact_valid_now engine atom \<longleftrightarrow>
     a_temporal_kind atom \<noteq> ETB_TEMPORAL_EXPIRES_AT \<or> e_now engine \<le> a_temporal_value atom"

definition etb_literal_temporal_matches :: "etb_literal \<Rightarrow> etb_atom \<Rightarrow> bool" where
  "etb_literal_temporal_matches literal fact_atom \<longleftrightarrow>
     (if a_temporal_kind (l_atom literal) = ETB_TEMPORAL_NONE then True
      else a_temporal_kind (l_atom literal) = a_temporal_kind fact_atom
           \<and> a_temporal_value (l_atom literal) = a_temporal_value fact_atom)"

section \<open>Loops that skip\<close>

text \<open>
  The two loop bodies of the code that do not return: \<open>or_skip\<close> continues with the next item when a
  call fails, and \<open>collect_res\<close> is a loop that pushes what an item yields, if anything.
\<close>

definition or_skip :: "'b \<Rightarrow> 'a res \<Rightarrow> ('a \<Rightarrow> 'b res) \<Rightarrow> 'b res" where
  "or_skip d r f = (case r of Inl (Fail _) \<Rightarrow> Inr d | Inl e \<Rightarrow> Inl e | Inr a \<Rightarrow> f a)"

primrec collect_res :: "('a \<Rightarrow> 'b option res) \<Rightarrow> 'a list \<Rightarrow> 'b list res" where
  "collect_res f [] = Inr []"
| "collect_res f (x # xs) =
     bind_res (f x) (\<lambda>r. bind_res (collect_res f xs) (\<lambda>ys.
       Inr (case r of None \<Rightarrow> ys | Some y \<Rightarrow> y # ys)))"

section \<open>Capabilities\<close>

text \<open>The argument passed for a term and its entry in the mask.\<close>

definition capability_arg :: "etb_eval_state \<Rightarrow> etb_term \<Rightarrow> (etb_term \<times> bool) res" where
  "capability_arg state term =
     bind_res (if t_kind term = ETB_TERM_VARIABLE
               then etb_binding_set_get (s_bindings state) (t_text term) else Inr None) (\<lambda>bound.
       Inr (case bound of
              Some v \<Rightarrow> (etb_term_clone v, True)
            | None \<Rightarrow> if t_kind term = ETB_TERM_VARIABLE then (etb_term_make_null, False)
                      else (etb_term_clone term, True)))"

definition capability_args :: "etb_eval_state \<Rightarrow> etb_term list \<Rightarrow> (etb_term \<times> bool) list res" where
  "capability_args state terms =
     fold_res (\<lambda>term args. bind_res (capability_arg state term) (\<lambda>arg. Inr (args @ [arg]))) terms []"

definition capability_candidate :: "etb_literal \<Rightarrow> etb_term list \<Rightarrow> etb_atom" where
  "capability_candidate literal tuple =
     etb_atom_init\<lparr>a_kind := ETB_ATOM_PREDICATE, a_predicate := a_predicate (l_atom literal),
       a_terms := foldl (\<lambda>terms t. etb_term_list_push terms (etb_term_clone t)) [] tuple\<rparr>"

definition capability_node :: "etb_atom \<Rightarrow> string list \<Rightarrow> nat \<Rightarrow> etb_trace_node" where
  "capability_node candidate evidence index =
     \<lparr>n_id = 0, n_kind = ETB_TRACE_CAPABILITY, n_rule_id = 0, n_fact = candidate, n_premises = [],
      n_evidence_digest = (if length evidence > index then Some (evidence ! index) else None),
      n_digest_hex = ''''\<rparr>"

text \<open>The loop over the tuples of the response; a tuple that does not fit the literal is skipped.\<close>

definition capability_tuple ::
    "etb_literal \<Rightarrow> etb_eval_state \<Rightarrow> string list \<Rightarrow> nat \<times> etb_term list \<Rightarrow>
     etb_engine \<times> etb_eval_state list \<Rightarrow> (etb_engine \<times> etb_eval_state list) res" where
  "capability_tuple literal state evidence = (\<lambda>(index, tuple) (engine, next_states).
     bind_res (etb_eval_state_clone state) (\<lambda>cloned.
     case cloned of
       None \<Rightarrow> Inr (engine, next_states)
     | Some cloned \<Rightarrow>
         let candidate = capability_candidate literal tuple in
         bind_res (etb_unify_atom (s_bindings cloned) (l_atom literal) candidate False) (\<lambda>unified.
         case unified of
           None \<Rightarrow> Inr (engine, next_states)
         | Some bs \<Rightarrow>
             or_skip (engine, next_states)
               (etb_trace_append (e_trace engine) (capability_node candidate evidence index))
               (\<lambda>(trace_id, trace).
                 Inr (engine\<lparr>e_trace := trace\<rparr>,
                      next_states @ [etb_eval_state_push_premise (cloned\<lparr>s_bindings := bs\<rparr>) trace_id])))))"

definition etb_try_capability ::
    "adapter \<Rightarrow> etb_engine \<Rightarrow> etb_literal \<Rightarrow> etb_eval_state \<Rightarrow> (etb_engine \<times> etb_eval_state list) res" where
  "etb_try_capability adapter engine literal state =
     bind_res (etb_capability_registry_find (e_capabilities engine) (a_predicate (l_atom literal))
                (length (a_terms (l_atom literal)))) (\<lambda>decl.
     bind_res (capability_args state (a_terms (l_atom literal))) (\<lambda>args.
     case decl of
       None \<Rightarrow> Inl Null_deref
     | Some decl \<Rightarrow>
         bind_res (etb_capability_invoke adapter decl (map fst args) (map snd args)) (\<lambda>result.
           fold_res (capability_tuple literal state (cr_evidence_digests result))
             (zip [0..<length (cr_tuples result)] (cr_tuples result)) (engine, []))))"

section \<open>Literals\<close>

text \<open>
  The condition \<open>!clone || !unify || !push\<close> of the two positive cases: the state extended by a fact
  that fits, or nothing.
\<close>

definition extend_state ::
    "etb_literal \<Rightarrow> etb_eval_state \<Rightarrow> bool \<Rightarrow> etb_fact \<Rightarrow> etb_eval_state option res" where
  "extend_state literal state ignore_speaker ft =
     bind_res (etb_eval_state_clone state) (\<lambda>cloned.
     case cloned of
       None \<Rightarrow> Inr None
     | Some cloned \<Rightarrow>
         bind_res (etb_unify_atom (s_bindings cloned) (l_atom literal) (f_atom ft) ignore_speaker)
           (\<lambda>unified. Inr (map_option
              (\<lambda>bs. etb_eval_state_push_premise (cloned\<lparr>s_bindings := bs\<rparr>) (f_trace_id ft)) unified)))"

definition match_positive_fact ::
    "etb_engine \<Rightarrow> etb_literal \<Rightarrow> etb_eval_state \<Rightarrow> etb_fact \<Rightarrow> etb_eval_state option res" where
  "match_positive_fact engine literal state ft =
     (if \<not> etb_fact_valid_now engine (f_atom ft) \<or> \<not> etb_literal_temporal_matches literal (f_atom ft)
      then Inr None else extend_state literal state False ft)"

definition match_says_fact ::
    "etb_engine \<Rightarrow> etb_literal \<Rightarrow> etb_eval_state \<Rightarrow> etb_fact \<Rightarrow> etb_eval_state option res" where
  "match_says_fact engine literal state ft =
     (let candidate = f_atom ft in
      if \<not> etb_fact_valid_now engine candidate \<or> \<not> etb_literal_temporal_matches literal candidate
      then Inr None
      else bind_res (c_streq (a_predicate candidate) (a_predicate (l_atom literal))) (\<lambda>same.
      if \<not> same \<or> length (a_terms candidate) \<noteq> length (a_terms (l_atom literal)) then Inr None
      else bind_res (c_streq (a_principal candidate) (a_principal (l_atom literal))) (\<lambda>same.
      bind_res (if same then Inr True
                else etb_delegation_allows engine (a_principal candidate)
                       (a_principal (l_atom literal)) (a_predicate candidate) (e_now engine)) (\<lambda>ok.
      if \<not> ok then Inr None else extend_state literal state True ft))))"

text \<open>The test of the negated case on one fact; a probe that cannot be cloned is passed over.\<close>

definition blocks_negation ::
    "etb_engine \<Rightarrow> etb_literal \<Rightarrow> etb_eval_state \<Rightarrow> etb_fact \<Rightarrow> bool res" where
  "blocks_negation engine literal state ft =
     bind_res (etb_binding_set_clone_into (s_bindings state)) (\<lambda>probe.
     case probe of
       None \<Rightarrow> Inr False
     | Some probe \<Rightarrow>
         if etb_fact_valid_now engine (f_atom ft) \<and> etb_literal_temporal_matches literal (f_atom ft)
         then bind_res (etb_unify_atom probe (l_atom literal) (f_atom ft) False) (\<lambda>unified.
           Inr (unified \<noteq> None))
         else Inr False)"

definition match_negated ::
    "etb_engine \<Rightarrow> etb_literal \<Rightarrow> etb_eval_state \<Rightarrow> etb_eval_state list res" where
  "match_negated engine literal state =
     bind_res (etb_eval_state_clone state) (\<lambda>single.
     case single of
       None \<Rightarrow> Inl (Fail ''out of memory'')
     | Some single \<Rightarrow>
         bind_res (case etb_relation_set_find (e_relations engine) (etb_atom_relation_key (l_atom literal)) of
                     None \<Rightarrow> Inr False
                   | Some relation \<Rightarrow> search_res (blocks_negation engine literal state) (r_facts relation))
           (\<lambda>blocked. Inr (if blocked then [] else [single])))"

definition match_says ::
    "etb_engine \<Rightarrow> etb_literal \<Rightarrow> etb_eval_state \<Rightarrow> etb_eval_state list res" where
  "match_says engine literal state =
     fold_res (\<lambda>relation matches.
       if take 8 (r_key relation) \<noteq> ''__says__'' then Inr matches
       else bind_res (collect_res (match_says_fact engine literal state) (r_facts relation)) (\<lambda>more.
         Inr (matches @ more))) (e_relations engine) []"

definition match_positive ::
    "etb_engine \<Rightarrow> etb_literal \<Rightarrow> etb_eval_state \<Rightarrow> etb_eval_state list res" where
  "match_positive engine literal state =
     (case etb_relation_set_find (e_relations engine) (etb_atom_relation_key (l_atom literal)) of
        None \<Rightarrow> Inr []
      | Some relation \<Rightarrow> collect_res (match_positive_fact engine literal state) (r_facts relation))"

definition etb_match_literal ::
    "adapter \<Rightarrow> etb_engine \<Rightarrow> etb_literal \<Rightarrow> etb_eval_state \<Rightarrow> (etb_engine \<times> etb_eval_state list) res" where
  "etb_match_literal adapter engine literal state =
     bind_res (etb_literal_is_capability engine literal) (\<lambda>is_capability.
     if is_capability then etb_try_capability adapter engine literal state
     else bind_res
       (if l_negated literal then match_negated engine literal state
        else if a_kind (l_atom literal) = ETB_ATOM_SAYS then match_says engine literal state
        else match_positive engine literal state) (\<lambda>next_states. Inr (engine, next_states)))"

section \<open>Clauses\<close>

text \<open>
  The end of a body: the head is instantiated, traced and queued, unless it is not ground or stored
  already. The premises are the trace identifiers the state collected.
\<close>

definition head_node :: "etb_clause \<Rightarrow> nat \<Rightarrow> etb_atom \<Rightarrow> nat list \<Rightarrow> etb_trace_node" where
  "head_node clause rule_id atom premises =
     \<lparr>n_id = 0,
      n_kind = (if a_kind (cl_head clause) = ETB_ATOM_SPEAKS_FOR then ETB_TRACE_DELEGATION
                else if cl_body clause = [] then ETB_TRACE_FACT else ETB_TRACE_RULE),
      n_rule_id = rule_id, n_fact = atom, n_premises = premises, n_evidence_digest = None,
      n_digest_hex = ''''\<rparr>"

definition derive_head ::
    "etb_clause \<Rightarrow> nat \<Rightarrow> etb_eval_state \<Rightarrow> etb_engine \<times> etb_fact list \<Rightarrow> (etb_engine \<times> etb_fact list) res" where
  "derive_head clause rule_id state = (\<lambda>(engine, derived).
     bind_res (on_fail ''failed to instantiate head''
                (etb_instantiate_atom (cl_head clause) (s_bindings state))) (\<lambda>instantiated.
     if \<not> etb_atom_is_ground instantiated then Inr (engine, derived)
     else if etb_relation_contains_fact (e_relations engine) instantiated then Inr (engine, derived)
     else bind_res (on_fail ''failed to append trace''
            (etb_trace_append (e_trace engine)
              (head_node clause rule_id instantiated (s_premises state)))) (\<lambda>(trace_id, trace).
       Inr (engine\<lparr>e_trace := trace\<rparr>,
            derived @ [\<lparr>f_atom = etb_atom_clone instantiated, f_trace_id = trace_id,
                        f_from_capability = False\<rparr>]))))"

text \<open>The recursion over the literals still to match; the code passes the index of the first of them.\<close>

fun etb_evaluate_clause_body ::
    "adapter \<Rightarrow> etb_clause \<Rightarrow> nat \<Rightarrow> etb_literal list \<Rightarrow> etb_eval_state \<Rightarrow>
     etb_engine \<times> etb_fact list \<Rightarrow> (etb_engine \<times> etb_fact list) res" where
  "etb_evaluate_clause_body adapter clause rule_id [] state (engine, derived) =
     derive_head clause rule_id state (engine, derived)"
| "etb_evaluate_clause_body adapter clause rule_id (literal # body) state (engine, derived) =
     bind_res (etb_match_literal adapter engine literal state) (\<lambda>(engine, next_states).
       fold_res (etb_evaluate_clause_body adapter clause rule_id body) next_states (engine, derived))"

section \<open>The fixpoint\<close>

definition evaluate_statement ::
    "adapter \<Rightarrow> nat \<times> etb_statement \<Rightarrow> etb_engine \<times> etb_fact list \<Rightarrow> (etb_engine \<times> etb_fact list) res" where
  "evaluate_statement adapter = (\<lambda>(clause_index, statement) acc.
     case statement of
       ETB_STMT_CAPABILITY _ \<Rightarrow> Inr acc
     | ETB_STMT_CLAUSE clause \<Rightarrow>
         etb_evaluate_clause_body adapter clause clause_index (cl_body clause) etb_eval_state_init acc)"

text \<open>The second loop of a pass, over what the first derived.\<close>

definition store_derived :: "etb_fact \<Rightarrow> etb_engine \<times> bool \<Rightarrow> etb_engine \<times> bool" where
  "store_derived ft = (\<lambda>(engine, changed).
     if etb_relation_contains_fact (e_relations engine) (f_atom ft) then (engine, changed)
     else (engine\<lparr>e_relations := etb_relation_set_add_fact (e_relations engine) ft\<rparr>, True))"

definition fixpoint_pass :: "adapter \<Rightarrow> etb_engine \<Rightarrow> (etb_engine \<times> bool) res" where
  "fixpoint_pass adapter engine =
     bind_res (fold_res (evaluate_statement adapter)
                (zip [0..<length (e_program engine)] (e_program engine)) (engine, []))
       (\<lambda>(engine, derived). Inr (fold store_derived derived (engine, False)))"

primrec fixpoint_passes :: "adapter \<Rightarrow> nat \<Rightarrow> etb_engine \<Rightarrow> etb_engine res" where
  "fixpoint_passes adapter 0 engine = Inr engine"
| "fixpoint_passes adapter (Suc n) engine =
     bind_res (fixpoint_pass adapter engine) (\<lambda>(engine, changed).
       if changed then fixpoint_passes adapter n engine else Inr engine)"

definition etb_engine_run_fixpoint :: "adapter \<Rightarrow> etb_engine \<Rightarrow> etb_engine res" where
  "etb_engine_run_fixpoint adapter engine =
     bind_res (etb_program_validate engine) (\<lambda>strata. fixpoint_passes adapter 64 engine)"

section \<open>Queries and imports\<close>

definition query_answer :: "etb_atom \<Rightarrow> etb_eval_state \<Rightarrow> etb_fact option res" where
  "query_answer goal state =
     or_skip None (etb_instantiate_atom goal (s_bindings state)) (\<lambda>answer.
       Inr (Some \<lparr>f_atom = answer,
                  f_trace_id = (if s_premises state = [] then 0 else last (s_premises state)),
                  f_from_capability = False\<rparr>))"

definition etb_engine_query ::
    "adapter \<Rightarrow> etb_engine \<Rightarrow> etb_atom \<Rightarrow> (etb_engine \<times> etb_fact list) res" where
  "etb_engine_query adapter engine goal =
     bind_res (etb_match_literal adapter engine \<lparr>l_negated = False, l_atom = etb_atom_clone goal\<rparr>
                etb_eval_state_init) (\<lambda>(engine, states).
     bind_res (collect_res (query_answer goal) states) (\<lambda>answers. Inr (engine, answers)))"

definition import_node :: "etb_atom \<Rightarrow> string option \<Rightarrow> etb_trace_node" where
  "import_node atom evidence_digest =
     \<lparr>n_id = 0, n_kind = ETB_TRACE_FACT, n_rule_id = 0, n_fact = etb_atom_clone atom, n_premises = [],
      n_evidence_digest = evidence_digest, n_digest_hex = ''''\<rparr>"

definition import_answer :: "string option \<Rightarrow> etb_atom \<Rightarrow> etb_engine \<Rightarrow> etb_engine res" where
  "import_answer evidence_digest answer engine =
     (if \<not> etb_atom_is_ground answer then Inl (Fail ''cannot import non-ground certificate answer'')
      else bind_res (on_fail '''' (etb_trace_append (e_trace engine) (import_node answer evidence_digest)))
        (\<lambda>(trace_id, trace).
          Inr (engine\<lparr>e_trace := trace,
            e_relations := etb_relation_set_add_fact (e_relations engine)
              \<lparr>f_atom = etb_atom_clone answer, f_trace_id = trace_id, f_from_capability = False\<rparr>\<rparr>)))"

definition etb_engine_import_answers ::
    "etb_engine \<Rightarrow> etb_atom list \<Rightarrow> string option \<Rightarrow> etb_engine res" where
  "etb_engine_import_answers engine answers evidence_digest =
     fold_res (import_answer evidence_digest) answers engine"

end
