(* ===== verification/Eval_Invariant.thy ===== *)
theory Eval_Invariant
  imports Eval
begin

text \<open>
  The invariant of the engine and the soundness of evaluation: whatever program, tables and adapters,
  every fact the fixpoint stores is supported by the trace. A node appended for a rule names the
  rule, and its premises are earlier nodes whose facts, unified with the rule's body literals from
  left to right, give the bindings under which the rule's head is the node's fact.
\<close>

section \<open>Names kept apart\<close>

text \<open>
  The keys of the tables reserve \<open>__says__\<close> as a prefix and \<open>__speaks_for__/2\<close> (see
  \<open>relation_key_collision\<close> in \<open>Canon\<close>); an ordinary predicate must not use them.
\<close>

definition unreserved :: "etb_atom \<Rightarrow> bool" where
  "unreserved a \<longleftrightarrow>
     (a_kind a = ETB_ATOM_PREDICATE \<longrightarrow>
        take 8 (etb_atom_relation_key a) \<noteq> ''__says__'' \<and>
        etb_atom_relation_key a \<noteq> ''__speaks_for__/2'')"

lemma key_terms: "length ts = length (a_terms a) \<Longrightarrow>
    etb_atom_relation_key (a\<lparr>a_terms := ts\<rparr>) = etb_atom_relation_key a"
  by (simp add: etb_atom_relation_key_def)

lemma unreserved_terms: "length ts = length (a_terms a) \<Longrightarrow>
    unreserved (a\<lparr>a_terms := ts\<rparr>) = unreserved a"
  by (simp add: unreserved_def key_terms)

lemma says_key: "a_kind a = ETB_ATOM_SAYS \<Longrightarrow> take 8 (etb_atom_relation_key a) = ''__says__''"
  by (simp add: etb_atom_relation_key_def)

lemma speaks_key: "a_kind a = ETB_ATOM_SPEAKS_FOR \<Longrightarrow> etb_atom_relation_key a = ''__speaks_for__/2''"
  by (simp add: etb_atom_relation_key_def)

lemma unreserved_says:
  "unreserved a \<Longrightarrow> take 8 (etb_atom_relation_key a) = ''__says__'' \<longleftrightarrow> a_kind a = ETB_ATOM_SAYS"
  by (cases "a_kind a") (auto simp: unreserved_def says_key speaks_key)

lemma unreserved_speaks:
  "unreserved a \<Longrightarrow> etb_atom_relation_key a = ''__speaks_for__/2'' \<longleftrightarrow> a_kind a = ETB_ATOM_SPEAKS_FOR"
  using says_key [of a] by (cases "a_kind a") (auto simp: unreserved_def speaks_key)

section \<open>The invariant\<close>

definition ground_atom :: "etb_atom \<Rightarrow> bool" where
  "ground_atom a \<longleftrightarrow> wf_atom a \<and> etb_atom_is_ground a"

definition fact_ok :: "etb_trace \<Rightarrow> etb_fact \<Rightarrow> bool" where
  "fact_ok trace f \<longleftrightarrow>
     ground_atom (f_atom f) \<and> unreserved (f_atom f) \<and>
     f_trace_id f < length trace \<and> n_fact (trace ! f_trace_id f) = f_atom f"

definition program_ok :: "etb_program \<Rightarrow> bool" where
  "program_ok program \<longleftrightarrow> wf_program program \<and>
     (\<forall>c. ETB_STMT_CLAUSE c \<in> set program \<longrightarrow> unreserved (cl_head c))"

definition engine_ok :: "etb_engine \<Rightarrow> bool" where
  "engine_ok engine \<longleftrightarrow>
     program_ok (e_program engine) \<and> registry_ok (e_capabilities engine) \<and>
     relations_ok (e_relations engine) \<and> trace_ok (e_trace engine) \<and>
     (\<forall>f \<in> set (all_facts (e_relations engine)). fact_ok (e_trace engine) f)"

text \<open>The part of it that matching needs: it does not depend on the trace.\<close>

definition tables_ok :: "etb_engine \<Rightarrow> bool" where
  "tables_ok engine \<longleftrightarrow>
     registry_ok (e_capabilities engine) \<and> relations_ok (e_relations engine) \<and>
     (\<forall>f \<in> set (all_facts (e_relations engine)). ground_atom (f_atom f) \<and> unreserved (f_atom f))"

lemma engine_ok_tables: "engine_ok e \<Longrightarrow> tables_ok e"
  by (simp add: engine_ok_def tables_ok_def fact_ok_def)

definition state_ok :: "etb_trace \<Rightarrow> etb_eval_state \<Rightarrow> bool" where
  "state_ok trace st \<longleftrightarrow> bindings_ok (s_bindings st) \<and> (\<forall>p \<in> set (s_premises st). p < length trace)"

text \<open>The engine later in the same run: only the trace and the tables have grown.\<close>

definition grows :: "etb_engine \<Rightarrow> etb_engine \<Rightarrow> bool" where
  "grows e e' \<longleftrightarrow>
     e_program e' = e_program e \<and> e_capabilities e' = e_capabilities e \<and> e_now e' = e_now e \<and>
     (\<exists>new. e_trace e' = e_trace e @ new) \<and>
     set (all_facts (e_relations e)) \<subseteq> set (all_facts (e_relations e'))"

lemma grows_refl [simp]: "grows e e"
  by (simp add: grows_def)

lemma grows_trans: "grows a b \<Longrightarrow> grows b c \<Longrightarrow> grows a c"
  by (auto simp: grows_def)

lemma grows_length: "grows e e' \<Longrightarrow> length (e_trace e) \<le> length (e_trace e') \<and> e_program e' = e_program e"
  by (auto simp: grows_def)

lemma grows_trace [simp]: "e_trace e' = e_trace e @ new \<Longrightarrow> grows e (e\<lparr>e_trace := e_trace e'\<rparr>)"
  by (auto simp: grows_def)

lemma fact_ok_grows: "fact_ok trace f \<Longrightarrow> fact_ok (trace @ new) f"
  by (simp add: fact_ok_def nth_append)

lemma state_ok_grows: "state_ok trace st \<Longrightarrow> state_ok (trace @ new) st"
  by (auto simp: state_ok_def)

lemma state_ok_init [simp]: "state_ok trace etb_eval_state_init"
  by (simp add: state_ok_def etb_eval_state_init_def)

lemma engine_ok_trace:
  "engine_ok e \<Longrightarrow> trace_ok (e_trace e @ new) \<Longrightarrow> engine_ok (e\<lparr>e_trace := e_trace e @ new\<rparr>)"
  by (auto simp: engine_ok_def fact_ok_grows)

lemma program_ok_clause:
  "program_ok p \<Longrightarrow> ETB_STMT_CLAUSE c \<in> set p \<Longrightarrow> wf_clause c \<and> unreserved (cl_head c)"
  by (auto simp: program_ok_def wf_program_def list_all_iff wf_statement_def)

lemma tables_facts_at:
  assumes "tables_ok e" and "f \<in> set (facts_at (e_relations e) key)"
  shows "ground_atom (f_atom f) \<and> unreserved (f_atom f) \<and> fact_key f = key \<and>
    f \<in> set (all_facts (e_relations e))"
proof -
  obtain r where r: "etb_relation_set_find (e_relations e) key = Some r" "f \<in> set (r_facts r)"
    using assms(2) by (cases "etb_relation_set_find (e_relations e) key") (auto simp: facts_at_def)
  note in_r = find_relation_in [OF r(1)]
  have "relations_ok (e_relations e)" using assms(1) by (simp add: tables_ok_def)
  then have "fact_key f = key" using in_r r(2) by (auto simp: relations_ok_def list_all_iff)
  moreover have "f \<in> set (all_facts (e_relations e))" using in_r r(2) by (auto simp: all_facts_def)
  ultimately show ?thesis using assms(1) by (simp add: tables_ok_def)
qed

section \<open>Steps of the engine\<close>

lemma trace_append_grows:
  assumes "engine_ok e" and "etb_trace_append (e_trace e) node = Inr (i, trace')"
    and "\<forall>p \<in> set (n_premises node). p < length (e_trace e)"
  shows "engine_ok (e\<lparr>e_trace := trace'\<rparr>) \<and> grows e (e\<lparr>e_trace := trace'\<rparr>) \<and>
    i = length (e_trace e) \<and> (\<exists>digest. trace' = e_trace e @ [node\<lparr>n_id := i, n_digest_hex := digest\<rparr>])"
proof -
  obtain digest where i: "i = length (e_trace e)"
    and t: "trace' = e_trace e @ [node\<lparr>n_id := i, n_digest_hex := digest\<rparr>]"
    using trace_append_eq [OF assms(2)] by blast
  have "trace_ok trace'"
    using trace_append_ok [OF _ assms(2,3)] assms(1) by (simp add: engine_ok_def)
  then show ?thesis using engine_ok_trace [OF assms(1)] i t by (auto simp: grows_def)
qed

lemma unify_term_keeps:
  assumes "etb_unify_term bs p c = Inr (Some bs')" and ok: "bindings_ok bs" and "wf_term p" and "wf_term c"
  shows "bindings_ok bs' \<and> (\<exists>new. bs' = bs @ new)"
proof -
  have put: "bindings_ok bs'' \<and> (\<exists>new. bs'' = bs @ new)"
    if "etb_binding_set_put bs (Some x) v = Inr (Some bs'')" "wf_term v" for x v bs''
    using that ok by (auto simp: put_Some bindings_ok_append split: option.splits if_splits)
  have names: "t_kind t = ETB_TERM_VARIABLE \<Longrightarrow> wf_term t \<Longrightarrow> \<exists>x. t_text t = Some x" for t
    by (auto simp: wf_term_def)
  show ?thesis
    using assms names [of p] names [of c]
    by (auto simp: etb_unify_term_def dest: put split: if_splits option.splits)
qed

lemma unify_terms_keeps:
  "unify_terms bs ps cs = Inr (Some bs') \<Longrightarrow> bindings_ok bs \<Longrightarrow> list_all wf_term ps \<Longrightarrow> list_all wf_term cs \<Longrightarrow>
     bindings_ok bs' \<and> (\<exists>new. bs' = bs @ new)"
proof (induction bs ps cs rule: unify_terms.induct)
  case (1 bs p ps c cs)
  then obtain bs1 where u: "etb_unify_term bs p c = Inr (Some bs1)" "unify_terms bs1 ps cs = Inr (Some bs')"
    by (auto split: option.splits)
  then have "bindings_ok bs1" "\<exists>new. bs1 = bs @ new" using unify_term_keeps [OF u(1)] "1.prems" by auto
  then show ?case using "1.IH" [OF u(1) _ u(2)] "1.prems" by auto
qed auto

lemma unify_atom_keeps:
  assumes "etb_unify_atom bs p c ign = Inr (Some bs')" and "bindings_ok bs" and "wf_atom p" and "wf_atom c"
  shows "bindings_ok bs' \<and> (\<exists>new. bs' = bs @ new) \<and> heads_agree p c ign"
  using assms unify_terms_keeps [of bs "a_terms p" "a_terms c" bs']
  by (auto simp: unify_atom_reduce wf_atom_def split: if_splits)

text \<open>What delegation decides on a good engine.\<close>

definition speaks_edges :: "etb_engine \<Rightarrow> etb_atom set" where
  "speaks_edges e = f_atom ` set (facts_at (e_relations e) ''__speaks_for__/2'')"

lemma speaks_edges_mono:
  assumes "engine_ok e" and "engine_ok e'" and "grows e e'"
  shows "speaks_edges e \<subseteq> speaks_edges e'"
proof
  fix a assume "a \<in> speaks_edges e"
  then obtain f where f: "f \<in> set (facts_at (e_relations e) ''__speaks_for__/2'')" "a = f_atom f"
    by (auto simp: speaks_edges_def)
  then have "f \<in> set (all_facts (e_relations e'))" "fact_key f = ''__speaks_for__/2''"
    using tables_facts_at [OF engine_ok_tables [OF assms(1)] f(1)] assms(3) by (auto simp: grows_def)
  then have "f \<in> set (facts_at (e_relations e') ''__speaks_for__/2'')"
    using all_facts_at [of "e_relations e'" f] assms(2) by (simp add: engine_ok_def)
  then show "a \<in> speaks_edges e'" using f(2) by (auto simp: speaks_edges_def)
qed

lemma delegation_allows_eq:
  assumes "tables_ok e"
  shows "etb_delegation_allows e (Some s) (Some t) (Some p) now =
    Inr (delegates (speaks_edges e) now p s t 0 8)"
proof (cases "etb_relation_set_find (e_relations e) ''__speaks_for__/2''")
  case None
  moreover have "delegates {} now p s t 0 8 \<longleftrightarrow> s = t"
    by (subst delegates_unfold) (simp add: direct_edges_def)
  ultimately show ?thesis
    by (simp add: etb_delegation_allows_def speaks_edges_def facts_at_def
        etb_delegation_visit.simps [of None])
next
  case (Some r)
  have "a_principal (f_atom f) \<noteq> None \<and> a_delegate (f_atom f) \<noteq> None" if "f \<in> set (r_facts r)" for f
  proof -
    have "f \<in> set (facts_at (e_relations e) ''__speaks_for__/2'')" using that Some by (simp add: facts_at_def)
    then have "ground_atom (f_atom f)" "unreserved (f_atom f)" "fact_key f = ''__speaks_for__/2''"
      using tables_facts_at [OF assms] by blast+
    then have "wf_atom (f_atom f)" "a_kind (f_atom f) = ETB_ATOM_SPEAKS_FOR"
      using unreserved_speaks [of "f_atom f"] by (simp_all add: ground_atom_def fact_key_def)
    then show ?thesis by (simp add: wf_atom_def)
  qed
  then have "named_edges (map f_atom (r_facts r))" by (simp add: named_edges_def list_all_iff)
  then show ?thesis
    using Some by (simp add: etb_delegation_allows_def visit_iff speaks_edges_def facts_at_def)
qed

section \<open>What a premise supports\<close>

text \<open>
  A premise of a rule body: node \<open>i\<close> of the trace, whose fact unifies with the literal and extends
  the bindings. Unless the literal calls a capability, the fact is stored, valid now and of the
  literal's time; for a \<open>says\<close> literal its speaker is allowed to speak for the literal's.
\<close>

definition speaker_allowed :: "etb_engine \<Rightarrow> etb_atom \<Rightarrow> etb_atom \<Rightarrow> bool" where
  "speaker_allowed e candidate wanted \<longleftrightarrow>
     (\<exists>s t p. a_principal candidate = Some s \<and> a_principal wanted = Some t \<and> a_predicate candidate = Some p \<and>
        delegates (speaks_edges e) (e_now e) p s t 0 8)"

definition silent :: "etb_engine \<Rightarrow> etb_literal \<Rightarrow> bool" where
  "silent e l \<longleftrightarrow> l_negated l \<and> \<not> capability_call e (l_atom l)"

definition stored_premise :: "etb_engine \<Rightarrow> etb_literal \<Rightarrow> nat \<Rightarrow> bool" where
  "stored_premise e l i \<longleftrightarrow>
     (\<exists>f \<in> set (all_facts (e_relations e)). f_trace_id f = i) \<and>
     etb_fact_valid_now e (n_fact (e_trace e ! i)) \<and>
     etb_literal_temporal_matches l (n_fact (e_trace e ! i)) \<and>
     (a_kind (l_atom l) = ETB_ATOM_SAYS \<longrightarrow> speaker_allowed e (n_fact (e_trace e ! i)) (l_atom l))"

definition premise_ok ::
    "etb_engine \<Rightarrow> etb_literal \<Rightarrow> nat \<Rightarrow> etb_binding_set \<Rightarrow> etb_binding_set \<Rightarrow> bool" where
  "premise_ok e l i bs bs' \<longleftrightarrow>
     i < length (e_trace e) \<and>
     etb_unify_atom bs (l_atom l) (n_fact (e_trace e ! i)) (a_kind (l_atom l) = ETB_ATOM_SAYS) = Inr (Some bs') \<and>
     (if capability_call e (l_atom l) then n_kind (e_trace e ! i) = ETB_TRACE_CAPABILITY
      else stored_premise e l i)"

text \<open>Replaying a body against the premises recorded for it.\<close>

inductive replays ::
    "etb_engine \<Rightarrow> etb_literal list \<Rightarrow> nat list \<Rightarrow> etb_binding_set \<Rightarrow> etb_binding_set \<Rightarrow> bool"
  for e
where
  finished: "replays e [] [] bs bs"
| negated: "silent e l \<Longrightarrow> replays e ls ps bs bs' \<Longrightarrow> replays e (l # ls) ps bs bs'"
| premise: "\<not> silent e l \<Longrightarrow> premise_ok e l i bs bs1 \<Longrightarrow> replays e ls ps bs1 bs' \<Longrightarrow>
    replays e (l # ls) (i # ps) bs bs'"

inductive_cases replays_NilE: "replays e [] ps bs bs'"
inductive_cases replays_ConsE: "replays e (l # ls) ps bs bs'"

lemma capability_call_grows: "grows e e' \<Longrightarrow> capability_call e' a = capability_call e a"
  by (simp add: grows_def capability_call_def)

lemma speaker_allowed_grows:
  "engine_ok e \<Longrightarrow> engine_ok e' \<Longrightarrow> grows e e' \<Longrightarrow> speaker_allowed e c w \<Longrightarrow> speaker_allowed e' c w"
  using delegates_mono [OF speaks_edges_mono]
  by (fastforce simp: speaker_allowed_def grows_def)

lemma premise_ok_grows:
  assumes "engine_ok e" and "engine_ok e'" and g: "grows e e'" and p: "premise_ok e l i bs bs'"
  shows "premise_ok e' l i bs bs'"
proof -
  have i: "e_trace e' ! i = e_trace e ! i" "i < length (e_trace e')" "e_now e' = e_now e"
    "set (all_facts (e_relations e)) \<subseteq> set (all_facts (e_relations e'))"
    using g p by (auto simp: grows_def premise_ok_def nth_append)
  then have "stored_premise e l i \<Longrightarrow> stored_premise e' l i"
    using speaker_allowed_grows [OF assms(1-3)]
    by (auto simp: stored_premise_def etb_fact_valid_now_def)
  then show ?thesis
    using p i by (auto simp: premise_ok_def capability_call_grows [OF g])
qed

lemma replays_grows:
  assumes "engine_ok e" and "engine_ok e'" and "grows e e'"
  shows "replays e ls ps bs bs' \<Longrightarrow> replays e' ls ps bs bs'"
proof (induction rule: replays.induct)
  case (finished bs)
  show ?case by (rule replays.finished)
next
  case (negated l ls ps bs bs')
  then show ?case
    by (intro replays.negated) (simp_all add: silent_def capability_call_grows [OF assms(3)])
next
  case (premise l i bs bs1 ls ps bs')
  then show ?case
    by (intro replays.premise [OF _ premise_ok_grows [OF assms]])
      (simp_all add: silent_def capability_call_grows [OF assms(3)])
qed

lemma replays_append:
  "replays e ls ps bs bs1 \<Longrightarrow> replays e ms qs bs1 bs' \<Longrightarrow> replays e (ls @ ms) (ps @ qs) bs bs'"
  by (induction rule: replays.induct) (auto intro: replays.intros)

section \<open>Matching a literal\<close>

lemma collect_res_in:
  "collect_res f xs = Inr ys \<Longrightarrow> y \<in> set ys \<Longrightarrow> \<exists>x \<in> set xs. f x = Inr (Some y)"
  by (induction xs arbitrary: ys) (auto split: option.splits)

lemma extend_state_Some:
  assumes "extend_state l st ign f = Inr (Some st')" and "bindings_ok (s_bindings st)"
  shows "\<exists>bs. etb_unify_atom (s_bindings st) (l_atom l) (f_atom f) ign = Inr (Some bs) \<and>
    st' = \<lparr>s_bindings = bs, s_premises = s_premises st @ [f_trace_id f]\<rparr>"
  using assms
  by (auto simp: extend_state_def eval_state_clone_eq etb_eval_state_push_premise_def)

text \<open>What a match returns: a state of the engine it leaves, extended by the literal's premise.\<close>

definition next_state ::
    "etb_engine \<Rightarrow> etb_literal \<Rightarrow> etb_eval_state \<Rightarrow> etb_eval_state \<Rightarrow> bool" where
  "next_state e l st st' \<longleftrightarrow>
     state_ok (e_trace e) st' \<and>
     (if silent e l then st' = st
      else \<exists>i. s_premises st' = s_premises st @ [i] \<and> premise_ok e l i (s_bindings st) (s_bindings st'))"

lemma silent_grows: "grows e e' \<Longrightarrow> silent e' l = silent e l"
  by (simp add: silent_def capability_call_grows)

lemma state_ok_mono: "grows e e' \<Longrightarrow> state_ok (e_trace e) st \<Longrightarrow> state_ok (e_trace e') st"
  by (auto simp: grows_def state_ok_def)

lemma next_state_replays:
  assumes "next_state e l st st'"
  shows "replays e [l] (if silent e l then [] else [last (s_premises st')]) (s_bindings st) (s_bindings st')"
proof (cases "silent e l")
  case True
  then show ?thesis
    using assms replays.negated [OF True replays.finished] by (simp add: next_state_def)
next
  case False
  then obtain i where "s_premises st' = s_premises st @ [i]" "premise_ok e l i (s_bindings st) (s_bindings st')"
    using assms by (auto simp: next_state_def)
  then show ?thesis using False replays.premise [OF False _ replays.finished] by simp
qed

lemma next_state_grows:
  assumes "engine_ok e" and "engine_ok e'" and "grows e e'" and "next_state e l st st'"
  shows "next_state e' l st st'"
  using assms(4) premise_ok_grows [OF assms(1-3)] state_ok_mono [OF assms(3)]
  by (auto simp: next_state_def silent_grows [OF assms(3)] split: if_splits)

lemma next_state_stored:
  assumes e: "engine_ok e" and l: "wf_literal l" and st: "state_ok (e_trace e) st"
    and f: "f \<in> set (all_facts (e_relations e))"
    and ext: "extend_state l st (a_kind (l_atom l) = ETB_ATOM_SAYS) f = Inr (Some st')"
    and ok: "\<not> l_negated l" "\<not> capability_call e (l_atom l)"
    and now: "etb_fact_valid_now e (f_atom f)" "etb_literal_temporal_matches l (f_atom f)"
    and sp: "a_kind (l_atom l) = ETB_ATOM_SAYS \<Longrightarrow> speaker_allowed e (f_atom f) (l_atom l)"
  shows "next_state e l st st'"
proof -
  have fact: "wf_atom (f_atom f)" "f_trace_id f < length (e_trace e)"
    "n_fact (e_trace e ! f_trace_id f) = f_atom f"
    using e f by (auto simp: engine_ok_def fact_ok_def ground_atom_def)
  obtain bs where u: "etb_unify_atom (s_bindings st) (l_atom l) (f_atom f)
      (a_kind (l_atom l) = ETB_ATOM_SAYS) = Inr (Some bs)"
    and st': "st' = \<lparr>s_bindings = bs, s_premises = s_premises st @ [f_trace_id f]\<rparr>"
    using extend_state_Some [OF ext] st by (auto simp: state_ok_def)
  have "bindings_ok bs"
    using unify_atom_keeps [OF u] st l fact(1) by (simp add: state_ok_def wf_literal_def)
  then show ?thesis
    using st st' u fact f ok now sp
    by (auto simp: next_state_def silent_def state_ok_def premise_ok_def stored_premise_def)
qed

text \<open>What a node appended by a run says, and a step of the run.\<close>

definition node_justified :: "etb_engine \<Rightarrow> etb_trace_node \<Rightarrow> bool" where
  "node_justified e node \<longleftrightarrow>
     n_kind node = ETB_TRACE_CAPABILITY \<and> n_premises node = [] \<and> capability_call e (n_fact node) \<or>
     (\<exists>c bs. n_rule_id node < length (e_program e) \<and>
        e_program e ! n_rule_id node = ETB_STMT_CLAUSE c \<and>
        n_kind node = n_kind (head_node c 0 (n_fact node) []) \<and>
        replays e (cl_body c) (n_premises node) [] bs \<and>
        etb_instantiate_atom (cl_head c) bs = Inr (n_fact node) \<and> ground_atom (n_fact node))"

definition run_step :: "etb_engine \<Rightarrow> etb_engine \<Rightarrow> bool" where
  "run_step e e' \<longleftrightarrow> engine_ok e' \<and> grows e e' \<and>
     (\<forall>i. length (e_trace e) \<le> i \<and> i < length (e_trace e') \<longrightarrow> node_justified e' (e_trace e' ! i))"

lemma node_justified_grows:
  assumes "engine_ok e" and "engine_ok e'" and g: "grows e e'" and "node_justified e node"
  shows "node_justified e' node"
proof -
  have "e_program e' = e_program e" using g by (simp add: grows_def)
  then show ?thesis
    using assms(4) replays_grows [OF assms(1-3)] capability_call_grows [OF g]
    unfolding node_justified_def by metis
qed

lemma run_step_refl: "engine_ok e \<Longrightarrow> run_step e e"
  by (auto simp: run_step_def)

lemma run_step_ok: "run_step e e' \<Longrightarrow> engine_ok e' \<and> grows e e'"
  by (simp add: run_step_def)

lemma run_step_trans:
  assumes "run_step a b" and "run_step b c"
  shows "run_step a c"
proof -
  obtain new where n: "e_trace c = e_trace b @ new" using assms(2) by (auto simp: run_step_def grows_def)
  have "node_justified c (e_trace c ! i)" if "length (e_trace a) \<le> i" "i < length (e_trace c)" for i
  proof (cases "i < length (e_trace b)")
    case True
    then have "node_justified b (e_trace b ! i)" using assms(1) that(1) by (simp add: run_step_def)
    then show ?thesis
      using True n node_justified_grows [of b c] assms by (simp add: run_step_def nth_append)
  next
    case False
    then show ?thesis using assms(2) that by (simp add: run_step_def)
  qed
  then show ?thesis using assms grows_trans [of a b c] by (auto simp: run_step_def)
qed

lemma run_step_append:
  assumes "engine_ok e" and "etb_trace_append (e_trace e) node = Inr (i, trace')"
    and "\<forall>p \<in> set (n_premises node). p < length (e_trace e)"
    and "\<And>e' digest. engine_ok e' \<Longrightarrow> grows e e' \<Longrightarrow> e_relations e' = e_relations e \<Longrightarrow>
      node_justified e' (node\<lparr>n_id := i, n_digest_hex := digest\<rparr>)"
  shows "run_step e (e\<lparr>e_trace := trace'\<rparr>)"
proof -
  let ?e = "e\<lparr>e_trace := trace'\<rparr>"
  obtain digest where ok: "engine_ok ?e" "grows e ?e" and i: "i = length (e_trace e)"
    and t: "trace' = e_trace e @ [node\<lparr>n_id := i, n_digest_hex := digest\<rparr>]"
    using trace_append_grows [OF assms(1-3)] by blast
  have "node_justified ?e (trace' ! j)" if "length (e_trace e) \<le> j" "j < length trace'" for j
  proof -
    have "j = length (e_trace e)" using that t by simp
    then show ?thesis using assms(4) [OF ok, of digest] t by simp
  qed
  then show ?thesis using ok by (simp add: run_step_def)
qed

lemma match_negated_next:
  assumes "match_negated e l st = Inr sts" and "st' \<in> set sts" and "state_ok (e_trace e) st"
    and "silent e l"
  shows "next_state e l st st'"
  using assms
  by (auto simp: match_negated_def eval_state_clone_eq state_ok_def next_state_def split: if_splits)

lemma match_positive_next:
  assumes e: "engine_ok e" and l: "wf_literal l" and st: "state_ok (e_trace e) st"
    and m: "match_positive e l st = Inr sts" "st' \<in> set sts"
    and ok: "\<not> l_negated l" "\<not> capability_call e (l_atom l)" "a_kind (l_atom l) \<noteq> ETB_ATOM_SAYS"
  shows "next_state e l st st'"
proof -
  obtain r where r: "etb_relation_set_find (e_relations e) (etb_atom_relation_key (l_atom l)) = Some r"
    and c: "collect_res (match_positive_fact e l st) (r_facts r) = Inr sts"
    using m by (auto simp: match_positive_def split: option.splits)
  obtain f where f: "f \<in> set (r_facts r)" "match_positive_fact e l st f = Inr (Some st')"
    using collect_res_in [OF c m(2)] by blast
  have "f \<in> set (all_facts (e_relations e))"
    using find_relation_in [OF r] f(1) by (auto simp: all_facts_def)
  then show ?thesis
    using f(2) ok by (intro next_state_stored [OF e l st]) (auto simp: match_positive_fact_def split: if_splits)
qed

lemma match_says_fact_Some:
  assumes e: "engine_ok e" and "match_says_fact e l st f = Inr (Some st')"
  shows "etb_fact_valid_now e (f_atom f) \<and> etb_literal_temporal_matches l (f_atom f) \<and>
    extend_state l st True f = Inr (Some st') \<and> speaker_allowed e (f_atom f) (l_atom l)"
proof -
  obtain s t p where names: "a_principal (f_atom f) = Some s" "a_principal (l_atom l) = Some t"
    "a_predicate (f_atom f) = Some p"
    using assms(2) by (auto simp: match_says_fact_def Let_def split: if_splits)
  have "delegates (speaks_edges e) (e_now e) p s t 0 8"
    using assms(2) names delegation_allows_eq [OF engine_ok_tables [OF e], of s t p]
    by (cases "s = t") (auto simp: match_says_fact_def Let_def delegates.self split: if_splits)
  then show ?thesis
    using assms(2) names by (auto simp: match_says_fact_def Let_def speaker_allowed_def split: if_splits)
qed

lemma match_says_next:
  assumes e: "engine_ok e" and l: "wf_literal l" and st: "state_ok (e_trace e) st"
    and m: "match_says e l st = Inr sts" "st' \<in> set sts"
    and ok: "\<not> l_negated l" "\<not> capability_call e (l_atom l)" "a_kind (l_atom l) = ETB_ATOM_SAYS"
  shows "next_state e l st st'"
proof -
  have one: "next_state e l st st''" if "r \<in> set (e_relations e)" "f \<in> set (r_facts r)"
    "match_says_fact e l st f = Inr (Some st'')" for r f st''
    using that match_says_fact_Some [OF e that(3)] ok
    by (intro next_state_stored [OF e l st, of f]) (auto simp: all_facts_def)
  have "\<forall>st'' \<in> set sts. next_state e l st st''"
    using m(1) unfolding match_says_def
  proof (rule fold_res_invariant)
    fix r matches matches' assume "r \<in> set (e_relations e)" "\<forall>st'' \<in> set matches. next_state e l st st''"
      "(if take 8 (r_key r) \<noteq> ''__says__'' then Inr matches
        else bind_res (collect_res (match_says_fact e l st) (r_facts r)) (\<lambda>more. Inr (matches @ more)))
       = Inr matches'"
    then show "\<forall>st'' \<in> set matches'. next_state e l st st''"
      by (auto split: if_splits) (metis collect_res_in one)
  qed simp
  then show ?thesis using m(2) by blast
qed

text \<open>Capability calls.\<close>

lemma candidate_fields [simp]:
  "a_kind (capability_candidate l ts) = ETB_ATOM_PREDICATE"
  "a_predicate (capability_candidate l ts) = a_predicate (l_atom l)"
  "a_terms (capability_candidate l ts) = ts"
proof -
  have "foldl (\<lambda>terms t. etb_term_list_push terms (etb_term_clone t)) acc ts = acc @ ts" for acc
    by (induction ts arbitrary: acc) (simp_all add: etb_term_list_push_def)
  then show "a_terms (capability_candidate l ts) = ts" by (simp add: capability_candidate_def)
qed (simp_all add: capability_candidate_def)

lemma capability_tuple_step:
  assumes c: "capability_tuple l st evidence (index, tuple) (e1, sts) = Inr (e2, sts')"
    and e: "engine_ok e1" and l: "wf_literal l" "capability_call e1 (l_atom l)"
    and st: "state_ok (e_trace e1) st" and t: "list_all wf_term tuple"
  shows "run_step e1 e2 \<and> e_relations e2 = e_relations e1 \<and>
    (\<forall>st' \<in> set sts'. st' \<in> set sts \<or> next_state e2 l st st')"
proof (cases "etb_unify_atom (s_bindings st) (l_atom l) (capability_candidate l tuple) False")
  case (Inl x)
  then show ?thesis
    using c st by (simp add: capability_tuple_def eval_state_clone_eq state_ok_def)
next
  case (Inr r)
  let ?c = "capability_candidate l tuple"
  let ?node = "capability_node ?c evidence index"
  show ?thesis
  proof (cases r)
    case None
    then show ?thesis
      using c st Inr run_step_refl [OF e]
      by (simp add: capability_tuple_def eval_state_clone_eq state_ok_def)
  next
    case (Some bs)
    note u = Inr [unfolded Some]
    have step: "or_skip (e1, sts) (etb_trace_append (e_trace e1) ?node) (\<lambda>(trace_id, trace).
        Inr (e1\<lparr>e_trace := trace\<rparr>, sts @ [st\<lparr>s_bindings := bs, s_premises := s_premises st @ [trace_id]\<rparr>]))
        = Inr (e2, sts')"
      using c u st by (simp add: capability_tuple_def eval_state_clone_eq state_ok_def
          etb_eval_state_push_premise_def)
    have kind: "a_kind (l_atom l) = ETB_ATOM_PREDICATE" using l(2) by (simp add: capability_call_def)
    have wf: "wf_atom ?c" using l(1) t kind by (simp add: wf_atom_def wf_literal_def)
    have keeps: "bindings_ok bs" "heads_agree (l_atom l) ?c False"
      using unify_atom_keeps [OF u _ _ wf] st l(1) unfolding state_ok_def wf_literal_def by blast+
    have "length tuple = length (a_terms (l_atom l))" using keeps(2) kind by (simp add: heads_agree_def)
    then have call: "capability_call e1 ?c" using l(2) unfolding capability_call_def candidate_fields by metis
    show ?thesis
    proof (cases "etb_trace_append (e_trace e1) ?node")
      case (Inl x)
      then show ?thesis
        using step run_step_refl [OF e] by (auto simp: or_skip_def split: etb_error.splits)
    next
      case (Inr r)
      then obtain i trace' where a: "etb_trace_append (e_trace e1) ?node = Inr (i, trace')" by (cases r) simp
      have e2: "e2 = e1\<lparr>e_trace := trace'\<rparr>"
        and sts': "sts' = sts @ [(st\<lparr>s_bindings := bs, s_premises := s_premises st @ [i]\<rparr>)]"
        using step a by (simp_all add: or_skip_def)
      have run: "run_step e1 e2"
        unfolding e2 using call
        by (intro run_step_append [OF e a])
          (auto simp: capability_node_def node_justified_def capability_call_grows)
      obtain digest where "i = length (e_trace e1)"
        and "trace' = e_trace e1 @ [?node\<lparr>n_id := i, n_digest_hex := digest\<rparr>]"
        using trace_append_eq [OF a] by blast
      then have "next_state e2 l st (st\<lparr>s_bindings := bs, s_premises := s_premises st @ [i]\<rparr>)"
        using keeps(1) u st l(2) kind
        by (auto simp: next_state_def e2 state_ok_def silent_def premise_ok_def capability_node_def
            capability_call_def)
      then show ?thesis using run sts' e2 by auto
    qed
  qed
qed

lemma try_capability_next:
  assumes e: "engine_ok e" and l: "wf_literal l" "capability_call e (l_atom l)"
    and st: "state_ok (e_trace e) st" and m: "etb_try_capability adapter e l st = Inr (e', sts)"
  shows "run_step e e' \<and> e_relations e' = e_relations e \<and> (\<forall>st' \<in> set sts. next_state e' l st st')"
proof -
  obtain decl args result where inv: "etb_capability_invoke adapter decl (map fst args) (map snd args) = Inr result"
    and loop: "fold_res (capability_tuple l st (cr_evidence_digests result))
      (zip [0..<length (cr_tuples result)] (cr_tuples result)) (e, []) = Inr (e', sts)"
    using m by (auto simp: etb_try_capability_def split: option.splits)
  let ?I = "\<lambda>(e1, sts). run_step e e1 \<and> e_relations e1 = e_relations e \<and> (\<forall>st' \<in> set sts. next_state e1 l st st')"
  have "?I (e', sts)"
    using loop
  proof (rule fold_res_invariant)
    show "?I (e, [])" using run_step_refl [OF e] by simp
  next
    fix x acc acc' assume x: "x \<in> set (zip [0..<length (cr_tuples result)] (cr_tuples result))"
      and I: "?I acc" and step: "capability_tuple l st (cr_evidence_digests result) x acc = Inr acc'"
    obtain index tuple e1 sts1 e2 sts2 where eqs: "x = (index, tuple)" "acc = (e1, sts1)" "acc' = (e2, sts2)"
      by (cases x; cases acc; cases acc') auto
    have e1: "engine_ok e1" "grows e e1" using I eqs run_step_ok [of e e1] by auto
    have "list_all wf_term tuple"
      using invoke_wf [OF inv] x eqs by (auto simp: list_all_iff dest!: set_zip_rightD)
    then have "run_step e1 e2 \<and> e_relations e2 = e_relations e1 \<and>
        (\<forall>st' \<in> set sts2. st' \<in> set sts1 \<or> next_state e2 l st st')"
      using capability_tuple_step [OF step [unfolded eqs] e1(1) l(1)] l(2) e1(2)
        state_ok_mono [OF e1(2) st] by (simp add: capability_call_grows)
    then show "?I acc'"
      using I eqs run_step_trans [of e e1 e2] next_state_grows [OF e1(1), of e2 l st]
        run_step_ok [of e1 e2] by auto
  qed
  then show ?thesis by simp
qed

lemma match_literal_next:
  assumes e: "engine_ok e" and l: "wf_literal l" and st: "state_ok (e_trace e) st"
    and m: "etb_match_literal adapter e l st = Inr (e', sts)"
  shows "run_step e e' \<and> e_relations e' = e_relations e \<and> (\<forall>st' \<in> set sts. next_state e' l st st')"
proof -
  have cap: "etb_literal_is_capability e l = Inr (capability_call e (l_atom l))"
    using is_capability_eq [OF _ l] e by (simp add: capability_call_def engine_ok_def)
  show ?thesis
  proof (cases "capability_call e (l_atom l)")
    case True
    then show ?thesis using m cap try_capability_next [OF e l True st] by (simp add: etb_match_literal_def)
  next
    case False
    then have "e' = e" using m cap by (auto simp: etb_match_literal_def)
    moreover have "next_state e l st st'" if "st' \<in> set sts" for st'
      using m cap False that match_negated_next [OF _ that st] match_says_next [OF e l st _ that]
        match_positive_next [OF e l st _ that]
      by (auto simp: etb_match_literal_def silent_def split: if_splits)
    ultimately show ?thesis using run_step_refl [OF e] by simp
  qed
qed

section \<open>Evaluating a clause\<close>

lemma inst_wf:
  assumes "bindings_ok bs" and "list_all wf_term ts"
  shows "list_all wf_term (map (inst (bindings_map bs)) ts)"
  using assms bindings_map_wf [OF assms(1)]
  by (auto simp: list_all_iff inst_def split: option.splits)

lemma wf_atom_terms: "wf_atom a \<Longrightarrow> list_all wf_term ts \<Longrightarrow> wf_atom (a\<lparr>a_terms := ts\<rparr>)"
  by (cases "a_kind a") (simp_all add: wf_atom_def)

definition queued :: "nat \<Rightarrow> etb_engine \<times> etb_fact list \<Rightarrow> bool" where
  "queued base = (\<lambda>(e, derived). \<forall>f \<in> set derived. fact_ok (e_trace e) f \<and> base \<le> f_trace_id f)"

definition clause_run :: "nat \<Rightarrow> etb_engine \<times> etb_fact list \<Rightarrow> etb_engine \<times> etb_fact list \<Rightarrow> bool" where
  "clause_run base = (\<lambda>(e, derived) (e', derived').
     run_step e e' \<and> e_relations e' = e_relations e \<and> queued base (e', derived'))"

lemma queued_grows: "grows e e' \<Longrightarrow> queued base (e, derived) \<Longrightarrow> queued base (e', derived)"
  by (auto simp: queued_def grows_def fact_ok_grows)

lemma clause_run_refl: "engine_ok e \<Longrightarrow> queued base (e, derived) \<Longrightarrow> clause_run base (e, derived) (e, derived)"
  by (simp add: clause_run_def run_step_refl)

lemma clause_run_trans: "clause_run base x y \<Longrightarrow> clause_run base y z \<Longrightarrow> clause_run base x z"
  using run_step_trans by (auto simp: clause_run_def split: prod.splits)

lemma derive_head_run:
  assumes e: "engine_ok e" and q: "queued base (e, derived)" and b: "base \<le> length (e_trace e)"
    and c: "rid < length (e_program e)" "e_program e ! rid = ETB_STMT_CLAUSE c"
    and st: "state_ok (e_trace e) st"
    and r: "replays e (cl_body c) (s_premises st) [] (s_bindings st)"
    and d: "derive_head c rid st (e, derived) = Inr (e', derived')"
  shows "clause_run base (e, derived) (e', derived')"
proof -
  have "ETB_STMT_CLAUSE c \<in> set (e_program e)" using c by (metis nth_mem)
  then have wf: "wf_atom (cl_head c)" "unreserved (cl_head c)"
    using program_ok_clause e by (auto simp: engine_ok_def wf_clause_def)
  define a where "a = (cl_head c)\<lparr>a_terms := map (inst (bindings_map (s_bindings st))) (a_terms (cl_head c))\<rparr>"
  have inst: "etb_instantiate_atom (cl_head c) (s_bindings st) = Inr a"
    using wf(1) by (simp add: instantiate_atom_eq wf_atom_def a_def)
  have wfa: "wf_atom a" "unreserved a"
    using wf st inst_wf [of "s_bindings st" "a_terms (cl_head c)"] wf_atom_terms [OF wf(1)]
    by (simp_all add: wf_atom_def state_ok_def unreserved_terms a_def)
  show ?thesis
  proof (cases "etb_atom_is_ground a \<and> \<not> etb_relation_contains_fact (e_relations e) a")
    case False
    then show ?thesis using d inst clause_run_refl [OF e q]
      by (auto simp: derive_head_def split: if_splits)
  next
    case True
    let ?node = "head_node c rid a (s_premises st)"
    obtain i trace' where app: "etb_trace_append (e_trace e) ?node = Inr (i, trace')"
      and e': "e' = e\<lparr>e_trace := trace'\<rparr>"
      and d': "derived' = derived @ [\<lparr>f_atom = a, f_trace_id = i, f_from_capability = False\<rparr>]"
      using d inst True by (auto simp: derive_head_def)
    have "node_justified e'' (?node\<lparr>n_id := i, n_digest_hex := digest\<rparr>)"
      if "engine_ok e''" "grows e e''" for e'' digest
      using replays_grows [OF e that r] c inst wfa(1) True that(2)
      by (auto simp: node_justified_def head_node_def ground_atom_def grows_def)
    then have run: "run_step e e'"
      unfolding e' using st by (intro run_step_append [OF e app]) (auto simp: head_node_def state_ok_def)
    obtain digest where "i = length (e_trace e)" "trace' = e_trace e @ [?node\<lparr>n_id := i, n_digest_hex := digest\<rparr>]"
      using trace_append_eq [OF app] by blast
    then have "fact_ok trace' \<lparr>f_atom = a, f_trace_id = i, f_from_capability = False\<rparr> \<and> base \<le> i"
      using wfa True b by (simp add: fact_ok_def ground_atom_def head_node_def)
    then show ?thesis
      using run queued_grows [OF _ q, of e'] run_step_ok [OF run] d' e'
      by (auto simp: clause_run_def queued_def)
  qed
qed

lemma clause_body_run:
  "engine_ok e \<Longrightarrow> queued base (e, derived) \<Longrightarrow> base \<le> length (e_trace e) \<Longrightarrow>
   rid < length (e_program e) \<Longrightarrow> e_program e ! rid = ETB_STMT_CLAUSE c \<Longrightarrow>
   state_ok (e_trace e) st \<Longrightarrow> cl_body c = before @ ls \<Longrightarrow>
   replays e before (s_premises st) [] (s_bindings st) \<Longrightarrow>
   etb_evaluate_clause_body adapter c rid ls st (e, derived) = Inr (e', derived') \<Longrightarrow>
     clause_run base (e, derived) (e', derived')"
proof (induction ls arbitrary: before st e derived e' derived')
  case Nil
  then show ?case using derive_head_run [of e base derived rid c st e' derived'] by simp
next
  case (Cons l ls)
  note e = Cons.prems(1)
  obtain e1 sts where m: "etb_match_literal adapter e l st = Inr (e1, sts)"
    and loop: "fold_res (etb_evaluate_clause_body adapter c rid ls) sts (e1, derived) = Inr (e', derived')"
    using Cons.prems(9) by auto
  have "ETB_STMT_CLAUSE c \<in> set (e_program e)" using Cons.prems(4,5) by (metis nth_mem)
  then have "wf_literal l"
    using program_ok_clause e Cons.prems(7) by (fastforce simp: engine_ok_def wf_clause_def)
  then have run: "run_step e e1" "e_relations e1 = e_relations e"
    and next_st: "\<And>st'. st' \<in> set sts \<Longrightarrow> next_state e1 l st st'"
    using match_literal_next [OF e _ Cons.prems(6) m] by auto
  have e1: "engine_ok e1" "grows e e1" using run_step_ok [OF run(1)] by auto
  have first: "clause_run base (e, derived) (e1, derived)"
    using run queued_grows [OF e1(2) Cons.prems(2)] by (simp add: clause_run_def)
  have "clause_run base (e1, derived) (e', derived')"
    using loop
  proof (rule fold_res_invariant)
    show "clause_run base (e1, derived) (e1, derived)"
      using clause_run_refl [OF e1(1)] queued_grows [OF e1(2) Cons.prems(2)] .
  next
    fix st' acc acc' assume st': "st' \<in> set sts" and I: "clause_run base (e1, derived) acc"
      and step: "etb_evaluate_clause_body adapter c rid ls st' acc = Inr acc'"
    obtain e2 d2 e3 d3 where eqs: "acc = (e2, d2)" "acc' = (e3, d3)" by (cases acc; cases acc') auto
    have e2: "engine_ok e2" "grows e1 e2" "queued base (e2, d2)"
      using I eqs run_step_ok [of e1 e2] by (auto simp: clause_run_def)
    have ns: "next_state e2 l st st'" using next_state_grows [OF e1(1) e2(1,2) next_st [OF st']] .
    have g: "grows e e2" using grows_trans [OF e1(2) e2(2)] .
    have "replays e2 before (s_premises st) [] (s_bindings st)"
      using replays_grows [OF e e2(1) g] Cons.prems(8) .
    moreover have "replays e2 [l] (if silent e2 l then [] else [last (s_premises st')])
        (s_bindings st) (s_bindings st')"
      using next_state_replays [OF ns] .
    ultimately have "replays e2 (before @ [l]) (s_premises st') [] (s_bindings st')"
      using replays_append ns by (fastforce simp: next_state_def split: if_splits)
    moreover have "base \<le> length (e_trace e2)" "e_program e2 = e_program e"
      using grows_length [OF g] Cons.prems(3) by auto
    ultimately have "clause_run base (e2, d2) (e3, d3)"
      using Cons.IH [of e2 d2 st' "before @ [l]" e3 d3] e2 ns step eqs Cons.prems(4,5,7)
      by (simp add: next_state_def)
    then show "clause_run base (e1, derived) acc'" using I eqs clause_run_trans by blast
  qed
  then show ?case using clause_run_trans first by blast
qed

section \<open>Passes\<close>

lemma all_facts_add:
  assumes "relations_ok rels"
  shows "set (all_facts (etb_relation_set_add_fact rels f)) =
    (if etb_relation_contains_fact rels (f_atom f) then set (all_facts rels)
     else insert f (set (all_facts rels)))"
proof (rule set_eqI)
  fix x
  show "x \<in> set (all_facts (etb_relation_set_add_fact rels f)) \<longleftrightarrow>
      x \<in> (if etb_relation_contains_fact rels (f_atom f) then set (all_facts rels)
            else insert f (set (all_facts rels)))"
    using all_facts_at [OF assms, of x] all_facts_at [OF relations_ok_add [OF assms, of f], of x]
    by (auto simp: facts_at_add contains_fact_at fact_key_def split: if_splits)
qed

lemma add_fact_step:
  assumes e: "engine_ok e" and f: "fact_ok (e_trace e) f"
  shows "run_step e (e\<lparr>e_relations := etb_relation_set_add_fact (e_relations e) f\<rparr>)"
proof -
  have rels: "relations_ok (e_relations e)" using e by (simp add: engine_ok_def)
  then show ?thesis
    using e f relations_ok_add [OF rels, of f] all_facts_add [OF rels, of f]
    by (auto simp: run_step_def engine_ok_def grows_def)
qed

text \<open>Every fact of the tables is old or was traced by the run.\<close>

definition new_facts_traced :: "nat \<Rightarrow> etb_engine \<Rightarrow> etb_engine \<Rightarrow> bool" where
  "new_facts_traced base e e' \<longleftrightarrow>
     (\<forall>f \<in> set (all_facts (e_relations e')). f \<in> set (all_facts (e_relations e)) \<or> base \<le> f_trace_id f)"

lemma store_derived_step:
  assumes e: "engine_ok e" and q: "queued base (e, f # derived)"
    and s: "store_derived f (e, changed) = (e', changed')"
  shows "run_step e e' \<and> queued base (e', derived) \<and> new_facts_traced base e e'"
proof -
  have f: "fact_ok (e_trace e) f" "base \<le> f_trace_id f" using q by (auto simp: queued_def)
  have "relations_ok (e_relations e)" using e by (simp add: engine_ok_def)
  then show ?thesis
    using s add_fact_step [OF e f(1)] run_step_refl [OF e] q f(2) all_facts_add [of "e_relations e" f]
    by (auto simp: store_derived_def new_facts_traced_def queued_def split: if_splits)
qed

lemma store_all_derived:
  "engine_ok e \<Longrightarrow> queued base (e, derived) \<Longrightarrow> fold store_derived derived (e, changed) = (e', changed') \<Longrightarrow>
     run_step e e' \<and> new_facts_traced base e e'"
proof (induction derived arbitrary: e changed)
  case Nil
  then show ?case using run_step_refl by (auto simp: new_facts_traced_def)
next
  case (Cons f derived)
  obtain e1 ch1 where s: "store_derived f (e, changed) = (e1, ch1)" by fastforce
  have one: "run_step e e1" "queued base (e1, derived)" "new_facts_traced base e e1"
    using store_derived_step [OF Cons.prems(1,2) s] by auto
  have "run_step e1 e' \<and> new_facts_traced base e1 e'"
    using Cons.IH [of e1 ch1] run_step_ok [OF one(1)] one(2) Cons.prems(3) s by simp
  then show ?case using run_step_trans [OF one(1)] one(3) by (auto simp: new_facts_traced_def)
qed

lemma evaluate_statements_run:
  assumes e: "engine_ok e"
    and loop: "fold_res (evaluate_statement adapter) (zip [0..<length (e_program e)] (e_program e)) (e, [])
      = Inr (e', derived)"
  shows "clause_run (length (e_trace e)) (e, []) (e', derived)"
  using loop
proof (rule fold_res_invariant)
  show "clause_run (length (e_trace e)) (e, []) (e, [])"
    using clause_run_refl [OF e] by (simp add: queued_def)
next
  fix x acc acc' assume x: "x \<in> set (zip [0..<length (e_program e)] (e_program e))"
    and I: "clause_run (length (e_trace e)) (e, []) acc" and step: "evaluate_statement adapter x acc = Inr acc'"
  obtain i s where xs: "x = (i, s)" by fastforce
  then have x': "x = (i, s)" "i < length (e_program e)" "e_program e ! i = s"
    using x by (auto simp: in_set_zip)
  obtain e1 d1 e2 d2 where eqs: "acc = (e1, d1)" "acc' = (e2, d2)" by (cases acc; cases acc') auto
  have e1: "engine_ok e1" "grows e e1" "queued (length (e_trace e)) (e1, d1)"
    using I eqs run_step_ok [of e e1] by (auto simp: clause_run_def)
  have "clause_run (length (e_trace e)) (e1, d1) (e2, d2)"
  proof (cases s)
    case (ETB_STMT_CAPABILITY d)
    then show ?thesis using step x' eqs clause_run_refl [OF e1(1,3)] by (simp add: evaluate_statement_def)
  next
    case (ETB_STMT_CLAUSE c)
    have init: "replays e1 [] (s_premises etb_eval_state_init) [] (s_bindings etb_eval_state_init)"
      by (simp add: etb_eval_state_init_def replays.finished)
    then show ?thesis
      using ETB_STMT_CLAUSE clause_body_run [OF e1(1,3), of i c etb_eval_state_init "[]" "cl_body c" adapter e2 d2] step x' eqs
        grows_length [OF e1(2)] init by (simp add: evaluate_statement_def)
  qed
  then show "clause_run (length (e_trace e)) (e, []) acc'" using I eqs clause_run_trans by blast
qed

lemma fixpoint_pass_run:
  assumes e: "engine_ok e" and p: "fixpoint_pass adapter e = Inr (e', changed)"
  shows "run_step e e' \<and> new_facts_traced (length (e_trace e)) e e'"
proof -
  obtain e1 derived where loop: "fold_res (evaluate_statement adapter)
      (zip [0..<length (e_program e)] (e_program e)) (e, []) = Inr (e1, derived)"
    and st: "fold store_derived derived (e1, False) = (e', changed)"
    using p by (auto simp: fixpoint_pass_def)
  have c: "run_step e e1" "e_relations e1 = e_relations e" "queued (length (e_trace e)) (e1, derived)"
    using evaluate_statements_run [OF e loop] by (auto simp: clause_run_def)
  then show ?thesis
    using store_all_derived [OF _ c(3) st] run_step_ok [OF c(1)] run_step_trans [OF c(1), of e']
    by (simp add: new_facts_traced_def)
qed

lemma fixpoint_passes_run:
  "engine_ok e \<Longrightarrow> fixpoint_passes adapter n e = Inr e' \<Longrightarrow>
     run_step e e' \<and> new_facts_traced (length (e_trace e)) e e'"
proof (induction n arbitrary: e)
  case 0
  then show ?case using run_step_refl by (auto simp: new_facts_traced_def)
next
  case (Suc n)
  then obtain e1 changed where p: "fixpoint_pass adapter e = Inr (e1, changed)"
    and r: "if changed then fixpoint_passes adapter n e1 = Inr e' else e' = e1"
    by (auto split: if_splits)
  have one: "run_step e e1" "new_facts_traced (length (e_trace e)) e e1"
    using fixpoint_pass_run [OF Suc.prems(1) p] by auto
  then have "run_step e1 e' \<and> new_facts_traced (length (e_trace e1)) e1 e'"
    using r Suc.IH [of e1] run_step_ok [OF one(1)] run_step_refl
    by (auto simp: new_facts_traced_def split: if_splits)
  then show ?case
    using one run_step_trans [OF one(1), of e'] grows_length [of e e1] run_step_ok [OF one(1)]
    by (fastforce simp: new_facts_traced_def)
qed

section \<open>Soundness\<close>

definition fact_justified :: "etb_engine \<Rightarrow> etb_fact \<Rightarrow> bool" where
  "fact_justified e f \<longleftrightarrow>
     f_trace_id f < length (e_trace e) \<and> n_fact (e_trace e ! f_trace_id f) = f_atom f \<and>
     node_justified e (e_trace e ! f_trace_id f)"

lemma run_fixpoint_step:
  "engine_ok e \<Longrightarrow> etb_engine_run_fixpoint adapter e = Inr e' \<Longrightarrow>
     run_step e e' \<and> new_facts_traced (length (e_trace e)) e e'"
  using fixpoint_passes_run by (auto simp: etb_engine_run_fixpoint_def simp del: fixpoint_passes.simps)

lemma run_fixpoint_facts:
  assumes "engine_ok e" and "etb_engine_run_fixpoint adapter e = Inr e'"
    and f: "f \<in> set (all_facts (e_relations e'))" "f \<notin> set (all_facts (e_relations e))"
  shows "fact_justified e' f"
proof -
  have run: "run_step e e'" "new_facts_traced (length (e_trace e)) e e'"
    using run_fixpoint_step [OF assms(1,2)] by auto
  have "length (e_trace e) \<le> f_trace_id f" using run(2) f by (auto simp: new_facts_traced_def)
  moreover have "fact_ok (e_trace e') f" using run(1) f(1) by (simp add: run_step_def engine_ok_def)
  ultimately show ?thesis using run(1) by (simp add: fact_justified_def fact_ok_def run_step_def)
qed

text \<open>
  C1. Soundness of evaluation, for every program, with negation, \<open>says\<close>, delegation and
  capabilities. A run of the fixpoint keeps the invariant, keeps every stored fact, and each fact
  it adds is the fact of a trace node that is a capability call's, or names a rule of the program
  whose body replays against the node's premises, all of them earlier nodes, to bindings under
  which the rule's head is the fact.
\<close>

theorem etb_engine_run_fixpoint_sound:
  assumes "engine_ok e" and "etb_engine_run_fixpoint adapter e = Inr e'"
  shows "engine_ok e' \<and> grows e e' \<and>
    (\<forall>f \<in> set (all_facts (e_relations e')). f \<in> set (all_facts (e_relations e)) \<or> fact_justified e' f)"
  using run_fixpoint_step [OF assms] run_fixpoint_facts [OF assms] run_step_ok by blast

text \<open>Answering a query.\<close>

lemma query_states:
  assumes e: "engine_ok e" and g: "wf_atom goal"
    and q: "etb_engine_query adapter e goal = Inr (e', answers)"
  shows "\<exists>states. etb_match_literal adapter e \<lparr>l_negated = False, l_atom = goal\<rparr> etb_eval_state_init = Inr (e', states) \<and>
    collect_res (query_answer goal) states = Inr answers"
  using q by (auto simp: etb_engine_query_def)

lemma query_run:
  assumes "engine_ok e" and "wf_atom goal" and "etb_engine_query adapter e goal = Inr (e', answers)"
  shows "run_step e e' \<and> e_relations e' = e_relations e \<and>
    (\<forall>a \<in> set answers. \<exists>bs. premise_ok e' \<lparr>l_negated = False, l_atom = goal\<rparr> (f_trace_id a) [] bs \<and>
       etb_instantiate_atom goal bs = Inr (f_atom a))"
proof -
  let ?l = "\<lparr>l_negated = False, l_atom = goal\<rparr>"
  obtain states where m: "etb_match_literal adapter e ?l etb_eval_state_init = Inr (e', states)"
    and c: "collect_res (query_answer goal) states = Inr answers"
    using query_states [OF assms] by blast
  have next_st: "run_step e e'" "e_relations e' = e_relations e"
    "\<And>st. st \<in> set states \<Longrightarrow> next_state e' ?l etb_eval_state_init st"
    using match_literal_next [OF assms(1) _ _ m] assms(2) by (auto simp: wf_literal_def)
  have "\<exists>bs. premise_ok e' ?l (f_trace_id a) [] bs \<and> etb_instantiate_atom goal bs = Inr (f_atom a)"
    if a: "a \<in> set answers" for a
  proof -
    obtain st where st: "st \<in> set states" "query_answer goal st = Inr (Some a)"
      using collect_res_in [OF c a] by blast
    then obtain i where "s_premises st = [i]" "premise_ok e' ?l i [] (s_bindings st)"
      using next_st(3) [OF st(1)] by (auto simp: next_state_def silent_def etb_eval_state_init_def)
    then show ?thesis
      using st(2) by (auto simp: query_answer_def or_skip_def split: sum.splits etb_error.splits)
  qed
  then show ?thesis using next_st by blast
qed

text \<open>
  C8. Soundness of queries. Every answer is the goal instantiated by matching it with the fact of
  the trace node the answer names: a stored fact, valid now and of the goal's time, whose speaker
  may speak for the goal's, or the result of the capability the goal calls. The query leaves the
  tables alone, and what it adds to the trace is justified.
\<close>

theorem etb_engine_query_sound:
  assumes "engine_ok e" and "wf_atom goal" and "etb_engine_query adapter e goal = Inr (e', answers)"
  shows "run_step e e' \<and> e_relations e' = e_relations e \<and>
    (\<forall>a \<in> set answers. \<exists>bs. premise_ok e' \<lparr>l_negated = False, l_atom = goal\<rparr> (f_trace_id a) [] bs \<and>
       etb_instantiate_atom goal bs = Inr (f_atom a))"
  using assms by (rule query_run)

text \<open>Importing the answers of a certificate.\<close>

lemma import_answer_step:
  assumes e: "engine_ok e" and a: "wf_atom a" "unreserved a"
    and i: "import_answer evidence a e = Inr e'"
  shows "engine_ok e' \<and> grows e e' \<and> etb_atom_is_ground a \<and>
    etb_relation_contains_fact (e_relations e') a \<and>
    length (e_trace e') = Suc (length (e_trace e))"
proof -
  obtain j trace' where app: "etb_trace_append (e_trace e) (import_node a evidence) = Inr (j, trace')"
    and g: "etb_atom_is_ground a"
    and e': "e' = e\<lparr>e_trace := trace', e_relations := etb_relation_set_add_fact (e_relations e)
              \<lparr>f_atom = a, f_trace_id = j, f_from_capability = False\<rparr>\<rparr>"
    using i by (auto simp: import_answer_def split: if_splits)
  let ?f = "\<lparr>f_atom = a, f_trace_id = j, f_from_capability = False\<rparr>"
  let ?e = "e\<lparr>e_trace := trace'\<rparr>"
  obtain digest where one: "engine_ok ?e" "grows e ?e" "j = length (e_trace e)"
    "trace' = e_trace e @ [(import_node a evidence)\<lparr>n_id := j, n_digest_hex := digest\<rparr>]"
    using trace_append_grows [OF e app] by (auto simp: import_node_def)
  then have "fact_ok trace' ?f"
    using a g by (simp add: fact_ok_def ground_atom_def import_node_def)
  then have "run_step ?e (?e\<lparr>e_relations := etb_relation_set_add_fact (e_relations ?e) ?f\<rparr>)"
    using add_fact_step [OF one(1)] by simp
  then have "engine_ok e'" "grows ?e e'" using run_step_ok e' by fastforce+
  moreover have "etb_relation_contains_fact (e_relations e') a"
    using tables.add_contains [of "e_relations e" ?f] e' by (simp add: contains_fact_at fact_key_def)
  ultimately show ?thesis using one g e' grows_trans [of e ?e e'] by simp
qed

lemma contains_grows:
  assumes "engine_ok e" and "engine_ok e'" and "grows e e'" and "etb_relation_contains_fact (e_relations e) a"
  shows "etb_relation_contains_fact (e_relations e') a"
proof -
  obtain f where f: "f \<in> set (facts_at (e_relations e) (etb_atom_relation_key a))" "etb_atom_equals (f_atom f) a"
    using assms(4) by (auto simp: contains_fact_at fact_list_contains_def list_ex_iff)
  then have "f \<in> set (all_facts (e_relations e'))" "fact_key f = etb_atom_relation_key a"
    using tables_facts_at [OF engine_ok_tables [OF assms(1)] f(1)] assms(3) by (auto simp: grows_def)
  then have "f \<in> set (facts_at (e_relations e') (etb_atom_relation_key a))"
    using all_facts_at [of "e_relations e'" f] assms(2) by (simp add: engine_ok_def)
  then show ?thesis using f(2) by (auto simp: contains_fact_at fact_list_contains_def list_ex_iff)
qed

lemma import_answers_step:
  "engine_ok e \<Longrightarrow> \<forall>a \<in> set answers. wf_atom a \<and> unreserved a \<Longrightarrow>
     fold_res (import_answer evidence) answers e = Inr e' \<Longrightarrow>
     engine_ok e' \<and> grows e e' \<and> length (e_trace e') = length (e_trace e) + length answers \<and>
     (\<forall>a \<in> set answers. etb_atom_is_ground a \<and> etb_relation_contains_fact (e_relations e') a)"
proof (induction answers arbitrary: e)
  case Nil
  then show ?case by simp
next
  case (Cons a answers)
  then obtain e1 where s: "import_answer evidence a e = Inr e1"
    "fold_res (import_answer evidence) answers e1 = Inr e'" by auto
  have one: "engine_ok e1" "grows e e1" "etb_atom_is_ground a" "etb_relation_contains_fact (e_relations e1) a"
    "length (e_trace e1) = Suc (length (e_trace e))"
    using import_answer_step [OF Cons.prems(1) _ _ s(1)] Cons.prems(2) by auto
  have rest: "engine_ok e'" "grows e1 e'" "length (e_trace e') = length (e_trace e1) + length answers"
    "\<forall>b \<in> set answers. etb_atom_is_ground b \<and> etb_relation_contains_fact (e_relations e') b"
    using Cons.IH [OF one(1) _ s(2)] Cons.prems(2) by auto
  then show ?case
    using one grows_trans [OF one(2) rest(2)] contains_grows [OF one(1) rest(1,2) one(4)] by simp
qed


section \<open>Setting an engine up\<close>

lemma engine_ok_init [simp]: "engine_ok (etb_engine_init now)"
  by (simp add: engine_ok_def etb_engine_init_def program_ok_def wf_program_def registry_ok_def all_facts_def)

lemma program_ok_named: "program_ok p \<Longrightarrow> list_all named_statement p"
  by (auto simp: program_ok_def wf_program_def list_all_iff wf_statement_def named_statement_def
      split: etb_statement.splits)

lemma load_program_ok:
  "engine_ok e \<Longrightarrow> program_ok p \<Longrightarrow>
     \<exists>e'. etb_engine_load_program e p = Inr e' \<and> engine_ok e' \<and> e_program e' = p \<and>
       e_relations e' = e_relations e \<and> e_trace e' = e_trace e \<and> e_now e' = e_now e"
  using program_ok_named [of p] registry_ok_capabilities [of p]
  by (simp add: load_program_eq engine_ok_def)

section \<open>A run\<close>

text \<open>The program \<open>q. p :- q.\<close>, run on an empty engine.\<close>

definition chain_clause :: etb_clause where
  "chain_clause = \<lparr>cl_head = nullary ''p'', cl_body = [\<lparr>l_negated = False, l_atom = nullary ''q''\<rparr>],
     cl_source_line = 2\<rparr>"

definition unit_clause :: "string \<Rightarrow> etb_clause" where
  "unit_clause q = \<lparr>cl_head = nullary q, cl_body = [], cl_source_line = 1\<rparr>"

definition chain_engine :: etb_engine where
  "chain_engine = (etb_engine_init 0)\<lparr>e_program :=
     [ETB_STMT_CLAUSE (unit_clause ''q''), ETB_STMT_CLAUSE chain_clause]\<rparr>"

lemma nullary_simps [simp]:
  "a_kind (nullary p) = ETB_ATOM_PREDICATE" "a_predicate (nullary p) = Some p" "a_terms (nullary p) = []"
  "a_temporal_kind (nullary p) = ETB_TEMPORAL_NONE" "wf_atom (nullary p)" "etb_atom_is_ground (nullary p)"
  by (simp_all add: nullary_def etb_atom_init_def wf_atom_def etb_atom_is_ground_def)

lemma nullary_equals [simp]: "etb_atom_equals (nullary p) (nullary q) \<longleftrightarrow> p = q"
  by (subst etb_atom_equals_iff_eq) (auto simp: nullary_def etb_atom_init_def)

lemma nullary_instantiate [simp]: "etb_instantiate_atom (nullary p) bs = Inr (nullary p)"
  by (subst instantiate_atom_eq) (simp_all add: nullary_def etb_atom_init_def)

lemma nullary_unify [simp]:
  "etb_unify_atom bs (nullary p) (nullary q) False = Inr (if p = q then Some bs else None)"
  by (subst unify_atom_reduce) (simp_all add: heads_agree_def)

lemma nullary_append:
  assumes "n_fact node = nullary p" and "length trace < 10" and "n_rule_id node < 10"
    and "n_premises node = [] \<or> (\<exists>q < 10. n_premises node = [q])"
  shows "\<exists>digest. etb_trace_append trace node =
    Inr (length trace, trace @ [node\<lparr>n_id := length trace, n_digest_hex := digest\<rparr>])"
proof -
  obtain trace' where t: "etb_trace_append trace node = Inr (length trace, trace')"
    using etb_trace_append_total [of node 1 trace] assms by auto
  then show ?thesis using trace_append_eq [OF t] by auto
qed

lemmas pass_simps =
  fixpoint_pass_def evaluate_statement_def etb_match_literal_def
  etb_literal_is_capability_def match_positive_def match_positive_fact_def extend_state_def
  eval_state_clone_eq etb_fact_valid_now_def etb_literal_temporal_matches_def
  etb_eval_state_push_premise_def etb_eval_state_init_def derive_head_def
  etb_relation_contains_fact_def etb_relation_set_find_def fact_list_contains_def nullary_key
  store_derived_def etb_relation_set_add_fact_def etb_relation_set_add_relation_def
  relation_push_fact_def

definition chain_relations :: "nat \<Rightarrow> etb_relation_set" where
  "chain_relations n = take n
     [\<lparr>r_key = ''q/0'', r_facts = [\<lparr>f_atom = nullary ''q'', f_trace_id = 0, f_from_capability = False\<rparr>]\<rparr>,
      \<lparr>r_key = ''p/0'', r_facts = [\<lparr>f_atom = nullary ''p'', f_trace_id = 1, f_from_capability = False\<rparr>]\<rparr>]"

lemma chain_accepted: "\<exists>strata. etb_program_validate chain_engine = Inr strata"
proof -
  have "registry_ok (e_capabilities chain_engine)" "wf_program (e_program chain_engine)"
    "program_accepted chain_engine"
    by (simp_all add: chain_engine_def etb_engine_init_def registry_ok_def wf_program_def wf_statement_def
        wf_clause_def wf_literal_def program_accepted_def clause_accepted_def negation_supported_def
        constrained_vars_def atom_vars_def unit_clause_def chain_clause_def)
  then show ?thesis using validate_eq [of chain_engine] by auto
qed

lemma chain_run:
  "\<exists>e'. etb_engine_run_fixpoint adapter chain_engine = Inr e' \<and> e_relations e' = chain_relations 2 \<and>
     fixpoint_pass adapter e' = Inr (e', False) \<and>
     (\<exists>d0 d1. e_trace e' =
        [(head_node (unit_clause ''q'') 0 (nullary ''q'') [])\<lparr>n_id := 0, n_digest_hex := d0\<rparr>,
         (head_node chain_clause 1 (nullary ''p'') [0])\<lparr>n_id := 1, n_digest_hex := d1\<rparr>])"
proof -
  let ?n0 = "head_node (unit_clause ''q'') 0 (nullary ''q'') []"
  let ?n1 = "head_node chain_clause 1 (nullary ''p'') [0]"
  obtain d0 where a0: "etb_trace_append [] ?n0 = Inr (0, [?n0\<lparr>n_id := 0, n_digest_hex := d0\<rparr>])"
    using nullary_append [of ?n0 "''q''" "[]"] by (auto simp: head_node_def)
  define T1 where "T1 = [?n0\<lparr>n_id := 0, n_digest_hex := d0\<rparr>]"
  obtain d1 where a1: "etb_trace_append T1 ?n1 = Inr (1, T1 @ [?n1\<lparr>n_id := 1, n_digest_hex := d1\<rparr>])"
    using nullary_append [of ?n1 "''p''" T1] by (auto simp: head_node_def T1_def)
  define T2 where "T2 = T1 @ [?n1\<lparr>n_id := 1, n_digest_hex := d1\<rparr>]"
  note prog = chain_engine_def etb_engine_init_def unit_clause_def chain_clause_def
  have heads: "cl_head (unit_clause q) = nullary q" "cl_body (unit_clause q) = []"
    "cl_head chain_clause = nullary ''p''"
    "cl_body chain_clause = [\<lparr>l_negated = False, l_atom = nullary ''q''\<rparr>]" for q
    by (simp_all add: unit_clause_def chain_clause_def)
  let ?e0 = "chain_engine"
  let ?e1 = "chain_engine\<lparr>e_trace := T1, e_relations := chain_relations 1\<rparr>"
  let ?e2 = "chain_engine\<lparr>e_trace := T2, e_relations := chain_relations 2\<rparr>"
  have fields: "e_program ?e0 = [ETB_STMT_CLAUSE (unit_clause ''q''), ETB_STMT_CLAUSE chain_clause]"
    "e_capabilities ?e0 = []" "e_relations ?e0 = []" "e_trace ?e0 = []" "e_now ?e0 = 0"
    by (simp_all add: chain_engine_def etb_engine_init_def)
  have p1: "fixpoint_pass adapter ?e0 = Inr (?e1, True)"
    using a0 by (simp add: pass_simps heads fields T1_def chain_relations_def)
  have p2: "fixpoint_pass adapter ?e1 = Inr (?e2, True)"
    using a1 by (simp add: pass_simps heads fields chain_relations_def T2_def)
  have p3: "fixpoint_pass adapter ?e2 = Inr (?e2, False)"
    by (simp add: pass_simps heads fields chain_relations_def)
  have "fixpoint_passes adapter (Suc (Suc (Suc n))) ?e0 = Inr ?e2" for n
    by (simp add: p1 p2 p3 del: bind_res_eq_Inr One_nat_def)
  from this [of 61] have "fixpoint_passes adapter 64 ?e0 = Inr ?e2" by (simp del: fixpoint_passes.simps)
  then show ?thesis using chain_accepted p3
    by (intro exI [of _ ?e2]) (auto simp: etb_engine_run_fixpoint_def T2_def T1_def simp del: fixpoint_passes.simps)
qed

lemma chain_engine_ok: "engine_ok chain_engine"
  by (auto simp: engine_ok_def chain_engine_def etb_engine_init_def program_ok_def wf_program_def
      wf_statement_def wf_clause_def wf_literal_def registry_ok_def all_facts_def unit_clause_def
      chain_clause_def unreserved_def nullary_key)

lemma etb_engine_run_fixpoint_sound_witness:
  "\<exists>e' f. etb_engine_run_fixpoint (\<lambda>_ _. Spawn_failed) chain_engine = Inr e' \<and> engine_ok e' \<and>
     f \<in> set (all_facts (e_relations e')) \<and> f_atom f = nullary ''p'' \<and> fact_justified e' f"
proof -
  obtain e' where r: "etb_engine_run_fixpoint (\<lambda>_ _. Spawn_failed) chain_engine = Inr e'"
    and rels: "e_relations e' = chain_relations 2" using chain_run by blast
  let ?f = "\<lparr>f_atom = nullary ''p'', f_trace_id = 1, f_from_capability = False\<rparr>"
  have "?f \<in> set (all_facts (e_relations e'))" "?f \<notin> set (all_facts (e_relations chain_engine))"
    by (simp_all add: rels chain_relations_def all_facts_def chain_engine_def etb_engine_init_def)
  then have "engine_ok e' \<and> fact_justified e' ?f"
    using etb_engine_run_fixpoint_sound [OF chain_engine_ok r] by blast
  then show ?thesis using r \<open>?f \<in> _\<close> by (intro exI [of _ e'] exI [of _ ?f]) simp
qed

lemma chain_query:
  assumes "e_relations e = chain_relations 2" and "e_capabilities e = []"
  shows "etb_engine_query adapter e (nullary ''p'') =
    Inr (e, [\<lparr>f_atom = nullary ''p'', f_trace_id = 1, f_from_capability = False\<rparr>])"
  using assms
  by (simp add: etb_engine_query_def query_answer_def or_skip_def pass_simps chain_relations_def)

lemma etb_engine_query_sound_witness:
  "\<exists>e bs. premise_ok e \<lparr>l_negated = False, l_atom = nullary ''p''\<rparr> 1 [] bs \<and>
     etb_engine_query (\<lambda>_ _. Spawn_failed) e (nullary ''p'') =
       Inr (e, [\<lparr>f_atom = nullary ''p'', f_trace_id = 1, f_from_capability = False\<rparr>])"
proof -
  obtain e where r: "etb_engine_run_fixpoint (\<lambda>_ _. Spawn_failed) chain_engine = Inr e"
    and rels: "e_relations e = chain_relations 2" using chain_run by blast
  have e: "engine_ok e" "e_capabilities e = []"
    using run_fixpoint_step [OF chain_engine_ok r] run_step_ok
    by (auto simp: run_step_def grows_def chain_engine_def etb_engine_init_def)
  note q = chain_query [OF rels e(2), of "\<lambda>_ _. Spawn_failed"]
  show ?thesis using etb_engine_query_sound [OF e(1) _ q] q by auto
qed


end
