(* ===== verification/Least_Model.thy ===== *)
theory Least_Model
  imports Eval_Invariant
begin

text \<open>
  Evaluation against its declarative meaning. For programs without negation and without capability
  calls, \<open>derivable\<close> is the least set of atoms that contains the facts given and is closed under
  the rules, a \<open>says\<close> literal being satisfied by whoever the \<open>speaks_for\<close> atoms of the set let
  speak for its principal. The fixpoint of \<open>eval.c\<close> computes exactly that set when its passes
  settle, which they do within the 64 it makes if fewer than 64 atoms are new.
\<close>

section \<open>The meaning of a program\<close>

definition valid_at :: "u64 \<Rightarrow> etb_atom \<Rightarrow> bool" where
  "valid_at now a \<longleftrightarrow> a_temporal_kind a \<noteq> ETB_TEMPORAL_EXPIRES_AT \<or> now \<le> a_temporal_value a"

definition may_speak :: "etb_atom set \<Rightarrow> u64 \<Rightarrow> etb_atom \<Rightarrow> etb_atom \<Rightarrow> bool" where
  "may_speak I now c w \<longleftrightarrow>
     (\<exists>s t p. a_principal c = Some s \<and> a_principal w = Some t \<and> a_predicate c = Some p \<and>
        delegates {a \<in> I. a_kind a = ETB_ATOM_SPEAKS_FOR} now p s t 0 8)"

definition satisfies :: "etb_atom set \<Rightarrow> u64 \<Rightarrow> (string \<rightharpoonup> etb_term) \<Rightarrow> etb_literal \<Rightarrow> etb_atom \<Rightarrow> bool" where
  "satisfies I now \<sigma> l c \<longleftrightarrow>
     c \<in> I \<and> valid_at now c \<and> etb_literal_temporal_matches l c \<and>
     atom_matches \<sigma> (l_atom l) c (a_kind (l_atom l) = ETB_ATOM_SAYS) \<and>
     (a_kind (l_atom l) = ETB_ATOM_SAYS \<longrightarrow> may_speak I now c (l_atom l))"

definition satisfied :: "etb_atom set \<Rightarrow> u64 \<Rightarrow> (string \<rightharpoonup> etb_term) \<Rightarrow> etb_literal \<Rightarrow> bool" where
  "satisfied I now \<sigma> l \<longleftrightarrow> (\<exists>c. satisfies I now \<sigma> l c)"

definition instance_of :: "etb_atom \<Rightarrow> (string \<rightharpoonup> etb_term) \<Rightarrow> etb_atom" where
  "instance_of a \<sigma> = a\<lparr>a_terms := map (inst \<sigma>) (a_terms a)\<rparr>"

lemma satisfies_mono: "I \<subseteq> J \<Longrightarrow> satisfies I now \<sigma> l c \<Longrightarrow> satisfies J now \<sigma> l c"
proof -
  assume "I \<subseteq> J"
  then have "{a \<in> I. a_kind a = ETB_ATOM_SPEAKS_FOR} \<subseteq> {a \<in> J. a_kind a = ETB_ATOM_SPEAKS_FOR}"
    by blast
  from delegates_mono [OF this] show "satisfies I now \<sigma> l c \<Longrightarrow> satisfies J now \<sigma> l c"
    using \<open>I \<subseteq> J\<close> by (fastforce simp: satisfies_def may_speak_def)
qed

lemma satisfied_mono [mono]:
  "(\<And>a. P a \<longrightarrow> Q a) \<Longrightarrow> satisfied (Collect P) now \<sigma> l \<longrightarrow> satisfied (Collect Q) now \<sigma> l"
  using satisfies_mono [of "Collect P" "Collect Q"] by (metis Collect_mono satisfied_def)

inductive derivable :: "etb_program \<Rightarrow> u64 \<Rightarrow> etb_atom set \<Rightarrow> etb_atom \<Rightarrow> bool"
  for program now base
where
  given: "a \<in> base \<Longrightarrow> derivable program now base a"
| rule: "ETB_STMT_CLAUSE c \<in> set program \<Longrightarrow>
    \<forall>l \<in> set (cl_body c). satisfied {a. derivable program now base a} now \<sigma> l \<Longrightarrow>
    etb_atom_is_ground (instance_of (cl_head c) \<sigma>) \<Longrightarrow>
    derivable program now base (instance_of (cl_head c) \<sigma>)"

text \<open>The atoms of the tables.\<close>

definition atoms_of :: "etb_engine \<Rightarrow> etb_atom set" where
  "atoms_of e = f_atom ` set (all_facts (e_relations e))"

text \<open>The programs considered; the last condition holds of every \<open>speaks_for\<close> atom the parser builds.\<close>

definition positive_literal :: "etb_engine \<Rightarrow> etb_literal \<Rightarrow> bool" where
  "positive_literal e l \<longleftrightarrow> \<not> l_negated l \<and> \<not> capability_call e (l_atom l) \<and>
     (a_kind (l_atom l) = ETB_ATOM_SPEAKS_FOR \<longrightarrow> a_terms (l_atom l) = [])"

definition positive_program :: "etb_engine \<Rightarrow> bool" where
  "positive_program e \<longleftrightarrow>
     (\<forall>c. ETB_STMT_CLAUSE c \<in> set (e_program e) \<longrightarrow> list_all (positive_literal e) (cl_body c))"

section \<open>Matching is exact\<close>

lemma unify_atom_ground:
  assumes "bindings_ok bs" and "wf_atom p" and "ground_atom c"
  shows "\<exists>r. etb_unify_atom bs p c ign = Inr r \<and> least_match bs r (\<lambda>\<sigma>. atom_matches \<sigma> p c ign)"
proof (cases "a_kind c = ETB_ATOM_SPEAKS_FOR")
  case True
  then show ?thesis
    using assms unify_atom_reduce [of p c bs ign]
    by (auto simp: ground_atom_def atom_matches_def heads_agree_def least_match_def)
next
  case False
  then have "ground_terms (a_terms c)"
    using assms(3)
    by (cases "a_kind c")
      (auto simp: ground_atom_def ground_terms_def wf_atom_def etb_atom_is_ground_def list_all_iff)
  then show ?thesis using unify_atom_least [OF assms(1,2)] assms(3) by (auto simp: ground_atom_def)
qed

lemma heads_agree_key:
  "heads_agree p c False \<Longrightarrow> etb_atom_relation_key c = etb_atom_relation_key p"
  by (auto simp: heads_agree_def etb_atom_relation_key_def split: if_splits)

text \<open>What matching a literal with one fact yields.\<close>

definition extended_by :: "etb_literal \<Rightarrow> etb_eval_state \<Rightarrow> etb_fact \<Rightarrow> etb_eval_state \<Rightarrow> bool" where
  "extended_by l st f st' \<longleftrightarrow>
     (\<exists>bs. etb_unify_atom (s_bindings st) (l_atom l) (f_atom f) (a_kind (l_atom l) = ETB_ATOM_SAYS) = Inr (Some bs) \<and>
        st' = st\<lparr>s_bindings := bs, s_premises := s_premises st @ [f_trace_id f]\<rparr>)"

lemma extend_state_exact:
  assumes "bindings_ok (s_bindings st)" and "wf_literal l" and "ground_atom (f_atom f)"
  shows "\<exists>r. extend_state l st (a_kind (l_atom l) = ETB_ATOM_SAYS) f = Inr r \<and>
    (\<forall>st'. r = Some st' \<longleftrightarrow> extended_by l st f st')"
proof -
  obtain r where "etb_unify_atom (s_bindings st) (l_atom l) (f_atom f) (a_kind (l_atom l) = ETB_ATOM_SAYS) = Inr r"
    using unify_atom_ground [of "s_bindings st" "l_atom l" "f_atom f"] assms by (auto simp: wf_literal_def)
  then show ?thesis
    using assms(1) by (cases r)
      (auto simp: extend_state_def eval_state_clone_eq etb_eval_state_push_premise_def extended_by_def)
qed

lemma collect_res_exact:
  assumes "\<And>x. x \<in> set xs \<Longrightarrow> \<exists>r. f x = Inr r \<and> (\<forall>y. r = Some y \<longleftrightarrow> P x y)"
  shows "\<exists>ys. collect_res f xs = Inr ys \<and> (\<forall>y. y \<in> set ys \<longleftrightarrow> (\<exists>x \<in> set xs. P x y))"
  using assms
proof (induction xs)
  case Nil
  then show ?case by simp
next
  case (Cons x xs)
  obtain ys where ys: "collect_res f xs = Inr ys" "\<forall>y. y \<in> set ys \<longleftrightarrow> (\<exists>x \<in> set xs. P x y)"
    using Cons.IH Cons.prems by (meson list.set_intros(2))
  obtain r where "f x = Inr r" "\<forall>y. r = Some y \<longleftrightarrow> P x y" using Cons.prems by (meson list.set_intros(1))
  then show ?case using ys by (cases r) auto
qed

lemma atoms_of_facts: "a \<in> atoms_of e \<longleftrightarrow> (\<exists>f \<in> set (all_facts (e_relations e)). f_atom f = a)"
  by (auto simp: atoms_of_def)

lemma speaks_edges_eq:
  assumes "tables_ok e"
  shows "speaks_edges e = {a \<in> atoms_of e. a_kind a = ETB_ATOM_SPEAKS_FOR}"
proof (rule set_eqI)
  fix a
  show "a \<in> speaks_edges e \<longleftrightarrow> a \<in> {a \<in> atoms_of e. a_kind a = ETB_ATOM_SPEAKS_FOR}"
  proof
    assume "a \<in> speaks_edges e"
    then obtain f where f: "f \<in> set (facts_at (e_relations e) ''__speaks_for__/2'')" "a = f_atom f"
      by (auto simp: speaks_edges_def)
    then show "a \<in> {a \<in> atoms_of e. a_kind a = ETB_ATOM_SPEAKS_FOR}"
      using tables_facts_at [OF assms f(1)] unreserved_speaks [of a]
      by (auto simp: atoms_of_facts fact_key_def)
  next
    assume "a \<in> {a \<in> atoms_of e. a_kind a = ETB_ATOM_SPEAKS_FOR}"
    then obtain f where f: "f \<in> set (all_facts (e_relations e))" "a = f_atom f" "a_kind a = ETB_ATOM_SPEAKS_FOR"
      by (auto simp: atoms_of_facts)
    then have "f \<in> set (facts_at (e_relations e) ''__speaks_for__/2'')"
      using all_facts_at [of "e_relations e" f] assms speaks_key [of a]
      by (simp add: tables_ok_def fact_key_def)
    then show "a \<in> speaks_edges e" using f(2) by (auto simp: speaks_edges_def)
  qed
qed

text \<open>The condition on a stored fact, and the states it gives.\<close>

definition usable_fact :: "etb_engine \<Rightarrow> etb_literal \<Rightarrow> etb_atom \<Rightarrow> bool" where
  "usable_fact e l c \<longleftrightarrow>
     valid_at (e_now e) c \<and> etb_literal_temporal_matches l c \<and>
     (a_kind (l_atom l) = ETB_ATOM_SAYS \<longrightarrow> may_speak (atoms_of e) (e_now e) c (l_atom l))"

lemma valid_now_eq: "etb_fact_valid_now e a = valid_at (e_now e) a"
  by (simp add: etb_fact_valid_now_def valid_at_def)

lemma match_positive_exact:
  assumes e: "tables_ok e" and l: "wf_literal l" and st: "bindings_ok (s_bindings st)"
    and k: "a_kind (l_atom l) \<noteq> ETB_ATOM_SAYS"
  shows "\<exists>sts. match_positive e l st = Inr sts \<and>
    (\<forall>st'. st' \<in> set sts \<longleftrightarrow>
      (\<exists>f \<in> set (all_facts (e_relations e)). usable_fact e l (f_atom f) \<and> extended_by l st f st'))"
proof -
  let ?key = "etb_atom_relation_key (l_atom l)"
  have "\<exists>sts. collect_res (match_positive_fact e l st) (facts_at (e_relations e) ?key) = Inr sts \<and>
    (\<forall>st'. st' \<in> set sts \<longleftrightarrow>
      (\<exists>f \<in> set (facts_at (e_relations e) ?key). usable_fact e l (f_atom f) \<and> extended_by l st f st'))"
  proof (rule collect_res_exact)
    fix f assume "f \<in> set (facts_at (e_relations e) ?key)"
    then have "ground_atom (f_atom f)" using tables_facts_at [OF e] by blast
    then show "\<exists>r. match_positive_fact e l st f = Inr r \<and>
        (\<forall>st'. r = Some st' \<longleftrightarrow> usable_fact e l (f_atom f) \<and> extended_by l st f st')"
      using extend_state_exact [OF st l, of f] k
      by (auto simp: match_positive_fact_def usable_fact_def valid_now_eq)
  qed
  then obtain sts where sts: "collect_res (match_positive_fact e l st) (facts_at (e_relations e) ?key) = Inr sts"
    "\<forall>st'. st' \<in> set sts \<longleftrightarrow>
      (\<exists>f \<in> set (facts_at (e_relations e) ?key). usable_fact e l (f_atom f) \<and> extended_by l st f st')" by blast
  have "match_positive e l st = Inr sts"
    using sts(1) by (auto simp: match_positive_def facts_at_def split: option.splits)
  moreover have "f \<in> set (facts_at (e_relations e) ?key) \<and> extended_by l st f st' \<longleftrightarrow>
      f \<in> set (all_facts (e_relations e)) \<and> extended_by l st f st'" for f st'
  proof -
    have "fact_key f = ?key" if f: "f \<in> set (all_facts (e_relations e))" and ext: "extended_by l st f st'"
    proof -
      obtain bs where "etb_unify_atom (s_bindings st) (l_atom l) (f_atom f) False = Inr (Some bs)"
        using ext k by (auto simp: extended_by_def)
      moreover have "wf_atom (f_atom f)" using f e by (auto simp: tables_ok_def ground_atom_def)
      ultimately show ?thesis
        using unify_atom_reduce [of "l_atom l" "f_atom f" "s_bindings st" False] l heads_agree_key
        by (auto simp: fact_key_def wf_literal_def split: if_splits)
    qed
    moreover have "relations_ok (e_relations e)" using e by (simp add: tables_ok_def)
    ultimately show ?thesis using all_facts_at [THEN iffD1, of "e_relations e" f] tables_facts_at [OF e] by metis
  qed
  ultimately show ?thesis using sts(2) by (intro exI [of _ sts]) blast
qed

lemma fold_collect_exact:
  assumes "\<And>r. r \<in> set rs \<Longrightarrow> q r \<Longrightarrow> \<exists>ys. g r = Inr ys \<and> (\<forall>y. y \<in> set ys \<longleftrightarrow> P r y)"
  shows "\<exists>ys. fold_res (\<lambda>r acc. if \<not> q r then Inr acc
      else bind_res (g r) (\<lambda>more. Inr (acc @ more))) rs acc = Inr (acc @ ys) \<and>
    (\<forall>y. y \<in> set ys \<longleftrightarrow> (\<exists>r \<in> set rs. q r \<and> P r y))"
  using assms
proof (induction rs arbitrary: acc)
  case Nil
  then show ?case by simp
next
  case (Cons r rs)
  note IH = Cons.IH [OF Cons.prems [OF list.set_intros(2)]]
  show ?case
  proof (cases "q r")
    case False
    then show ?thesis using IH [of acc] by auto
  next
    case True
    then obtain xs where xs: "g r = Inr xs" "\<forall>y. y \<in> set xs \<longleftrightarrow> P r y"
      using Cons.prems [of r] by auto
    obtain ys where "fold_res (\<lambda>r acc. if \<not> q r then Inr acc
        else bind_res (g r) (\<lambda>more. Inr (acc @ more))) rs (acc @ xs) = Inr ((acc @ xs) @ ys)"
      "\<forall>y. y \<in> set ys \<longleftrightarrow> (\<exists>r \<in> set rs. q r \<and> P r y)" using IH [of "acc @ xs"] by blast
    then show ?thesis using True xs by (intro exI [of _ "xs @ ys"]) auto
  qed
qed

lemma match_says_fact_exact:
  assumes e: "tables_ok e" and l: "wf_literal l" "a_kind (l_atom l) = ETB_ATOM_SAYS"
    and st: "bindings_ok (s_bindings st)" and f: "ground_atom (f_atom f)" "a_kind (f_atom f) = ETB_ATOM_SAYS"
  shows "\<exists>r. match_says_fact e l st f = Inr r \<and>
    (\<forall>st'. r = Some st' \<longleftrightarrow> usable_fact e l (f_atom f) \<and> extended_by l st f st')"
proof -
  obtain s p where c: "a_principal (f_atom f) = Some s" "a_predicate (f_atom f) = Some p"
    using f wf_atom_names(2) [of "f_atom f"] by (auto simp: ground_atom_def)
  obtain t q where w: "a_principal (l_atom l) = Some t" "a_predicate (l_atom l) = Some q"
    using l wf_atom_names(2) [of "l_atom l"] by (auto simp: wf_literal_def)
  have agree: "p = q \<and> length (a_terms (f_atom f)) = length (a_terms (l_atom l))"
    if "extended_by l st f st'" for st'
    using that l f c w unify_atom_reduce [of "l_atom l" "f_atom f" "s_bindings st" True]
    by (auto simp: extended_by_def wf_literal_def ground_atom_def heads_agree_def split: if_splits)
  have speak: "may_speak (atoms_of e) (e_now e) (f_atom f) (l_atom l) \<longleftrightarrow>
      delegates (speaks_edges e) (e_now e) p s t 0 8"
    using c w by (simp add: may_speak_def speaks_edges_eq [OF e])
  obtain r where r: "extend_state l st True f = Inr r" "\<forall>st'. r = Some st' \<longleftrightarrow> extended_by l st f st'"
    using extend_state_exact [OF st l(1) f(1)] l(2) by auto
  show ?thesis
  proof (cases "valid_at (e_now e) (f_atom f) \<and> etb_literal_temporal_matches l (f_atom f)
      \<and> p = q \<and> length (a_terms (f_atom f)) = length (a_terms (l_atom l))")
    case False
    then show ?thesis
      using agree c w by (auto simp: match_says_fact_def Let_def usable_fact_def valid_now_eq)
  next
    case True
    have "match_says_fact e l st f =
        (if delegates (speaks_edges e) (e_now e) p s t 0 8 then Inr r else Inr None)"
      using True c w r(1) delegation_allows_eq [OF e, of s t p "e_now e"]
      by (cases "s = t") (simp_all add: match_says_fact_def Let_def valid_now_eq delegates.self del: bind_res_eq_Inr)
    then show ?thesis using True speak r(2) l(2) by (auto simp: usable_fact_def)
  qed
qed

lemma match_says_exact:
  assumes e: "tables_ok e" and l: "wf_literal l" and st: "bindings_ok (s_bindings st)"
    and k: "a_kind (l_atom l) = ETB_ATOM_SAYS"
  shows "\<exists>sts. match_says e l st = Inr sts \<and>
    (\<forall>st'. st' \<in> set sts \<longleftrightarrow>
      (\<exists>f \<in> set (all_facts (e_relations e)). usable_fact e l (f_atom f) \<and> extended_by l st f st'))"
proof -
  let ?P = "\<lambda>f st'. usable_fact e l (f_atom f) \<and> extended_by l st f st'"
  let ?q = "\<lambda>r. take 8 (r_key r) = ''__says__''"
  have rels: "relations_ok (e_relations e)" using e by (simp add: tables_ok_def)
  have in_r: "ground_atom (f_atom f)" "?q r \<longleftrightarrow> a_kind (f_atom f) = ETB_ATOM_SAYS"
    if "r \<in> set (e_relations e)" "f \<in> set (r_facts r)" for r f
  proof -
    have "f \<in> set (all_facts (e_relations e))" using that by (auto simp: all_facts_def)
    then have "ground_atom (f_atom f)" "unreserved (f_atom f)" using e by (auto simp: tables_ok_def)
    moreover have "r_key r = etb_atom_relation_key (f_atom f)"
      using rels that by (auto simp: relations_ok_def list_all_iff fact_key_def)
    ultimately show "ground_atom (f_atom f)" "?q r \<longleftrightarrow> a_kind (f_atom f) = ETB_ATOM_SAYS"
      using unreserved_says by auto
  qed
  have one: "\<exists>ys. collect_res (match_says_fact e l st) (r_facts r) = Inr ys \<and>
      (\<forall>st'. st' \<in> set ys \<longleftrightarrow> (\<exists>f \<in> set (r_facts r). ?P f st'))"
    if "r \<in> set (e_relations e)" "?q r" for r
    using that in_r by (intro collect_res_exact match_says_fact_exact [OF e l k st]) auto
  obtain sts where m: "match_says e l st = Inr sts"
    and sts: "\<forall>st'. st' \<in> set sts \<longleftrightarrow> (\<exists>r \<in> set (e_relations e). ?q r \<and> (\<exists>f \<in> set (r_facts r). ?P f st'))"
    using fold_collect_exact [of "e_relations e" ?q "\<lambda>r. collect_res (match_says_fact e l st) (r_facts r)"
        "\<lambda>r st'. \<exists>f \<in> set (r_facts r). ?P f st'" "[]"] one by (auto simp: match_says_def)
  have says: "a_kind (f_atom f) = ETB_ATOM_SAYS" if "extended_by l st f st'" "ground_atom (f_atom f)" for f st'
    using that k l unify_atom_reduce [of "l_atom l" "f_atom f" "s_bindings st" True]
    by (auto simp: extended_by_def wf_literal_def ground_atom_def heads_agree_def split: if_splits)
  have "(\<exists>r \<in> set (e_relations e). ?q r \<and> (\<exists>f \<in> set (r_facts r). ?P f st')) \<longleftrightarrow>
      (\<exists>f \<in> set (all_facts (e_relations e)). ?P f st')" for st'
  proof
    assume "\<exists>f \<in> set (all_facts (e_relations e)). ?P f st'"
    then obtain r f where "r \<in> set (e_relations e)" "f \<in> set (r_facts r)" "?P f st'"
      by (auto simp: all_facts_def)
    then show "\<exists>r \<in> set (e_relations e). ?q r \<and> (\<exists>f \<in> set (r_facts r). ?P f st')"
      using in_r says by blast
  qed (auto simp: all_facts_def)
  then show ?thesis using m sts by auto
qed

lemma match_literal_exact:
  assumes e: "tables_ok e" and l: "wf_literal l" "positive_literal e l" and st: "bindings_ok (s_bindings st)"
  shows "\<exists>sts. etb_match_literal adapter e l st = Inr (e, sts) \<and>
    (\<forall>st'. st' \<in> set sts \<longleftrightarrow>
      (\<exists>f \<in> set (all_facts (e_relations e)). usable_fact e l (f_atom f) \<and> extended_by l st f st'))"
proof -
  have "etb_literal_is_capability e l = Inr False"
    using is_capability_eq [OF _ l(1)] l(2) e
    by (auto simp: capability_call_def tables_ok_def positive_literal_def)
  then show ?thesis
    using match_says_exact [OF e l(1) st] match_positive_exact [OF e l(1) st] l(2)
    by (cases "a_kind (l_atom l) = ETB_ATOM_SAYS")
      (auto simp: etb_match_literal_def positive_literal_def)
qed

section \<open>Clause bodies\<close>

text \<open>The states at the end of a body, and their relation to the substitutions that satisfy it.\<close>

fun reaches :: "etb_engine \<Rightarrow> etb_literal list \<Rightarrow> etb_eval_state \<Rightarrow> etb_eval_state \<Rightarrow> bool" where
  "reaches e [] st st' \<longleftrightarrow> st' = st"
| "reaches e (l # ls) st st' \<longleftrightarrow>
     (\<exists>f \<in> set (all_facts (e_relations e)). \<exists>st1. usable_fact e l (f_atom f) \<and> extended_by l st f st1 \<and>
        reaches e ls st1 st')"

lemma atom_matches_ground:
  assumes m: "atom_matches \<sigma> p c ign" and "ground_atom c" and k: "a_kind p \<noteq> ETB_ATOM_SPEAKS_FOR"
    and t: "t \<in> set (a_terms p)"
  shows "etb_term_is_ground (inst \<sigma> t)"
proof -
  have "a_kind c \<noteq> ETB_ATOM_SPEAKS_FOR" using m k by (auto simp: atom_matches_def heads_agree_def)
  then have "list_all etb_term_is_ground (a_terms c)"
    using assms(2) by (cases "a_kind c") (auto simp: ground_atom_def etb_atom_is_ground_def)
  moreover have "a_terms c = map (inst \<sigma>) (a_terms p)" using m k by (simp add: atom_matches_def)
  ultimately show ?thesis using t by (simp add: list_all_iff)
qed

lemma ground_inst_var:
  "etb_term_is_ground (inst \<sigma> t) \<Longrightarrow> t_kind t = ETB_TERM_VARIABLE \<Longrightarrow> t_text t = Some x \<Longrightarrow>
     \<exists>v. \<sigma> x = Some v"
  by (cases "\<sigma> x") (auto simp: inst_def etb_term_is_ground_def)

lemma atom_matches_mono:
  assumes m: "atom_matches \<sigma> p c ign" and "\<sigma> \<subseteq>\<^sub>m \<tau>" and "wf_atom p" and "ground_atom c"
  shows "atom_matches \<tau> p c ign"
proof (cases "a_kind p = ETB_ATOM_SPEAKS_FOR")
  case False
  have "inst \<tau> t = inst \<sigma> t" if t: "t \<in> set (a_terms p)" for t
  proof (cases "t_kind t = ETB_TERM_VARIABLE")
    case True
    have "wf_term t" using assms(3) t by (simp add: wf_atom_def list_all_iff)
    then obtain x where x: "t_text t = Some x" using True by (auto simp: wf_term_def)
    obtain v where "\<sigma> x = Some v"
      using ground_inst_var [OF atom_matches_ground [OF m assms(4) False t] True x] by blast
    moreover from this have "\<tau> x = Some v" using assms(2) by (auto simp: map_le_def dom_def)
    ultimately show ?thesis using True x by (simp add: inst_def)
  qed (simp add: inst_def)
  then show ?thesis using m by (simp add: atom_matches_def cong: map_cong)
qed (use m in \<open>simp add: atom_matches_def\<close>)

lemma atom_matches_vars:
  assumes m: "atom_matches \<sigma> p c ign" and "ground_atom c"
    and "a_kind p = ETB_ATOM_SPEAKS_FOR \<Longrightarrow> a_terms p = []"
  shows "atom_vars p \<subseteq> dom \<sigma>"
proof
  fix x assume "x \<in> atom_vars p"
  then obtain t where t: "t \<in> set (a_terms p)" "t_kind t = ETB_TERM_VARIABLE" "t_text t = Some x"
    by (auto simp: atom_vars_def)
  then have "a_kind p \<noteq> ETB_ATOM_SPEAKS_FOR" using assms(3) by auto
  then show "x \<in> dom \<sigma>"
    using ground_inst_var [OF atom_matches_ground [OF m assms(2) _ t(1)] t(2,3)] by blast
qed

lemma extended_by_matches:
  assumes e: "tables_ok e" and l: "wf_literal l" and f: "f \<in> set (all_facts (e_relations e))"
    and st: "bindings_ok (s_bindings st)" and x: "extended_by l st f st'"
  shows "bindings_ok (s_bindings st') \<and> bindings_map (s_bindings st) \<subseteq>\<^sub>m bindings_map (s_bindings st') \<and>
    atom_matches (bindings_map (s_bindings st')) (l_atom l) (f_atom f) (a_kind (l_atom l) = ETB_ATOM_SAYS)"
proof -
  obtain bs where u: "etb_unify_atom (s_bindings st) (l_atom l) (f_atom f)
      (a_kind (l_atom l) = ETB_ATOM_SAYS) = Inr (Some bs)" and s: "s_bindings st' = bs"
    using x by (auto simp: extended_by_def)
  have "ground_atom (f_atom f)" using e f by (simp add: tables_ok_def)
  then have m: "least_match (s_bindings st) (Some bs)
      (\<lambda>\<sigma>. atom_matches \<sigma> (l_atom l) (f_atom f) (a_kind (l_atom l) = ETB_ATOM_SAYS))"
    using unify_atom_ground [OF st, of "l_atom l" "f_atom f" "a_kind (l_atom l) = ETB_ATOM_SAYS"] u l
    by (auto simp: wf_literal_def)
  then obtain new where "bs = s_bindings st @ new" "bindings_ok bs" by (auto simp: least_match_def)
  then show ?thesis using least_match_sound [OF m] bindings_map_prefix s by simp
qed

lemma reaches_sound:
  "tables_ok e \<Longrightarrow> list_all wf_literal ls \<Longrightarrow> bindings_ok (s_bindings st) \<Longrightarrow> reaches e ls st st' \<Longrightarrow>
     bindings_ok (s_bindings st') \<and> bindings_map (s_bindings st) \<subseteq>\<^sub>m bindings_map (s_bindings st') \<and>
     (\<forall>l \<in> set ls. satisfied (atoms_of e) (e_now e) (bindings_map (s_bindings st')) l)"
proof (induction ls arbitrary: st)
  case Nil
  then show ?case by simp
next
  case (Cons l ls)
  obtain f st1 where f: "f \<in> set (all_facts (e_relations e))" "usable_fact e l (f_atom f)"
    "extended_by l st f st1" "reaches e ls st1 st'" using Cons.prems(4) by auto
  have l: "wf_literal l" using Cons.prems(2) by simp
  note one = extended_by_matches [OF Cons.prems(1) l f(1) Cons.prems(3) f(3)]
  have rest: "bindings_ok (s_bindings st')" "bindings_map (s_bindings st1) \<subseteq>\<^sub>m bindings_map (s_bindings st')"
    "\<forall>l \<in> set ls. satisfied (atoms_of e) (e_now e) (bindings_map (s_bindings st')) l"
    using Cons.IH [OF Cons.prems(1) _ _ f(4)] Cons.prems(2) one by auto
  have "ground_atom (f_atom f)" using Cons.prems(1) f(1) by (simp add: tables_ok_def)
  then have "satisfies (atoms_of e) (e_now e) (bindings_map (s_bindings st')) l (f_atom f)"
    using atom_matches_mono [OF _ rest(2)] one f(1,2) l
    by (auto simp: satisfies_def usable_fact_def atoms_of_facts wf_literal_def)
  then show ?case using rest one map_le_trans by (auto simp: satisfied_def)
qed

lemma reaches_complete:
  "tables_ok e \<Longrightarrow> list_all wf_literal ls \<Longrightarrow> list_all (positive_literal e) ls \<Longrightarrow> bindings_ok (s_bindings st) \<Longrightarrow>
     bindings_map (s_bindings st) \<subseteq>\<^sub>m \<sigma> \<Longrightarrow> \<forall>l \<in> set ls. satisfied (atoms_of e) (e_now e) \<sigma> l \<Longrightarrow>
     \<exists>st'. reaches e ls st st' \<and> bindings_map (s_bindings st') \<subseteq>\<^sub>m \<sigma> \<and>
       (\<Union>l \<in> set ls. atom_vars (l_atom l)) \<subseteq> dom (bindings_map (s_bindings st'))"
proof (induction ls arbitrary: st)
  case Nil
  then show ?case by auto
next
  case (Cons l ls)
  have l: "wf_literal l" "positive_literal e l" using Cons.prems(2,3) by auto
  let ?says = "a_kind (l_atom l) = ETB_ATOM_SAYS"
  obtain f where f: "f \<in> set (all_facts (e_relations e))" "usable_fact e l (f_atom f)"
    "atom_matches \<sigma> (l_atom l) (f_atom f) ?says"
    using Cons.prems(6) by (auto simp: satisfied_def satisfies_def usable_fact_def atoms_of_facts)
  have g: "ground_atom (f_atom f)" using Cons.prems(1) f(1) by (simp add: tables_ok_def)
  obtain r where "etb_unify_atom (s_bindings st) (l_atom l) (f_atom f) ?says = Inr r"
    "least_match (s_bindings st) r (\<lambda>\<sigma>. atom_matches \<sigma> (l_atom l) (f_atom f) ?says)"
    using unify_atom_ground [OF Cons.prems(4), of "l_atom l" "f_atom f" ?says] g l(1)
    by (auto simp: wf_literal_def)
  moreover from this obtain bs where bs: "r = Some bs" "bindings_map bs \<subseteq>\<^sub>m \<sigma>"
    using f(3) Cons.prems(5) by (auto simp: least_match_def)
  ultimately obtain st1 where x: "extended_by l st f st1" "s_bindings st1 = bs"
    by (auto simp: extended_by_def)
  note one = extended_by_matches [OF Cons.prems(1) l(1) f(1) Cons.prems(4) x(1)]
  obtain st' where st': "reaches e ls st1 st'" "bindings_map (s_bindings st') \<subseteq>\<^sub>m \<sigma>"
    "(\<Union>l \<in> set ls. atom_vars (l_atom l)) \<subseteq> dom (bindings_map (s_bindings st'))"
    using Cons.IH [of st1] Cons.prems one bs x(2) by auto
  have "atom_vars (l_atom l) \<subseteq> dom (bindings_map (s_bindings st1))"
    using atom_matches_vars [OF conjunct2 [OF conjunct2 [OF one]] g] l(2) by (simp add: positive_literal_def)
  moreover have "dom (bindings_map (s_bindings st1)) \<subseteq> dom (bindings_map (s_bindings st'))"
    using reaches_sound [OF Cons.prems(1) _ _ st'(1)] Cons.prems(2) one
    by (intro map_le_implies_dom_le) simp
  ultimately have "atom_vars (l_atom l) \<subseteq> dom (bindings_map (s_bindings st'))" by (rule order_trans)
  moreover have "reaches e (l # ls) st st'" using st'(1) f(1,2) x(1) by auto
  ultimately show ?case using st'(2,3) by (intro exI [of _ st']) simp
qed

text \<open>The heads a body gives, among those not stored.\<close>

definition new_heads :: "etb_engine \<Rightarrow> etb_clause \<Rightarrow> etb_literal list \<Rightarrow> etb_eval_state \<Rightarrow> etb_atom set" where
  "new_heads e c ls st =
     {a. \<exists>st'. reaches e ls st st' \<and> a = instance_of (cl_head c) (bindings_map (s_bindings st')) \<and>
        etb_atom_is_ground a \<and> \<not> etb_relation_contains_fact (e_relations e) a}"

definition only_trace :: "etb_engine \<Rightarrow> etb_engine \<Rightarrow> bool" where
  "only_trace e e' \<longleftrightarrow> e' = e\<lparr>e_trace := e_trace e'\<rparr>"

lemma only_trace_refl [simp]: "only_trace e e"
  by (simp add: only_trace_def)

lemma only_trace_trans: "only_trace a b \<Longrightarrow> only_trace b c \<Longrightarrow> only_trace a c"
  unfolding only_trace_def by (metis (mono_tags, lifting) etb_engine.cases etb_engine.update_convs(4))

lemma only_trace_fields:
  assumes "only_trace e e'"
  shows "e_relations e' = e_relations e" "e_now e' = e_now e" "e_capabilities e' = e_capabilities e"
    "e_program e' = e_program e"
  using assms unfolding only_trace_def by (metis etb_engine.select_convs etb_engine.surjective etb_engine.update_convs(4))+

lemma only_trace_same:
  assumes t: "only_trace e e'"
  shows "reaches e' ls st st' = reaches e ls st st'" "tables_ok e' = tables_ok e"
    "positive_literal e' l = positive_literal e l" "new_heads e' c ls st = new_heads e c ls st"
proof -
  have u: "usable_fact e' l a = usable_fact e l a" for l a
    by (simp add: usable_fact_def atoms_of_def only_trace_fields [OF t])
  show r: "reaches e' ls st st' = reaches e ls st st'" for ls st st'
    by (induction ls arbitrary: st) (simp_all add: u only_trace_fields [OF t])
  show "tables_ok e' = tables_ok e" "positive_literal e' l = positive_literal e l"
    by (simp_all add: tables_ok_def positive_literal_def capability_call_def only_trace_fields [OF t])
  show "new_heads e' c ls st = new_heads e c ls st"
    by (simp add: new_heads_def r only_trace_fields [OF t])
qed

lemma derive_head_exact:
  assumes "wf_atom (cl_head c)" and "derive_head c rid st (e, d) = Inr (e', d')"
  shows "only_trace e e' \<and> f_atom ` set d' = f_atom ` set d \<union> new_heads e c [] st"
proof -
  define a where "a = instance_of (cl_head c) (bindings_map (s_bindings st))"
  have "etb_instantiate_atom (cl_head c) (s_bindings st) = Inr a"
    using assms(1) by (simp add: a_def instance_of_def instantiate_atom_eq wf_atom_def)
  then show ?thesis
    using assms(2)
    by (auto simp: derive_head_def new_heads_def only_trace_def simp flip: a_def split: if_splits)
qed

lemma body_exact:
  "tables_ok e \<Longrightarrow> list_all wf_literal ls \<Longrightarrow> list_all (positive_literal e) ls \<Longrightarrow> bindings_ok (s_bindings st) \<Longrightarrow>
   wf_atom (cl_head c) \<Longrightarrow> etb_evaluate_clause_body adapter c rid ls st (e, d) = Inr (e', d') \<Longrightarrow>
     only_trace e e' \<and> f_atom ` set d' = f_atom ` set d \<union> new_heads e c ls st"
proof (induction ls arbitrary: st e d e' d')
  case Nil
  then show ?case using derive_head_exact [OF Nil.prems(5), of rid st e d e' d'] by simp
next
  case (Cons l ls)
  have l: "wf_literal l" "positive_literal e l" using Cons.prems(2,3) by auto
  obtain sts where m: "etb_match_literal adapter e l st = Inr (e, sts)"
    and sts: "\<forall>st'. st' \<in> set sts \<longleftrightarrow>
      (\<exists>f \<in> set (all_facts (e_relations e)). usable_fact e l (f_atom f) \<and> extended_by l st f st')"
    using match_literal_exact [OF Cons.prems(1) l Cons.prems(4)] by blast
  have ok: "bindings_ok (s_bindings st')" if "st' \<in> set sts" for st'
    using sts that extended_by_matches [OF Cons.prems(1) l(1) _ Cons.prems(4)] by blast
  have loop: "fold_res (etb_evaluate_clause_body adapter c rid ls) sts (e, d) = Inr (e', d')"
    using Cons.prems(6) m by simp
  have step: "only_trace e e2 \<and> f_atom ` set d2 = f_atom ` set d1 \<union> new_heads e c ls st'"
    if "only_trace e e1" "bindings_ok (s_bindings st')"
      "etb_evaluate_clause_body adapter c rid ls st' (e1, d1) = Inr (e2, d2)" for st' e1 d1 e2 d2
    using Cons.IH [OF _ _ _ that(2) Cons.prems(5) that(3)] Cons.prems(1-3) that(1) only_trace_trans [OF that(1)]
    by (simp add: only_trace_same [OF that(1)])
  have "only_trace e e' \<and> f_atom ` set d' = f_atom ` set d1 \<union> (\<Union>st' \<in> set sts'. new_heads e c ls st')"
    if "fold_res (etb_evaluate_clause_body adapter c rid ls) sts' (e1, d1) = Inr (e', d')"
      "only_trace e e1" "\<forall>st' \<in> set sts'. bindings_ok (s_bindings st')" for sts' e1 d1
    using that
  proof (induction sts' arbitrary: e1 d1)
    case Nil
    then show ?case by simp
  next
    case (Cons st' sts')
    obtain e2 d2 where s: "etb_evaluate_clause_body adapter c rid ls st' (e1, d1) = Inr (e2, d2)"
      "fold_res (etb_evaluate_clause_body adapter c rid ls) sts' (e2, d2) = Inr (e', d')"
      using Cons.prems(1) by auto
    have "only_trace e e2 \<and> f_atom ` set d2 = f_atom ` set d1 \<union> new_heads e c ls st'"
      using step [OF Cons.prems(2) _ s(1)] Cons.prems(3) by simp
    then show ?case using Cons.IH [OF s(2)] Cons.prems(3) by (simp add: Un_assoc)
  qed
  from this [OF loop] have "only_trace e e' \<and>
      f_atom ` set d' = f_atom ` set d \<union> (\<Union>st' \<in> set sts. new_heads e c ls st')"
    using ok by simp
  moreover have "(\<Union>st' \<in> set sts. new_heads e c ls st') = new_heads e c (l # ls) st"
  proof -
    have "reaches e (l # ls) st st'' \<longleftrightarrow> (\<exists>st' \<in> set sts. reaches e ls st' st'')" for st''
      unfolding reaches.simps using sts by blast
    then show ?thesis unfolding new_heads_def by blast
  qed
  ultimately show ?case by simp
qed

section \<open>One pass\<close>

lemma contains_iff:
  assumes e: "tables_ok e" and a: "wf_atom a"
  shows "etb_relation_contains_fact (e_relations e) a \<longleftrightarrow> a \<in> atoms_of e"
proof -
  have eq: "etb_atom_equals (f_atom f) a \<longleftrightarrow> f_atom f = a" if "f \<in> set (all_facts (e_relations e))" for f
    using that e a etb_atom_equals_iff_eq [of "f_atom f" a]
    by (simp add: tables_ok_def ground_atom_def wf_atom_def)
  have "f \<in> set (facts_at (e_relations e) (etb_atom_relation_key a)) \<longleftrightarrow>
      f \<in> set (all_facts (e_relations e))" if "f_atom f = a" for f
    using that all_facts_at [of "e_relations e" f] e by (simp add: tables_ok_def fact_key_def)
  then show ?thesis
    using eq tables_facts_at [OF e]
    by (auto simp: contains_fact_at fact_list_contains_def list_ex_iff atoms_of_facts)
qed

lemma new_heads_ok:
  assumes "tables_ok e" and "wf_clause c" and "unreserved (cl_head c)" and "bindings_ok (s_bindings st)"
    and "a \<in> new_heads e c (cl_body c) st"
  shows "ground_atom a \<and> unreserved a \<and> a \<notin> atoms_of e"
proof -
  obtain st' where r: "reaches e (cl_body c) st st'"
    and a: "a = instance_of (cl_head c) (bindings_map (s_bindings st'))" "etb_atom_is_ground a"
    "\<not> etb_relation_contains_fact (e_relations e) a" using assms(5) by (auto simp: new_heads_def)
  have wf: "wf_atom (cl_head c)" "list_all wf_literal (cl_body c)" using assms(2) by (auto simp: wf_clause_def)
  then have "bindings_ok (s_bindings st')" using reaches_sound [OF assms(1) _ assms(4) r] by simp
  then have "wf_atom a"
    using wf inst_wf [of "s_bindings st'" "a_terms (cl_head c)"] wf_atom_terms [OF wf(1)]
    unfolding a(1) instance_of_def by (simp add: wf_atom_def)
  moreover have "unreserved a" using assms(3) by (simp add: a(1) instance_of_def unreserved_terms)
  ultimately show ?thesis using a(2,3) contains_iff [OF assms(1)] by (simp add: ground_atom_def)
qed

definition consequences :: "etb_engine \<Rightarrow> etb_atom set" where
  "consequences e = (\<Union>c \<in> {c. ETB_STMT_CLAUSE c \<in> set (e_program e)}.
     new_heads e c (cl_body c) etb_eval_state_init)"

definition good_engine :: "etb_engine \<Rightarrow> bool" where
  "good_engine e \<longleftrightarrow> tables_ok e \<and> program_ok (e_program e) \<and> positive_program e \<and> program_accepted e"

lemma good_clause:
  assumes "good_engine e" and "ETB_STMT_CLAUSE c \<in> set (e_program e)"
  shows "tables_ok e" "wf_clause c" "unreserved (cl_head c)" "list_all (positive_literal e) (cl_body c)"
    "clause_accepted e c"
  using assms program_ok_clause [of "e_program e" c]
  by (auto simp: good_engine_def positive_program_def program_accepted_def)

lemma init_bindings [simp]: "bindings_ok (s_bindings etb_eval_state_init)"
  by (simp add: etb_eval_state_init_def)

lemma consequences_ok:
  "good_engine e \<Longrightarrow> a \<in> consequences e \<Longrightarrow> ground_atom a \<and> unreserved a \<and> a \<notin> atoms_of e"
  using good_clause new_heads_ok [OF _ _ _ init_bindings] by (fastforce simp: consequences_def)

lemma evaluate_program_exact:
  assumes e: "good_engine e"
    and loop: "fold_res (evaluate_statement adapter) (zip [0..<length (e_program e)] (e_program e)) (e, [])
      = Inr (e', derived)"
  shows "only_trace e e' \<and> f_atom ` set derived = consequences e"
proof -
  let ?C = "\<lambda>xs. \<Union>c \<in> {c. ETB_STMT_CLAUSE c \<in> snd ` set xs}. new_heads e c (cl_body c) etb_eval_state_init"
  have "only_trace e e' \<and> f_atom ` set derived = f_atom ` set d1 \<union> ?C xs"
    if "fold_res (evaluate_statement adapter) xs (e1, d1) = Inr (e', derived)" "only_trace e e1"
      "snd ` set xs \<subseteq> set (e_program e)" for xs e1 d1
    using that
  proof (induction xs arbitrary: e1 d1)
    case Nil
    then show ?case by simp
  next
    case (Cons x xs)
    obtain i s where x: "x = (i, s)" by fastforce
    obtain e2 d2 where st: "evaluate_statement adapter (i, s) (e1, d1) = Inr (e2, d2)"
      "fold_res (evaluate_statement adapter) xs (e2, d2) = Inr (e', derived)"
      using Cons.prems(1) x by auto
    show ?case
    proof (cases s)
      case (ETB_STMT_CAPABILITY decl)
      then show ?thesis using st Cons x by (auto simp: evaluate_statement_def)
    next
      case (ETB_STMT_CLAUSE c)
      then have c: "ETB_STMT_CLAUSE c \<in> set (e_program e)" using Cons.prems(3) x by simp
      note good = good_clause [OF e c]
      have pos: "list_all (positive_literal e1) (cl_body c)"
        using good(4) by (simp add: list_all_iff only_trace_same [OF Cons.prems(2)])
      have "only_trace e1 e2 \<and> f_atom ` set d2 = f_atom ` set d1 \<union> new_heads e c (cl_body c) etb_eval_state_init"
        using body_exact [of e1 "cl_body c" etb_eval_state_init c adapter i d1 e2 d2] st(1) good pos
          only_trace_same [OF Cons.prems(2)]
        by (simp add: ETB_STMT_CLAUSE evaluate_statement_def wf_clause_def)
      then show ?thesis
        using Cons.IH [OF st(2)] only_trace_trans [OF Cons.prems(2)] Cons.prems(3) x ETB_STMT_CLAUSE by auto
    qed
  qed
  moreover have "snd ` set (zip [0..<length (e_program e)] (e_program e)) = set (e_program e)"
    by (simp flip: set_map)
  ultimately show ?thesis using loop by (simp add: consequences_def)
qed

lemma atoms_of_add:
  assumes "tables_ok e" and f: "ground_atom (f_atom f)" "unreserved (f_atom f)" "f_atom f \<notin> atoms_of e"
  shows "tables_ok (e\<lparr>e_relations := etb_relation_set_add_fact (e_relations e) f\<rparr>) \<and>
    atoms_of (e\<lparr>e_relations := etb_relation_set_add_fact (e_relations e) f\<rparr>) = insert (f_atom f) (atoms_of e)"
proof -
  have rels: "relations_ok (e_relations e)" using assms(1) by (simp add: tables_ok_def)
  have "\<not> etb_relation_contains_fact (e_relations e) (f_atom f)"
    using contains_iff [OF assms(1)] f by (simp add: ground_atom_def)
  then have "set (all_facts (etb_relation_set_add_fact (e_relations e) f)) =
      insert f (set (all_facts (e_relations e)))" using all_facts_add [OF rels, of f] by simp
  then show ?thesis
    using assms relations_ok_add [OF rels, of f] by (auto simp: tables_ok_def atoms_of_def)
qed

definition only_grown :: "etb_engine \<Rightarrow> etb_engine \<Rightarrow> bool" where
  "only_grown e e' \<longleftrightarrow> e_program e' = e_program e \<and> e_now e' = e_now e \<and> e_capabilities e' = e_capabilities e"

lemma store_derived_exact:
  "tables_ok e \<Longrightarrow> \<forall>f \<in> set derived. ground_atom (f_atom f) \<and> unreserved (f_atom f) \<Longrightarrow>
   fold store_derived derived (e, ch) = (e', ch') \<Longrightarrow>
     tables_ok e' \<and> only_grown e e' \<and> atoms_of e' = atoms_of e \<union> f_atom ` set derived \<and>
     (ch' \<longleftrightarrow> ch \<or> \<not> f_atom ` set derived \<subseteq> atoms_of e) \<and>
     (f_atom ` set derived \<subseteq> atoms_of e \<longrightarrow> e' = e)"
proof (induction derived arbitrary: e ch)
  case Nil
  then show ?case by (simp add: only_grown_def)
next
  case (Cons f derived)
  have f: "ground_atom (f_atom f)" "unreserved (f_atom f)" using Cons.prems(2) by auto
  have c: "etb_relation_contains_fact (e_relations e) (f_atom f) \<longleftrightarrow> f_atom f \<in> atoms_of e"
    using contains_iff [OF Cons.prems(1)] f by (simp add: ground_atom_def)
  show ?case
  proof (cases "f_atom f \<in> atoms_of e")
    case True
    then show ?thesis
      using Cons.IH [OF Cons.prems(1), of ch] Cons.prems(2,3) c by (auto simp: store_derived_def)
  next
    case False
    let ?e = "e\<lparr>e_relations := etb_relation_set_add_fact (e_relations e) f\<rparr>"
    note add = atoms_of_add [OF Cons.prems(1) f False]
    have "store_derived f (e, ch) = (?e, True)" using c False by (simp add: store_derived_def)
    then have "fold store_derived derived (?e, True) = (e', ch')" using Cons.prems(3) by simp
    then show ?thesis
      using Cons.IH [of ?e True] add Cons.prems(2) False by (auto simp: only_grown_def)
  qed
qed

lemma fixpoint_pass_exact:
  assumes e: "good_engine e" and p: "fixpoint_pass adapter e = Inr (e', changed)"
  shows "good_engine e' \<and> only_grown e e' \<and> atoms_of e' = atoms_of e \<union> consequences e \<and>
    (changed \<longleftrightarrow> consequences e \<noteq> {}) \<and> (\<not> changed \<longrightarrow> consequences e' = {})"
proof -
  obtain e1 derived where loop: "fold_res (evaluate_statement adapter)
      (zip [0..<length (e_program e)] (e_program e)) (e, []) = Inr (e1, derived)"
    and st: "fold store_derived derived (e1, False) = (e', changed)"
    using p by (auto simp: fixpoint_pass_def)
  have one: "only_trace e e1" "f_atom ` set derived = consequences e"
    using evaluate_program_exact [OF e loop] by auto
  have "f_atom f \<in> consequences e" if "f \<in> set derived" for f using one(2) that by blast
  then have d: "\<forall>f \<in> set derived. ground_atom (f_atom f) \<and> unreserved (f_atom f)"
    using consequences_ok [OF e] by blast
  have atoms: "atoms_of e1 = atoms_of e" by (simp add: atoms_of_def only_trace_fields [OF one(1)])
  have e1: "tables_ok e1" using e only_trace_same(2) [OF one(1)] by (simp add: good_engine_def)
  have two: "tables_ok e'" "only_grown e1 e'" "atoms_of e' = atoms_of e1 \<union> f_atom ` set derived"
    "changed \<longleftrightarrow> \<not> f_atom ` set derived \<subseteq> atoms_of e1"
    "f_atom ` set derived \<subseteq> atoms_of e1 \<longrightarrow> e' = e1"
    using store_derived_exact [OF e1 d st] by auto
  have g: "only_grown e e'" using two(2) by (simp add: only_grown_def only_trace_fields [OF one(1)])
  then have "good_engine e'"
    using e two(1) by (simp add: good_engine_def positive_program_def positive_literal_def only_grown_def
        capability_call_def program_accepted_def clause_accepted_def negation_supported_def
        list_all_iff)
  moreover have "consequences e1 = consequences e"
    by (simp add: consequences_def only_trace_same [OF one(1)] only_trace_fields [OF one(1)])
  moreover have "consequences e \<subseteq> atoms_of e \<longleftrightarrow> consequences e = {}" using consequences_ok [OF e] by blast
  ultimately show ?thesis using two g one(2) atoms by auto
qed

section \<open>The least model\<close>

definition least_model :: "etb_engine \<Rightarrow> etb_atom set" where
  "least_model e = {a. derivable (e_program e) (e_now e) (atoms_of e) a}"

lemma satisfied_subset: "I \<subseteq> J \<Longrightarrow> satisfied I now \<sigma> l \<Longrightarrow> satisfied J now \<sigma> l"
  using satisfies_mono by (metis satisfied_def)

lemma consequences_derivable:
  assumes e: "good_engine e" and D: "atoms_of e \<subseteq> {a. derivable (e_program e) (e_now e) base a}"
  shows "consequences e \<subseteq> {a. derivable (e_program e) (e_now e) base a}"
proof
  fix a assume "a \<in> consequences e"
  then obtain c st' where c: "ETB_STMT_CLAUSE c \<in> set (e_program e)"
    and r: "reaches e (cl_body c) etb_eval_state_init st'"
    and a: "a = instance_of (cl_head c) (bindings_map (s_bindings st'))" "etb_atom_is_ground a"
    by (auto simp: consequences_def new_heads_def)
  have "list_all wf_literal (cl_body c)" using good_clause(2) [OF e c] by (simp add: wf_clause_def)
  then have "\<forall>l \<in> set (cl_body c). satisfied (atoms_of e) (e_now e) (bindings_map (s_bindings st')) l"
    using reaches_sound [OF good_clause(1) [OF e c] _ init_bindings r] by blast
  then have "\<forall>l \<in> set (cl_body c).
      satisfied {a. derivable (e_program e) (e_now e) base a} (e_now e) (bindings_map (s_bindings st')) l"
    using satisfied_subset [OF D] by blast
  from derivable.rule [OF c this] show "a \<in> {a. derivable (e_program e) (e_now e) base a}" using a by simp
qed

lemma instance_of_extends:
  assumes s: "\<tau> \<subseteq>\<^sub>m \<sigma>" and vars: "atom_vars a \<subseteq> dom \<tau>" and a: "wf_atom a"
  shows "instance_of a \<tau> = instance_of a \<sigma>"
proof -
  have "inst \<tau> t = inst \<sigma> t" if t: "t \<in> set (a_terms a)" for t
  proof (cases "t_kind t = ETB_TERM_VARIABLE")
    case True
    have "wf_term t" using a t by (simp add: wf_atom_def list_all_iff)
    then obtain x where x: "t_text t = Some x" using True by (auto simp: wf_term_def)
    then have "x \<in> dom \<tau>" using vars t True by (auto simp: atom_vars_def)
    then have "\<sigma> x = \<tau> x" using s by (simp add: map_le_def)
    then show ?thesis using x by (simp add: inst_def)
  qed (simp add: inst_def)
  then show ?thesis by (simp add: instance_of_def cong: map_cong)
qed

lemma settled_closed:
  assumes e: "good_engine e" and settled: "consequences e = {}"
    and c: "ETB_STMT_CLAUSE c \<in> set (e_program e)"
    and sat: "\<forall>l \<in> set (cl_body c). satisfied (atoms_of e) (e_now e) \<sigma> l"
    and ground: "etb_atom_is_ground (instance_of (cl_head c) \<sigma>)"
  shows "instance_of (cl_head c) \<sigma> \<in> atoms_of e"
proof -
  note good = good_clause [OF e c]
  have body: "list_all wf_literal (cl_body c)" "wf_atom (cl_head c)" using good(2) by (auto simp: wf_clause_def)
  have "bindings_map (s_bindings etb_eval_state_init) \<subseteq>\<^sub>m \<sigma>"
    by (simp add: etb_eval_state_init_def bindings_map_def)
  then obtain st' where r: "reaches e (cl_body c) etb_eval_state_init st'"
    and s: "bindings_map (s_bindings st') \<subseteq>\<^sub>m \<sigma>"
    and vars: "(\<Union>l \<in> set (cl_body c). atom_vars (l_atom l)) \<subseteq> dom (bindings_map (s_bindings st'))"
    using reaches_complete [OF good(1) body(1) good(4) init_bindings _ sat] by blast
  have "atom_vars (cl_head c) \<subseteq> positive_vars c"
    using good(5) by (auto simp: clause_accepted_def constrained_vars_def)
  also have "\<dots> \<subseteq> (\<Union>l \<in> set (cl_body c). atom_vars (l_atom l))"
    by (auto simp: positive_vars_def split: if_splits)
  finally have hv: "atom_vars (cl_head c) \<subseteq> dom (bindings_map (s_bindings st'))" using vars by blast
  have eq: "instance_of (cl_head c) (bindings_map (s_bindings st')) = instance_of (cl_head c) \<sigma>"
    using instance_of_extends [OF s hv body(2)] .
  have "bindings_ok (s_bindings st')" using reaches_sound [OF good(1) body(1) init_bindings r] by simp
  then have "wf_atom (instance_of (cl_head c) (bindings_map (s_bindings st')))"
    using body(2) inst_wf [of "s_bindings st'" "a_terms (cl_head c)"] wf_atom_terms [OF body(2)]
    by (simp add: instance_of_def wf_atom_def)
  moreover have "instance_of (cl_head c) \<sigma> \<notin> new_heads e c (cl_body c) etb_eval_state_init"
    using settled c by (auto simp: consequences_def)
  moreover have "instance_of (cl_head c) \<sigma> \<in> new_heads e c (cl_body c) etb_eval_state_init"
    if "\<not> etb_relation_contains_fact (e_relations e) (instance_of (cl_head c) \<sigma>)"
    using that r eq [symmetric] ground unfolding new_heads_def by blast
  ultimately show ?thesis using contains_iff [OF good(1)] eq by metis
qed

lemma settled_derivable:
  assumes e: "good_engine e" and settled: "consequences e = {}" and base: "base \<subseteq> atoms_of e"
    and d: "derivable (e_program e) (e_now e) base a"
  shows "a \<in> atoms_of e"
  using d
proof (induction rule: derivable.induct)
  case (given a)
  then show ?case using base by blast
next
  case (rule c \<sigma>)
  let ?I = "{a. derivable (e_program e) (e_now e) base a \<and> a \<in> atoms_of e}"
  have "?I \<subseteq> atoms_of e" by blast
  then have "satisfied (atoms_of e) (e_now e) \<sigma> l" if "l \<in> set (cl_body c)" for l
    using satisfied_subset [of ?I "atoms_of e" "e_now e" \<sigma> l] rule.IH that by simp
  then show ?case using settled_closed [OF e settled rule.hyps(1) _ rule.hyps(2)] by blast
qed

lemma finite_atoms [simp]: "finite (atoms_of e)"
  by (simp add: atoms_of_def)

lemma fixpoint_passes_exact:
  "good_engine e \<Longrightarrow> fixpoint_passes adapter n e = Inr e' \<Longrightarrow>
     good_engine e' \<and> only_grown e e' \<and> atoms_of e \<subseteq> atoms_of e' \<and>
     (\<forall>base. atoms_of e \<subseteq> {a. derivable (e_program e) (e_now e) base a} \<longrightarrow>
        atoms_of e' \<subseteq> {a. derivable (e_program e) (e_now e) base a}) \<and>
     (consequences e' = {} \<or> n \<le> card (atoms_of e' - atoms_of e))"
proof (induction n arbitrary: e)
  case 0
  then show ?case by (simp add: only_grown_def)
next
  case (Suc n)
  then obtain e1 changed where p: "fixpoint_pass adapter e = Inr (e1, changed)"
    and r: "if changed then fixpoint_passes adapter n e1 = Inr e' else e' = e1"
    by (auto split: if_splits)
  have one: "good_engine e1" "only_grown e e1" "atoms_of e1 = atoms_of e \<union> consequences e"
    "changed \<longleftrightarrow> consequences e \<noteq> {}" "\<not> changed \<longrightarrow> consequences e1 = {}"
    using fixpoint_pass_exact [OF Suc.prems(1) p] by auto
  have d: "atoms_of e1 \<subseteq> {a. derivable (e_program e) (e_now e) base a}"
    if "atoms_of e \<subseteq> {a. derivable (e_program e) (e_now e) base a}" for base
    using consequences_derivable [OF Suc.prems(1) that] that one(3) by simp
  show ?case
  proof (cases changed)
    case False
    then show ?thesis using one r d by auto
  next
    case True
    then have "fixpoint_passes adapter n e1 = Inr e'" using r by simp
    note IH = Suc.IH [OF one(1) this]
    have "consequences e \<inter> atoms_of e = {}" using consequences_ok [OF Suc.prems(1)] by blast
    then obtain a where a: "a \<in> atoms_of e1" "a \<notin> atoms_of e" using one(3,4) True by blast
    have "Suc (card (atoms_of e' - atoms_of e1)) \<le> card (atoms_of e' - atoms_of e)"
    proof -
      have "insert a (atoms_of e' - atoms_of e1) \<subseteq> atoms_of e' - atoms_of e"
        using a IH one(3) by auto
      from card_mono [OF _ this] show ?thesis using a by simp
    qed
    then have "consequences e' = {} \<or> Suc n \<le> card (atoms_of e' - atoms_of e)" using IH by linarith
    moreover have "atoms_of e \<subseteq> atoms_of e'" using IH one(3) by blast
    moreover have "e_program e1 = e_program e" "e_now e1 = e_now e" using one(2) by (auto simp: only_grown_def)
    ultimately show ?thesis using IH d one(2) by (simp add: only_grown_def)
  qed
qed

text \<open>
  C2. Evaluation computes the least model. For a program without negated literals and capability
  calls, what the tables hold after a run is derivable from what they held before; it is exactly
  the derivable atoms when a further pass would add nothing, and the 64 passes of the code always
  get there if fewer than 64 atoms are new.
\<close>

theorem etb_engine_run_fixpoint_least_model:
  assumes ok: "engine_ok e" and pos: "positive_program e" and run: "etb_engine_run_fixpoint adapter e = Inr e'"
  shows "atoms_of e' \<subseteq> least_model e \<and>
    (\<forall>e''. fixpoint_pass adapter e' = Inr (e'', False) \<longrightarrow> atoms_of e' = least_model e) \<and>
    (finite (least_model e) \<and> card (least_model e - atoms_of e) < 64 \<longrightarrow> atoms_of e' = least_model e)"
proof -
  obtain strata where v: "etb_program_validate e = Inr strata"
    and p: "fixpoint_passes adapter 64 e = Inr e'"
    using run by (auto simp: etb_engine_run_fixpoint_def simp del: fixpoint_passes.simps)
  have "registry_ok (e_capabilities e)" "wf_program (e_program e)"
    using ok by (simp_all add: engine_ok_def program_ok_def)
  then have "program_accepted e" using validate_eq [of e] v by (auto split: if_splits)
  then have good: "good_engine e"
    using ok pos engine_ok_tables by (simp add: good_engine_def engine_ok_def)
  note exact = fixpoint_passes_exact [OF good p]
  have same: "e_program e' = e_program e" "e_now e' = e_now e" using exact by (auto simp: only_grown_def)
  have sound: "atoms_of e' \<subseteq> least_model e"
    using exact derivable.given unfolding least_model_def by blast
  have complete: "least_model e \<subseteq> atoms_of e'" if "consequences e' = {}"
    using settled_derivable [OF conjunct1 [OF exact] that, of "atoms_of e"] exact same
    by (auto simp: least_model_def)
  have "consequences e' = {}" if "fixpoint_pass adapter e' = Inr (e'', False)" for e''
    using fixpoint_pass_exact [OF conjunct1 [OF exact] that] by simp
  moreover have "consequences e' = {}" if "finite (least_model e)" "card (least_model e - atoms_of e) < 64"
  proof -
    have "card (atoms_of e' - atoms_of e) \<le> card (least_model e - atoms_of e)"
      using sound that(1) by (intro card_mono) auto
    then show ?thesis using exact that(2) by linarith
  qed
  ultimately show ?thesis using sound complete by blast
qed

text \<open>
  C4. Queries are exact: a goal that calls no capability meets no error on a good engine, and its
  answers are the instances of the goal under the substitutions that satisfy it in the tables.
\<close>

theorem etb_engine_query_exact:
  assumes ok: "engine_ok e" and goal: "wf_atom goal" "positive_literal e \<lparr>l_negated = False, l_atom = goal\<rparr>"
  shows "\<exists>answers. etb_engine_query adapter e goal = Inr (e, answers) \<and>
    (\<forall>a. a \<in> f_atom ` set answers \<longleftrightarrow>
      (\<exists>\<sigma>. satisfied (atoms_of e) (e_now e) \<sigma> \<lparr>l_negated = False, l_atom = goal\<rparr> \<and> a = instance_of goal \<sigma>))"
proof -
  let ?l = "\<lparr>l_negated = False, l_atom = goal\<rparr>"
  have e: "tables_ok e" using engine_ok_tables [OF ok] .
  have l: "wf_literal ?l" using goal(1) by (simp add: wf_literal_def)
  obtain sts where m: "etb_match_literal adapter e ?l etb_eval_state_init = Inr (e, sts)"
    and sts: "\<forall>st'. st' \<in> set sts \<longleftrightarrow> reaches e [?l] etb_eval_state_init st'"
    using match_literal_exact [OF e l goal(2) init_bindings, of adapter] by auto
  let ?ans = "\<lambda>st. \<lparr>f_atom = instance_of goal (bindings_map (s_bindings st)),
      f_trace_id = (if s_premises st = [] then 0 else last (s_premises st)), f_from_capability = False\<rparr>"
  have "\<exists>answers. collect_res (query_answer goal) sts = Inr answers \<and>
      (\<forall>f. f \<in> set answers \<longleftrightarrow> (\<exists>st \<in> set sts. f = ?ans st))"
  proof (rule collect_res_exact)
    show "\<exists>r. query_answer goal st = Inr r \<and> (\<forall>f. r = Some f \<longleftrightarrow> f = ?ans st)" for st
      using goal(1) by (auto simp: query_answer_def or_skip_def instantiate_atom_eq wf_atom_def instance_of_def)
  qed
  then obtain answers where c: "collect_res (query_answer goal) sts = Inr answers"
    and ans: "\<forall>f. f \<in> set answers \<longleftrightarrow> (\<exists>st \<in> set sts. f = ?ans st)" by blast
  have q: "etb_engine_query adapter e goal = Inr (e, answers)"
    using m c by (simp add: etb_engine_query_def)
  have "set answers = ?ans ` set sts" using ans by blast
  then have img: "f_atom ` set answers = (\<lambda>st. instance_of goal (bindings_map (s_bindings st))) ` set sts"
    by (simp add: image_image)
  have mem: "a \<in> f_atom ` set answers \<longleftrightarrow>
      (\<exists>st. reaches e [?l] etb_eval_state_init st \<and> a = instance_of goal (bindings_map (s_bindings st)))" for a
    unfolding img using sts by blast
  have "a \<in> f_atom ` set answers \<longleftrightarrow>
      (\<exists>\<sigma>. satisfied (atoms_of e) (e_now e) \<sigma> ?l \<and> a = instance_of goal \<sigma>)" for a
  proof
    assume "a \<in> f_atom ` set answers"
    then show "\<exists>\<sigma>. satisfied (atoms_of e) (e_now e) \<sigma> ?l \<and> a = instance_of goal \<sigma>"
      using mem reaches_sound [OF e _ init_bindings, of "[?l]"] l by fastforce
  next
    assume "\<exists>\<sigma>. satisfied (atoms_of e) (e_now e) \<sigma> ?l \<and> a = instance_of goal \<sigma>"
    then obtain \<sigma> where \<sigma>: "satisfied (atoms_of e) (e_now e) \<sigma> ?l" "a = instance_of goal \<sigma>" by blast
    have "bindings_map (s_bindings etb_eval_state_init) \<subseteq>\<^sub>m \<sigma>"
      by (simp add: etb_eval_state_init_def bindings_map_def)
    then obtain st where st: "reaches e [?l] etb_eval_state_init st" "bindings_map (s_bindings st) \<subseteq>\<^sub>m \<sigma>"
      "atom_vars goal \<subseteq> dom (bindings_map (s_bindings st))"
      using reaches_complete [OF e _ _ init_bindings, of "[?l]" \<sigma>] \<sigma>(1) l goal(2) by auto
    have "instance_of goal (bindings_map (s_bindings st)) = instance_of goal \<sigma>"
      using instance_of_extends [OF st(2,3) goal(1)] .
    then show "a \<in> f_atom ` set answers" using mem st(1) \<sigma>(2) by metis
  qed
  then show ?thesis using q by blast
qed

section \<open>Witnesses\<close>

lemma chain_positive: "positive_program chain_engine"
  by (auto simp: positive_program_def chain_engine_def etb_engine_init_def unit_clause_def chain_clause_def
      positive_literal_def capability_call_def)

lemma atoms_of_chain: "e_relations e = chain_relations 2 \<Longrightarrow> atoms_of e = {nullary ''q'', nullary ''p''}"
  by (simp add: atoms_of_def all_facts_def chain_relations_def)

lemma etb_engine_run_fixpoint_least_model_witness:
  "least_model chain_engine = {nullary ''q'', nullary ''p''}"
proof -
  obtain e' where r: "etb_engine_run_fixpoint (\<lambda>_ _. Spawn_failed) chain_engine = Inr e'"
    and e': "e_relations e' = chain_relations 2" "fixpoint_pass (\<lambda>_ _. Spawn_failed) e' = Inr (e', False)"
    using chain_run by blast
  show ?thesis
    using etb_engine_run_fixpoint_least_model [OF chain_engine_ok chain_positive r] e'(2)
      atoms_of_chain [OF e'(1)] by blast
qed

lemma etb_engine_query_exact_witness:
  "\<exists>e. engine_ok e \<and> (\<exists>\<sigma>. satisfied (atoms_of e) (e_now e) \<sigma> \<lparr>l_negated = False, l_atom = nullary ''p''\<rparr> \<and>
     nullary ''p'' = instance_of (nullary ''p'') \<sigma>)"
proof -
  obtain e where r: "etb_engine_run_fixpoint (\<lambda>_ _. Spawn_failed) chain_engine = Inr e"
    and rels: "e_relations e = chain_relations 2" using chain_run by blast
  have e: "engine_ok e" "e_capabilities e = []"
    using run_fixpoint_step [OF chain_engine_ok r] run_step_ok
    by (auto simp: run_step_def grows_def chain_engine_def etb_engine_init_def)
  have "positive_literal e \<lparr>l_negated = False, l_atom = nullary ''p''\<rparr>"
    by (simp add: positive_literal_def capability_call_def e(2))
  then obtain ans where q: "etb_engine_query (\<lambda>_ _. Spawn_failed) e (nullary ''p'') = Inr (e, ans)"
    and a: "\<forall>a. a \<in> f_atom ` set ans \<longleftrightarrow>
      (\<exists>\<sigma>. satisfied (atoms_of e) (e_now e) \<sigma> \<lparr>l_negated = False, l_atom = nullary ''p''\<rparr> \<and>
        a = instance_of (nullary ''p'') \<sigma>)"
    using etb_engine_query_exact [OF e(1) nullary_simps(5), of "''p''" "\<lambda>_ _. Spawn_failed"] by blast
  have "nullary ''p'' \<in> f_atom ` set ans"
    using q chain_query [OF rels e(2), of "\<lambda>_ _. Spawn_failed"] by auto
  then show ?thesis using a e(1) by blast
qed

end
