(* ===== verification/Negation.thy ===== *)
theory Negation
  imports Least_Model
begin

text \<open>
  Negation during evaluation: a program whose strata are accepted by the validation pass and which the
  fixpoint run nevertheless evaluates out of order.
\<close>

section \<open>A negated literal is tested too early\<close>

text \<open>The program \<open>p :- not q. q :- r. r.\<close>\<close>

definition denial_clause :: etb_clause where
  "denial_clause = \<lparr>cl_head = nullary ''p'', cl_body = [\<lparr>l_negated = True, l_atom = nullary ''q''\<rparr>],
     cl_source_line = 1\<rparr>"

definition late_clause :: etb_clause where
  "late_clause = \<lparr>cl_head = nullary ''q'', cl_body = [\<lparr>l_negated = False, l_atom = nullary ''r''\<rparr>],
     cl_source_line = 2\<rparr>"

definition denial_engine :: etb_engine where
  "denial_engine = (etb_engine_init 0)\<lparr>e_program :=
     [ETB_STMT_CLAUSE denial_clause, ETB_STMT_CLAUSE late_clause, ETB_STMT_CLAUSE (unit_clause ''r'')]\<rparr>"

definition denial_relations :: "nat \<Rightarrow> etb_relation_set" where
  "denial_relations n = take n
     [\<lparr>r_key = ''p/0'', r_facts = [\<lparr>f_atom = nullary ''p'', f_trace_id = 0, f_from_capability = False\<rparr>]\<rparr>,
      \<lparr>r_key = ''r/0'', r_facts = [\<lparr>f_atom = nullary ''r'', f_trace_id = 1, f_from_capability = False\<rparr>]\<rparr>,
      \<lparr>r_key = ''q/0'', r_facts = [\<lparr>f_atom = nullary ''q'', f_trace_id = 2, f_from_capability = False\<rparr>]\<rparr>]"

lemma denial_strata: "etb_program_validate denial_engine = Inr [1, 0, 0]"
proof -
  have ok: "registry_ok (e_capabilities denial_engine)" "wf_program (e_program denial_engine)"
    "program_accepted denial_engine"
    by (simp_all add: denial_engine_def etb_engine_init_def registry_ok_def wf_program_def wf_statement_def
        wf_clause_def wf_literal_def program_accepted_def clause_accepted_def negation_supported_def
        constrained_vars_def atom_vars_def unit_clause_def denial_clause_def late_clause_def
        capability_call_def)
  have keys: "program_keys (e_program denial_engine) = [''p/0'', ''q/0'', ''r/0'']"
    by (simp add: program_keys_def denial_engine_def collect_key_def nullary_key etb_key_index_def
        unit_clause_def denial_clause_def late_clause_def)
  have "program_constraints denial_engine [''p/0'', ''q/0'', ''r/0''] (e_program denial_engine) =
      [(0, 1, 1), (1, 2, 0)]"
    by (simp add: program_constraints_def denial_engine_def clause_constraints_def nullary_key
        etb_key_index_def capability_call_def etb_engine_init_def unit_clause_def denial_clause_def
        late_clause_def)
  then show ?thesis
    using validate_eq [OF ok(1,2)] ok(3) by (simp add: keys relax_def eval_nat_numeral)
qed


end
