(* ===== verification/Routes.thy ===== *)
theory Routes
  imports Parser
begin

text \<open>
  The tables of \<open>src/runtime/distributed.c\<close>: string lists, endpoint lists, the map from principals
  to endpoints, and the registry, a text file with one line \<open>principal|endpoint\<close> per route that
  every process of a node reads and writes.

  Strings here are C strings that are present; \<open>route_table\<close> is the contract of the route map the
  rest of the node relies on. The registry file is its content, \<open>None\<close> when there is none;
  whether it can be opened for writing is an argument.
\<close>

section \<open>String and endpoint lists\<close>

definition etb_string_list_contains :: "string list \<Rightarrow> string \<Rightarrow> bool" where
  "etb_string_list_contains xs s = list_ex (\<lambda>x. x = s) xs"

definition etb_string_list_add :: "string list \<Rightarrow> string \<Rightarrow> string list" where
  "etb_string_list_add xs s = (if etb_string_list_contains xs s then xs else xs @ [s])"

definition etb_endpoint_list_add :: "string list \<Rightarrow> string \<Rightarrow> string list" where
  "etb_endpoint_list_add xs s = (if list_ex (\<lambda>x. x = s) xs then xs else xs @ [s])"

interpretation strings: unique_store etb_string_list_contains etb_string_list_add
  by unfold_locales (auto simp: etb_string_list_contains_def etb_string_list_add_def list_ex_iff)

interpretation endpoints: unique_store "\<lambda>xs s. list_ex (\<lambda>x. x = s) xs" etb_endpoint_list_add
  by unfold_locales (auto simp: etb_endpoint_list_add_def list_ex_iff)

section \<open>Route maps\<close>

record etb_peer_route =
  pr_principal :: string
  pr_endpoint :: string

type_synonym etb_peer_route_map = "etb_peer_route list"

primrec etb_peer_route_map_add ::
    "etb_peer_route_map \<Rightarrow> string \<Rightarrow> string \<Rightarrow> etb_peer_route_map" where
  "etb_peer_route_map_add [] p ep = [\<lparr>pr_principal = p, pr_endpoint = ep\<rparr>]"
| "etb_peer_route_map_add (r # rs) p ep =
     (if pr_principal r = p then r\<lparr>pr_endpoint := ep\<rparr> # rs else r # etb_peer_route_map_add rs p ep)"

definition etb_peer_route_map_lookup :: "etb_peer_route_map \<Rightarrow> string \<Rightarrow> string option" where
  "etb_peer_route_map_lookup m p =
     map_option pr_endpoint (List.find (\<lambda>r. pr_principal r = p) m)"

definition etb_peer_route_map_merge ::
    "etb_peer_route_map \<Rightarrow> etb_peer_route_map \<Rightarrow> etb_peer_route_map" where
  "etb_peer_route_map_merge dst src =
     foldl (\<lambda>m r. etb_peer_route_map_add m (pr_principal r) (pr_endpoint r)) dst src"

lemma map_of_rev: "distinct (map fst kvs) \<Longrightarrow> map_of (rev kvs) k = map_of kvs k"
proof -
  assume d: "distinct (map fst kvs)"
  then have "map_of (rev kvs) k = Some v \<longleftrightarrow> map_of kvs k = Some v" for v
    by (simp add: map_of_eq_Some_iff rev_map [symmetric])
  then show ?thesis by (cases "map_of kvs k"; cases "map_of (rev kvs) k") auto
qed

text \<open>The contract: a table whose entries are replaced by key.\<close>

locale route_table =
  fixes lookup :: "'m \<Rightarrow> 'k \<Rightarrow> 'v option" and add :: "'m \<Rightarrow> 'k \<Rightarrow> 'v \<Rightarrow> 'm" and new :: 'm
  assumes lookup_new: "lookup new k = None"
    and lookup_add: "lookup (add m k v) q = (if q = k then Some v else lookup m q)"
begin

definition add_all :: "'m \<Rightarrow> ('k \<times> 'v) list \<Rightarrow> 'm" where
  "add_all m kvs = foldl (\<lambda>m (k, v). add m k v) m kvs"

lemma add_all_simps [simp]:
  "add_all m [] = m" "add_all m ((k, v) # kvs) = add_all (add m k v) kvs"
  by (simp_all add: add_all_def)

lemma lookup_add_all: "lookup (add_all m kvs) q = (case map_of (rev kvs) q of Some v \<Rightarrow> Some v | None \<Rightarrow> lookup m q)"
proof (induction kvs arbitrary: m)
  case Nil
  then show ?case by simp
next
  case (Cons kv kvs)
  obtain k v where "kv = (k, v)" by fastforce
  then show ?case using Cons [of "add m k v"] by (simp add: lookup_add map_add_def split: option.split)
qed

lemma lookup_add_all_distinct:
  "distinct (map fst kvs) \<Longrightarrow>
     lookup (add_all m kvs) q = (case map_of kvs q of Some v \<Rightarrow> Some v | None \<Rightarrow> lookup m q)"
  by (simp add: lookup_add_all map_of_rev)

end

definition pairs :: "etb_peer_route_map \<Rightarrow> (string \<times> string) list" where
  "pairs m = map (\<lambda>r. (pr_principal r, pr_endpoint r)) m"

lemma lookup_pairs: "etb_peer_route_map_lookup m p = map_of (pairs m) p"
  by (induction m) (auto simp: etb_peer_route_map_lookup_def pairs_def)

lemma lookup_route_add:
  "etb_peer_route_map_lookup (etb_peer_route_map_add m k v) q =
     (if q = k then Some v else etb_peer_route_map_lookup m q)"
  by (induction m) (auto simp: etb_peer_route_map_lookup_def)

interpretation routes: route_table etb_peer_route_map_lookup etb_peer_route_map_add "[]"
  by unfold_locales (simp_all add: lookup_route_add, simp add: etb_peer_route_map_lookup_def)

lemma merge_add_all: "etb_peer_route_map_merge dst src = routes.add_all dst (pairs src)"
  by (induction src arbitrary: dst) (simp_all add: etb_peer_route_map_merge_def pairs_def)

text \<open>Maps built by adding hold one route per principal.\<close>

definition routes_ok :: "etb_peer_route_map \<Rightarrow> bool" where
  "routes_ok m \<longleftrightarrow> distinct (map pr_principal m)"

lemma principals_add: "set (map pr_principal (etb_peer_route_map_add m p ep)) = insert p (pr_principal ` set m)"
  by (induction m) auto

lemma routes_ok_add: "routes_ok m \<Longrightarrow> routes_ok (etb_peer_route_map_add m p ep)"
proof (induction m)
  case Nil
  then show ?case by (simp add: routes_ok_def)
next
  case (Cons r m)
  then show ?case using principals_add [of m p ep] by (auto simp: routes_ok_def)
qed

lemma routes_ok_merge: "routes_ok dst \<Longrightarrow> routes_ok (etb_peer_route_map_merge dst src)"
  by (induction src arbitrary: dst) (simp_all add: etb_peer_route_map_merge_def routes_ok_add)

lemma lookup_merge:
  assumes "routes_ok src"
  shows "etb_peer_route_map_lookup (etb_peer_route_map_merge dst src) p =
    (case etb_peer_route_map_lookup src p of Some e \<Rightarrow> Some e | None \<Rightarrow> etb_peer_route_map_lookup dst p)"
proof -
  have "distinct (map fst (pairs src))" using assms by (simp add: routes_ok_def pairs_def comp_def)
  then show ?thesis
    using routes.lookup_add_all_distinct [of "pairs src" dst p] by (simp add: merge_add_all lookup_pairs)
qed

section \<open>Endpoints and names\<close>

text \<open>\<open>strrchr\<close>: the part after the last colon is the port.\<close>

definition etb_parse_endpoint :: "string \<Rightarrow> (string \<times> string) option" where
  "etb_parse_endpoint endpoint =
     (let port = rev (takeWhile (\<lambda>c. c \<noteq> CHR '':'') (rev endpoint)) in
      if CHR '':'' \<notin> set endpoint \<or> length endpoint = length port + 1 \<or> port = '''' then None
      else Some (take (length endpoint - length port - 1) endpoint, port))"

definition etb_route_is_publishable :: "string option \<Rightarrow> string option \<Rightarrow> bool" where
  "etb_route_is_publishable p ep \<longleftrightarrow> p \<noteq> None \<and> p \<noteq> Some '''' \<and> ep \<noteq> None \<and> ep \<noteq> Some ''''"

definition safe_char :: "char \<Rightarrow> char" where
  "safe_char c = (if is_lower c \<or> is_upper c \<or> is_digit c then c else CHR ''_'')"

definition etb_sanitize_name :: "string \<Rightarrow> nat \<Rightarrow> string" where
  "etb_sanitize_name input output_size = map safe_char (take (output_size - 1) input)"

section \<open>The registry file\<close>

definition newline :: char where
  "newline = CHR 0x0A"

text \<open>\<open>fgets(line, 512, stream)\<close>: up to and with the next newline, at most 511 characters.\<close>

definition fgets_line :: "string \<Rightarrow> string" where
  "fgets_line s =
     (let pre = takeWhile (\<lambda>c. c \<noteq> newline) s in take 511 (take (length pre + 1) s))"

function file_lines :: "string \<Rightarrow> string list" where
  "file_lines s = (if s = '''' then [] else fgets_line s # file_lines (drop (length (fgets_line s)) s))"
  by pat_completeness auto
termination file_lines
proof (relation "measure length")
  show "wf (measure length)" by simp
  fix s :: string assume "s \<noteq> ''''"
  then have "0 < length (fgets_line s)" by (simp add: fgets_line_def Let_def)
  then show "(drop (length (fgets_line s)) s, s) \<in> measure length"
    using \<open>s \<noteq> ''''\<close> by simp
qed

declare file_lines.simps [simp del]

definition load_line :: "etb_peer_route_map \<Rightarrow> string \<Rightarrow> etb_peer_route_map" where
  "load_line m line0 =
     (let line = c_str line0;
          principal = takeWhile (\<lambda>c. c \<noteq> CHR ''|'') line;
          endpoint = takeWhile (\<lambda>c. c \<noteq> newline) (drop (length principal + 1) line)
      in if CHR ''|'' \<notin> set line then m
         else if \<not> etb_route_is_publishable (Some principal) (Some endpoint) then m
         else etb_peer_route_map_add m principal endpoint)"

definition etb_registry_load :: "string option \<Rightarrow> etb_peer_route_map" where
  "etb_registry_load file =
     (case file of None \<Rightarrow> [] | Some s \<Rightarrow> foldl load_line [] (file_lines s))"

definition route_line :: "etb_peer_route \<Rightarrow> string" where
  "route_line r = pr_principal r @ ''|'' @ pr_endpoint r @ [newline]"

definition publishable :: "etb_peer_route \<Rightarrow> bool" where
  "publishable r \<longleftrightarrow> etb_route_is_publishable (Some (pr_principal r)) (Some (pr_endpoint r))"

text \<open>The new content of the file, or nothing when it cannot be opened for writing.\<close>

definition etb_registry_save :: "bool \<Rightarrow> etb_peer_route_map \<Rightarrow> string option" where
  "etb_registry_save writable m =
     (if writable then Some (concat (map route_line (filter publishable m))) else None)"

definition etb_registry_merge_and_save ::
    "bool \<Rightarrow> string option \<Rightarrow> etb_peer_route_map \<Rightarrow> string option" where
  "etb_registry_merge_and_save writable file extra =
     etb_registry_save writable (etb_peer_route_map_merge (etb_registry_load file) extra)"

text \<open>The routes of a node: the principals that speak in the heads of its program, or the node itself.\<close>

definition speaking_head :: "etb_statement \<Rightarrow> string option" where
  "speaking_head statement =
     (case statement of
        ETB_STMT_CLAUSE c \<Rightarrow> if a_kind (cl_head c) = ETB_ATOM_SAYS then a_principal (cl_head c) else None
      | ETB_STMT_CAPABILITY _ \<Rightarrow> None)"

definition etb_collect_local_routes ::
    "file_read \<Rightarrow> string \<Rightarrow> string \<Rightarrow> etb_peer_route_map res" where
  "etb_collect_local_routes program_file listen_endpoint node_id =
     bind_res (etb_parse_file program_file) (\<lambda>program.
       let m = foldl (\<lambda>m s. case speaking_head s of None \<Rightarrow> m
                        | Some p \<Rightarrow> etb_peer_route_map_add m p listen_endpoint) [] program
       in Inr (if m = [] then etb_peer_route_map_add m node_id listen_endpoint else m))"

section \<open>The file keeps the routes\<close>

text \<open>A route that fits a line: no separator in the principal, no line break, at most 511 bytes.\<close>

definition plain_route :: "etb_peer_route \<Rightarrow> bool" where
  "plain_route r \<longleftrightarrow> pr_principal r \<noteq> '''' \<and> pr_endpoint r \<noteq> '''' \<and>
     CHR ''|'' \<notin> set (pr_principal r) \<and> newline \<notin> set (pr_principal r) \<and> newline \<notin> set (pr_endpoint r) \<and>
     CHR 0x00 \<notin> set (pr_principal r) \<and> CHR 0x00 \<notin> set (pr_endpoint r) \<and>
     length (pr_principal r) + length (pr_endpoint r) \<le> 509"

lemma fgets_short:
  assumes "newline \<notin> set pre" and "length pre \<le> 510"
  shows "fgets_line (pre @ newline # rest) = pre @ [newline]"
proof -
  have "takeWhile (\<lambda>c. c \<noteq> newline) (pre @ newline # rest) = pre"
    using assms(1) by (subst takeWhile_append2) auto
  moreover have "take (length pre + 1) (pre @ newline # rest) = pre @ [newline]" by simp
  ultimately show ?thesis using assms(2) by (simp add: fgets_line_def)
qed

lemma fgets_route_line:
  assumes "plain_route r"
  shows "fgets_line (route_line r @ rest) = route_line r"
  using fgets_short [of "pr_principal r @ ''|'' @ pr_endpoint r" rest] assms
  by (simp add: route_line_def plain_route_def newline_def)

lemma route_line_not_Nil: "route_line r \<noteq> []"
  by (simp add: route_line_def)

lemma file_lines_routes:
  "list_all plain_route m \<Longrightarrow> file_lines (concat (map route_line m)) = map route_line m"
proof (induction m)
  case Nil
  then show ?case by (simp add: file_lines.simps)
next
  case (Cons r m)
  then show ?case
    using fgets_route_line [of r "concat (map route_line m)"]
    by (subst file_lines.simps) (auto simp: route_line_not_Nil)
qed

lemma load_route_line:
  assumes "plain_route r"
  shows "load_line m (route_line r) = etb_peer_route_map_add m (pr_principal r) (pr_endpoint r)"
proof -
  have c: "c_str (route_line r) = route_line r"
    using assms by (intro c_str_id) (auto simp: route_line_def plain_route_def newline_def)
  have p: "takeWhile (\<lambda>c. c \<noteq> CHR ''|'') (route_line r) = pr_principal r"
    using assms unfolding route_line_def by (subst takeWhile_append2) (auto simp: plain_route_def)
  have e: "takeWhile (\<lambda>c. c \<noteq> newline) (pr_endpoint r @ [newline]) = pr_endpoint r"
    using assms by (subst takeWhile_append2) (auto simp: plain_route_def)
  have d: "drop (length (pr_principal r) + 1) (route_line r) = pr_endpoint r @ [newline]"
    by (simp add: route_line_def)
  have bar: "CHR ''|'' \<in> set (route_line r)" by (simp add: route_line_def)
  show ?thesis
    unfolding load_line_def Let_def c p d e using assms bar
    by (simp add: etb_route_is_publishable_def plain_route_def)
qed

lemma merge_self: "routes_ok (m @ rs) \<Longrightarrow> etb_peer_route_map_merge m rs = m @ rs"
proof (induction rs arbitrary: m)
  case Nil
  then show ?case by (simp add: etb_peer_route_map_merge_def)
next
  case (Cons r rs)
  have "pr_principal r \<notin> pr_principal ` set m" using Cons.prems by (auto simp: routes_ok_def)
  then have "etb_peer_route_map_add m (pr_principal r) (pr_endpoint r) = m @ [r]"
    by (induction m) auto
  then show ?case using Cons.IH [of "m @ [r]"] Cons.prems by (simp add: etb_peer_route_map_merge_def)
qed

lemma load_save:
  assumes "routes_ok m" and "list_all plain_route m"
  shows "etb_registry_load (etb_registry_save True m) = m"
proof -
  have "filter publishable m = m"
    using assms(2) by (intro filter_True)
      (auto simp: list_all_iff publishable_def etb_route_is_publishable_def plain_route_def)
  moreover have "foldl load_line m0 (map route_line rs) = etb_peer_route_map_merge m0 rs"
    if "list_all plain_route rs" for m0 rs
    using that by (induction rs arbitrary: m0) (simp_all add: load_route_line etb_peer_route_map_merge_def)
  ultimately show ?thesis
    using assms merge_self [of "[]" m]
    by (simp add: etb_registry_load_def etb_registry_save_def file_lines_routes)
qed

lemma routes_ok_load: "routes_ok (etb_registry_load file)"
proof -
  have "routes_ok m \<Longrightarrow> routes_ok (load_line m line)" for m line
    by (simp add: load_line_def Let_def routes_ok_add)
  then have "routes_ok m \<Longrightarrow> routes_ok (foldl load_line m lines)" for m lines
    by (induction lines arbitrary: m) auto
  then show ?thesis by (simp add: etb_registry_load_def routes_ok_def split: option.split)
qed

section \<open>The node's view\<close>

text \<open>
  The part of \<open>etb_node_context\<close> that routing uses, and the three steps on the registry: what a
  node sees, what it stores from a request, and what it resolves a principal to.
\<close>

record etb_node_context =
  nc_node_id :: string
  nc_listen_endpoint :: string
  nc_peers :: etb_peer_route_map
  nc_seeds :: "string list"
  nc_local_routes :: etb_peer_route_map

definition etb_registry_snapshot ::
    "etb_node_context \<Rightarrow> string option \<Rightarrow> etb_peer_route_map" where
  "etb_registry_snapshot context file =
     etb_peer_route_map_merge
       (etb_peer_route_map_merge (etb_registry_load file) (nc_local_routes context)) (nc_peers context)"

definition registry_update ::
    "string option \<Rightarrow> string option \<Rightarrow> etb_peer_route_map \<Rightarrow> etb_peer_route_map \<Rightarrow> etb_peer_route_map" where
  "registry_update node_id endpoint request_routes m =
     etb_peer_route_map_merge
       (case (node_id, endpoint) of
          (Some n, Some ep) \<Rightarrow>
            if etb_route_is_publishable node_id endpoint then etb_peer_route_map_add m n ep else m
        | _ \<Rightarrow> m) request_routes"

definition etb_registry_ingest ::
    "etb_node_context \<Rightarrow> bool \<Rightarrow> string option \<Rightarrow> string option \<Rightarrow> string option \<Rightarrow>
     etb_peer_route_map \<Rightarrow> string option" where
  "etb_registry_ingest context writable file node_id endpoint request_routes =
     etb_registry_save writable
       (registry_update node_id endpoint request_routes (etb_registry_snapshot context file))"

definition etb_resolve_known_endpoint ::
    "etb_node_context \<Rightarrow> string option \<Rightarrow> string \<Rightarrow> string option" where
  "etb_resolve_known_endpoint context file p =
     (case etb_peer_route_map_lookup (nc_peers context) p of
        Some ep \<Rightarrow> Some ep
      | None \<Rightarrow> etb_peer_route_map_lookup (etb_registry_snapshot context file) p)"

definition context_ok :: "etb_node_context \<Rightarrow> bool" where
  "context_ok context \<longleftrightarrow> routes_ok (nc_peers context) \<and> routes_ok (nc_local_routes context)"

definition either :: "'a option \<Rightarrow> 'a option \<Rightarrow> 'a option" where
  "either a b = (case a of Some x \<Rightarrow> Some x | None \<Rightarrow> b)"

lemma lookup_snapshot:
  "context_ok context \<Longrightarrow> etb_peer_route_map_lookup (etb_registry_snapshot context file) p =
     either (etb_peer_route_map_lookup (nc_peers context) p)
       (either (etb_peer_route_map_lookup (nc_local_routes context) p)
         (etb_peer_route_map_lookup (etb_registry_load file) p))"
  by (simp add: etb_registry_snapshot_def context_ok_def lookup_merge either_def split: option.split)

lemma routes_ok_snapshot: "routes_ok (etb_registry_snapshot context file)"
  by (simp add: etb_registry_snapshot_def routes_ok_merge routes_ok_load)

lemma resolve_eq:
  "context_ok context \<Longrightarrow> etb_resolve_known_endpoint context file p =
     either (etb_peer_route_map_lookup (nc_peers context) p)
       (either (etb_peer_route_map_lookup (nc_local_routes context) p)
         (etb_peer_route_map_lookup (etb_registry_load file) p))"
  by (simp add: etb_resolve_known_endpoint_def lookup_snapshot either_def split: option.split)

lemma list_all_route_add:
  "list_all P m \<Longrightarrow> P \<lparr>pr_principal = p, pr_endpoint = ep\<rparr> \<Longrightarrow> list_all P (etb_peer_route_map_add m p ep)"
proof (induction m)
  case Nil
  then show ?case by simp
next
  case (Cons r m)
  then show ?case by (cases r) auto
qed

lemma list_all_merge: "list_all P dst \<Longrightarrow> list_all P src \<Longrightarrow> list_all P (etb_peer_route_map_merge dst src)"
proof (induction src arbitrary: dst)
  case Nil
  then show ?case by (simp add: etb_peer_route_map_merge_def)
next
  case (Cons r src)
  then have "list_all P (etb_peer_route_map_add dst (pr_principal r) (pr_endpoint r))"
    by (cases r) (simp add: list_all_route_add)
  then show ?case using Cons by (simp add: etb_peer_route_map_merge_def)
qed

lemma list_all_update:
  "list_all P m \<Longrightarrow> list_all P request_routes \<Longrightarrow>
   (\<And>n ep. node_id = Some n \<Longrightarrow> endpoint = Some ep \<Longrightarrow> P \<lparr>pr_principal = n, pr_endpoint = ep\<rparr>) \<Longrightarrow>
     list_all P (registry_update node_id endpoint request_routes m)"
  unfolding registry_update_def
  by (intro list_all_merge) (auto simp: list_all_route_add split: option.split)

lemma list_all_snapshot:
  "list_all P (etb_registry_load file) \<Longrightarrow> list_all P (nc_local_routes context) \<Longrightarrow>
   list_all P (nc_peers context) \<Longrightarrow> list_all P (etb_registry_snapshot context file)"
  by (simp add: etb_registry_snapshot_def list_all_merge)

lemma routes_ok_update: "routes_ok m \<Longrightarrow> routes_ok (registry_update node_id endpoint request_routes m)"
  by (auto simp: registry_update_def routes_ok_merge routes_ok_add split: option.split)


text \<open>
  A line break in an endpoint forges a route: a single route whose endpoint carries
  \<open>newline principal|endpoint\<close> is saved as two lines and loads as two routes. The texts of a
  request are stored unchecked.
\<close>

theorem registry_line_injection:
  assumes "plain_route r" and "plain_route s" and "pr_principal r \<noteq> pr_principal s"
  shows "etb_registry_load (etb_registry_save True
      [\<lparr>pr_principal = pr_principal r,
        pr_endpoint = pr_endpoint r @ newline # pr_principal s @ ''|'' @ pr_endpoint s\<rparr>]) = [r, s]"
proof -
  let ?x = "\<lparr>pr_principal = pr_principal r,
        pr_endpoint = pr_endpoint r @ newline # pr_principal s @ ''|'' @ pr_endpoint s\<rparr>"
  have "publishable ?x" "publishable r" "publishable s"
    using assms(1,2) by (simp_all add: publishable_def etb_route_is_publishable_def plain_route_def)
  then have "etb_registry_save True [?x] = etb_registry_save True [r, s]"
    by (simp add: etb_registry_save_def route_line_def)
  also have "etb_registry_load \<dots> = [r, s]"
    using assms by (intro load_save) (simp_all add: routes_ok_def)
  finally show ?thesis .
qed

section \<open>Concurrent requests\<close>

text \<open>
  The node forks one process per connection, and each takes its request in by reading the
  registry, merging and writing it back, without a lock. A step is one read or one write of one
  of the processes.
\<close>

datatype ingest_process =
    Arrived "string option" "string option" etb_peer_route_map
  | Loaded "string option" "string option" etb_peer_route_map etb_peer_route_map
  | Stored

inductive ingest_step ::
    "etb_node_context \<Rightarrow> string option \<times> ingest_process list \<Rightarrow> string option \<times> ingest_process list \<Rightarrow> bool"
  for ctx
where
  load: "i < length ps \<Longrightarrow> ps ! i = Arrived n ep rs \<Longrightarrow>
    ingest_step ctx (file, ps)
      (file, ps[i := Loaded n ep rs (etb_registry_snapshot ctx file)])"
| store: "i < length ps \<Longrightarrow> ps ! i = Loaded n ep rs m \<Longrightarrow>
    ingest_step ctx (file, ps)
      (etb_registry_save True (registry_update n ep rs m), ps[i := Stored])"

inductive_cases ingest_stepE: "ingest_step context s t"

text \<open>Run on its own, a process does exactly what \<open>etb_registry_ingest\<close> does.\<close>

lemma ingest_alone:
  "(ingest_step context)\<^sup>*\<^sup>* (file, [Arrived n ep rs])
     (etb_registry_ingest context True file n ep rs, [Stored])"
proof -
  have "ingest_step context (file, [Arrived n ep rs])
      (file, [Arrived n ep rs] [0 := Loaded n ep rs (etb_registry_snapshot context file)])"
    by (rule ingest_step.load) simp_all
  moreover have "ingest_step context (file, [Loaded n ep rs (etb_registry_snapshot context file)])
      (etb_registry_save True (registry_update n ep rs (etb_registry_snapshot context file)),
       [Loaded n ep rs (etb_registry_snapshot context file)] [0 := Stored])"
    by (rule ingest_step.store) simp_all
  ultimately show ?thesis
    by (simp add: etb_registry_ingest_def converse_rtranclp_into_rtranclp)
qed

lemma ingest_load:
  "i < length ps \<Longrightarrow> ps ! i = Arrived n ep rs \<Longrightarrow> ps' = ps[i := Loaded n ep rs (etb_registry_snapshot ctx file)] \<Longrightarrow>
     ingest_step ctx (file, ps) (file, ps')"
  using ingest_step.load by blast

lemma ingest_store:
  "i < length ps \<Longrightarrow> ps ! i = Loaded n ep rs m \<Longrightarrow> ps' = ps[i := Stored] \<Longrightarrow>
     file' = etb_registry_save True (registry_update n ep rs m) \<Longrightarrow> ingest_step ctx (file, ps) (file', ps')"
  using ingest_step.store by blast

text \<open>
  An update can be lost: when two requests arrive together, both processes may read before
  either writes, and the file then ends as if the first request had never arrived.
\<close>

theorem registry_update_lost:
  "(ingest_step ctx)\<^sup>*\<^sup>* (file, [Arrived n1 ep1 rs1, Arrived n2 ep2 rs2])
     (etb_registry_ingest ctx True file n2 ep2 rs2, [Stored, Stored])"
proof -
  let ?m = "etb_registry_snapshot ctx file"
  let ?f = "etb_registry_save True (registry_update n1 ep1 rs1 ?m)"
  have "ingest_step ctx (file, [Arrived n1 ep1 rs1, Arrived n2 ep2 rs2]) (file, [Loaded n1 ep1 rs1 ?m, Arrived n2 ep2 rs2])"
    by (rule ingest_load [of 0]) simp_all
  moreover have "ingest_step ctx (file, [Loaded n1 ep1 rs1 ?m, Arrived n2 ep2 rs2])
      (file, [Loaded n1 ep1 rs1 ?m, Loaded n2 ep2 rs2 ?m])"
    by (rule ingest_load [of 1]) simp_all
  moreover have "ingest_step ctx (file, [Loaded n1 ep1 rs1 ?m, Loaded n2 ep2 rs2 ?m]) (?f, [Stored, Loaded n2 ep2 rs2 ?m])"
    by (rule ingest_store [of 0]) simp_all
  moreover have "ingest_step ctx (?f, [Stored, Loaded n2 ep2 rs2 ?m])
      (etb_registry_ingest ctx True file n2 ep2 rs2, [Stored, Stored])"
    by (rule ingest_store [of 1]) (simp_all add: etb_registry_ingest_def)
  ultimately show ?thesis by (meson converse_rtranclp_into_rtranclp rtranclp.rtrancl_refl)
qed

text \<open>What the processes may still write stays within the routes known at the start.\<close>

definition announced_within ::
    "etb_peer_route set \<Rightarrow> string option \<Rightarrow> string option \<Rightarrow> etb_peer_route_map \<Rightarrow> bool" where
  "announced_within known n ep rs \<longleftrightarrow> set rs \<subseteq> known \<and>
     (\<forall>a b. n = Some a \<and> ep = Some b \<longrightarrow> \<lparr>pr_principal = a, pr_endpoint = b\<rparr> \<in> known)"

fun process_within :: "etb_peer_route set \<Rightarrow> ingest_process \<Rightarrow> bool" where
  "process_within known (Arrived n ep rs) \<longleftrightarrow> announced_within known n ep rs"
| "process_within known (Loaded n ep rs m) \<longleftrightarrow> announced_within known n ep rs \<and> set m \<subseteq> known \<and> routes_ok m"
| "process_within known Stored \<longleftrightarrow> True"

lemma within_snapshot:
  "set (etb_registry_load file) \<subseteq> known \<Longrightarrow> set (nc_local_routes ctx) \<subseteq> known \<Longrightarrow>
   set (nc_peers ctx) \<subseteq> known \<Longrightarrow> set (etb_registry_snapshot ctx file) \<subseteq> known"
  using list_all_snapshot [of "\<lambda>r. r \<in> known" "file" "ctx"] by (auto simp: list_all_iff)

lemma within_update:
  "process_within known (Loaded n ep rs m) \<Longrightarrow> set (registry_update n ep rs m) \<subseteq> known"
  using list_all_update [of "\<lambda>r. r \<in> known" m rs n ep] by (auto simp: list_all_iff announced_within_def)

lemma process_within_update:
  "list_all (process_within known) ps \<Longrightarrow> process_within known q \<Longrightarrow> list_all (process_within known) (ps[i := q])"
  by (auto simp: list_all_iff dest: set_update_subset_insert [THEN subsetD])

lemma ingest_step_within:
  assumes step: "ingest_step ctx (file, ps) (file', ps')" and plain: "\<forall>r \<in> known. plain_route r"
    and ctx: "set (nc_local_routes ctx) \<subseteq> known" "set (nc_peers ctx) \<subseteq> known"
    and inv: "set (etb_registry_load file) \<subseteq> known" "list_all (process_within known) ps"
  shows "set (etb_registry_load file') \<subseteq> known \<and> list_all (process_within known) ps'"
  using step
proof cases
  case (load i n ep rs)
  have "process_within known (Arrived n ep rs)" using inv(2) load by (auto simp: list_all_length)
  moreover have "set (etb_registry_snapshot ctx file) \<subseteq> known" using inv(1) ctx by (rule within_snapshot)
  ultimately have "process_within known (Loaded n ep rs (etb_registry_snapshot ctx file))"
    by (simp add: routes_ok_snapshot)
  then show ?thesis using load inv by (simp add: process_within_update)
next
  case (store i n ep rs m)
  have p: "process_within known (Loaded n ep rs m)" using inv(2) store by (metis list_all_length)
  then have u: "set (registry_update n ep rs m) \<subseteq> known" by (rule within_update)
  moreover have "routes_ok (registry_update n ep rs m)" using p by (simp add: routes_ok_update)
  ultimately have "etb_registry_load file' = registry_update n ep rs m"
    using plain store load_save [of "registry_update n ep rs m"] by (auto simp: list_all_iff)
  then show ?thesis using u store inv by (simp add: process_within_update)
qed


section \<open>Endpoints\<close>

text \<open>
  An endpoint is accepted exactly when it is \<open>host:port\<close> with a host and a port, the port
  free of colons, and then split there.
\<close>

theorem etb_parse_endpoint_iff:
  "etb_parse_endpoint endpoint = Some (host, port) \<longleftrightarrow>
     endpoint = host @ '':'' @ port \<and> host \<noteq> '''' \<and> port \<noteq> '''' \<and> CHR '':'' \<notin> set port"
proof
  assume e: "endpoint = host @ '':'' @ port \<and> host \<noteq> '''' \<and> port \<noteq> '''' \<and> CHR '':'' \<notin> set port"
  then have "takeWhile (\<lambda>c. c \<noteq> CHR '':'') (rev port @ CHR '':'' # rev host) = rev port"
    by (subst takeWhile_append2) auto
  then show "etb_parse_endpoint endpoint = Some (host, port)"
    using e by (simp add: etb_parse_endpoint_def)
next
  assume p: "etb_parse_endpoint endpoint = Some (host, port)"
  define w where "w = takeWhile (\<lambda>c. c \<noteq> CHR '':'') (rev endpoint)"
  have w: "port = rev w" "host = take (length endpoint - length w - 1) endpoint" "port \<noteq> ''''"
    "CHR '':'' \<in> set endpoint" "length endpoint \<noteq> length w + 1"
    using p by (auto simp: etb_parse_endpoint_def Let_def w_def split: if_splits)
  have "dropWhile (\<lambda>c. c \<noteq> CHR '':'') (rev endpoint) \<noteq> []"
    using w(4) by (auto simp: dropWhile_eq_Nil_conv)
  then obtain rest where rest: "dropWhile (\<lambda>c. c \<noteq> CHR '':'') (rev endpoint) = CHR '':'' # rest"
    using hd_dropWhile [of "\<lambda>c. c \<noteq> CHR '':''" "rev endpoint"] by (metis list.exhaust_sel)
  then have "rev endpoint = w @ CHR '':'' # rest" by (metis takeWhile_dropWhile_id w_def)
  then have "rev (rev endpoint) = rev (w @ CHR '':'' # rest)" by simp
  then have e: "endpoint = rev rest @ '':'' @ rev w" by simp
  moreover have "CHR '':'' \<notin> set w" by (auto simp: w_def dest: set_takeWhileD)
  ultimately show "endpoint = host @ '':'' @ port \<and> host \<noteq> '''' \<and> port \<noteq> '''' \<and> CHR '':'' \<notin> set port"
    using w by auto
qed

lemma etb_parse_endpoint_witness:
  "etb_parse_endpoint ''[::1]:70'' = Some (''[::1]'', ''70'')"
  by (simp add: etb_parse_endpoint_iff)

text \<open>The name in the registry's path: letters, digits and underscores, at most 127 of them.\<close>

lemma sanitize_name_path:
  "length (etb_sanitize_name input 128) \<le> 127 \<and>
   (\<forall>c \<in> set (etb_sanitize_name input 128). is_lower c \<or> is_upper c \<or> is_digit c \<or> c = CHR ''_'')"
  by (auto simp: etb_sanitize_name_def safe_char_def)

section \<open>Witnesses\<close>

definition sample_context :: etb_node_context where
  "sample_context = \<lparr>nc_node_id = ''n'', nc_listen_endpoint = ''h:0'',
     nc_peers = [\<lparr>pr_principal = ''bank'', pr_endpoint = ''h:9''\<rparr>], nc_seeds = [],
     nc_local_routes = [\<lparr>pr_principal = ''n'', pr_endpoint = ''h:0''\<rparr>]\<rparr>"

lemma sample_context_ok: "context_ok sample_context" "list_all plain_route (nc_local_routes sample_context)"
  "list_all plain_route (nc_peers sample_context)"
  by (simp_all add: sample_context_def context_ok_def routes_ok_def plain_route_def newline_def)

lemma load_none [simp]: "etb_registry_load None = []"
  by (simp add: etb_registry_load_def)


lemma registry_line_injection_witness:
  "etb_registry_load (etb_registry_save True
     [\<lparr>pr_principal = ''a'', pr_endpoint = ''h:1'' @ newline # ''bank'' @ ''|'' @ ''evil:9''\<rparr>]) =
   [\<lparr>pr_principal = ''a'', pr_endpoint = ''h:1''\<rparr>, \<lparr>pr_principal = ''bank'', pr_endpoint = ''evil:9''\<rparr>]"
  using registry_line_injection [of "\<lparr>pr_principal = ''a'', pr_endpoint = ''h:1''\<rparr>"
      "\<lparr>pr_principal = ''bank'', pr_endpoint = ''evil:9''\<rparr>"]
  by (simp add: plain_route_def newline_def)


end
