(* ===== verification/Wire.thy ===== *)
theory Wire
  imports Routes Cbor
begin

text \<open>
  The node protocol of \<open>src/runtime/distributed.c\<close> and \<open>src/net/frame.c\<close>: frames with a
  four-byte length, bundles and their lists, and the CBOR maps of requests and responses.

  A null string given to a writer has its length taken, so is undefined behaviour. The sending
  and the receiving end of a socket are the bytes written and the bytes that can be read.
\<close>

section \<open>Frames\<close>

text \<open>The length is written in 32 bits, whatever the size of the payload.\<close>

definition frame_header :: "nat \<Rightarrow> byte list" where
  "frame_header payload_size =
     [of_nat (payload_size div 2 ^ 24), of_nat (payload_size div 2 ^ 16),
      of_nat (payload_size div 2 ^ 8), of_nat payload_size]"

definition etb_frame_encode :: "byte list \<Rightarrow> byte list" where
  "etb_frame_encode payload = frame_header (length payload) @ payload"

definition etb_send_message :: "byte list \<Rightarrow> byte list" where
  "etb_send_message payload = frame_header (length payload) @ payload"

text \<open>Reads until \<open>size\<close> bytes are there; the other end closing first is a failure.\<close>

definition etb_read_all :: "nat \<Rightarrow> byte list \<Rightarrow> (byte list \<times> byte list) option" where
  "etb_read_all sz input = (if length input < sz then None else Some (take sz input, drop sz input))"

definition frame_size :: "byte list \<Rightarrow> nat" where
  "frame_size header =
     unat (header ! 0) * 2 ^ 24 + unat (header ! 1) * 2 ^ 16 + unat (header ! 2) * 2 ^ 8 + unat (header ! 3)"

definition etb_recv_message :: "byte list \<Rightarrow> (byte list \<times> byte list) option" where
  "etb_recv_message input =
     (case etb_read_all 4 input of
        None \<Rightarrow> None
      | Some (header, input) \<Rightarrow> etb_read_all (frame_size header) input)"

section \<open>Bundles\<close>

text \<open>A proof of size 0 is no proof, whether or not memory stands behind it.\<close>

record etb_bundle =
  bd_node_id :: "string option"
  bd_query_text :: "string option"
  bd_trace_text :: "string option"
  bd_certificate :: "byte list option"
  bd_proof :: "byte list"

type_synonym etb_bundle_list = "etb_bundle list"

definition etb_bundle_init :: etb_bundle where
  "etb_bundle_init =
     \<lparr>bd_node_id = None, bd_query_text = None, bd_trace_text = None, bd_certificate = None, bd_proof = []\<rparr>"

definition etb_bundle_matches :: "etb_bundle \<Rightarrow> string \<Rightarrow> string \<Rightarrow> bool" where
  "etb_bundle_matches bundle node_id query_text \<longleftrightarrow>
     bd_node_id bundle = Some node_id \<and> bd_query_text bundle = Some query_text"

text \<open>The arguments \<open>node_id\<close> and \<open>query_text\<close> are compared or copied, so must be present.\<close>

definition etb_bundle_list_add_copy ::
    "etb_bundle_list \<Rightarrow> string option \<Rightarrow> string option \<Rightarrow> string option \<Rightarrow> byte list \<Rightarrow> byte list \<Rightarrow>
     etb_bundle_list res" where
  "etb_bundle_list_add_copy bundles node_id query_text trace_text certificate proof_bytes =
     (case (node_id, query_text) of
        (Some n, Some q) \<Rightarrow>
          Inr (if list_ex (\<lambda>b. etb_bundle_matches b n q) bundles then bundles
               else bundles @ [\<lparr>bd_node_id = Some n, bd_query_text = Some q, bd_trace_text = trace_text,
                               bd_certificate = Some certificate, bd_proof = proof_bytes\<rparr>])
      | _ \<Rightarrow> Inl Null_deref)"

definition certificate_bytes_of :: "etb_bundle \<Rightarrow> byte list" where
  "certificate_bytes_of bundle = (case bd_certificate bundle of None \<Rightarrow> [] | Some b \<Rightarrow> b)"

definition add_bundle :: "etb_bundle \<Rightarrow> etb_bundle_list \<Rightarrow> etb_bundle_list res" where
  "add_bundle bundle bundles =
     etb_bundle_list_add_copy bundles (bd_node_id bundle) (bd_query_text bundle)
       (bd_trace_text bundle) (certificate_bytes_of bundle) (bd_proof bundle)"

definition etb_bundle_list_append_unique :: "etb_bundle_list \<Rightarrow> etb_bundle_list \<Rightarrow> etb_bundle_list res" where
  "etb_bundle_list_append_unique dst src = fold_res add_bundle src dst"

section \<open>Encoding\<close>

definition write_cstr :: "etb_cbor_buffer \<Rightarrow> string option \<Rightarrow> etb_cbor_buffer res" where
  "write_cstr buffer s = (case s of None \<Rightarrow> Inl Null_deref | Some s \<Rightarrow> Inr (etb_cbor_write_text buffer s))"

definition etb_encode_bundle :: "etb_bundle \<Rightarrow> etb_cbor_buffer \<Rightarrow> etb_cbor_buffer res" where
  "etb_encode_bundle bundle buffer =
     bind_res (write_cstr (etb_cbor_write_text (etb_cbor_write_map_header buffer 5) ''node'')
        (bd_node_id bundle)) (\<lambda>buffer.
     bind_res (write_cstr (etb_cbor_write_text buffer ''query'') (bd_query_text bundle)) (\<lambda>buffer.
       let buffer = etb_cbor_write_text buffer ''trace'';
           buffer = (case bd_trace_text bundle of None \<Rightarrow> etb_cbor_write_null buffer
                     | Some t \<Rightarrow> etb_cbor_write_text buffer t);
           buffer = etb_cbor_write_text buffer ''cert'';
           buffer = etb_cbor_write_bytes buffer (certificate_bytes_of bundle);
           buffer = etb_cbor_write_text buffer ''proof''
       in Inr (if bd_proof bundle = [] then etb_cbor_write_null buffer
               else etb_cbor_write_bytes buffer (bd_proof bundle))))"

definition write_route :: "etb_cbor_buffer \<Rightarrow> etb_peer_route \<Rightarrow> etb_cbor_buffer" where
  "write_route buffer r =
     etb_cbor_write_text (etb_cbor_write_text (etb_cbor_write_text (etb_cbor_write_text
       (etb_cbor_write_map_header buffer 2) ''principal'') (pr_principal r)) ''endpoint'') (pr_endpoint r)"

definition etb_encode_routes :: "etb_cbor_buffer \<Rightarrow> etb_peer_route_map \<Rightarrow> etb_cbor_buffer" where
  "etb_encode_routes buffer m =
     foldl write_route
       (etb_cbor_write_array_header buffer (of_nat (length (filter publishable m)))) (filter publishable m)"

definition etb_response_encode_ok ::
    "etb_bundle_list \<Rightarrow> etb_peer_route_map \<Rightarrow> string option \<Rightarrow> byte list res" where
  "etb_response_encode_ok bundles m endpoint =
     (let buffer = etb_cbor_write_bool (etb_cbor_write_text (etb_cbor_write_map_header [] 5) ''ok'') True;
          buffer = etb_cbor_write_text (etb_cbor_write_text buffer ''error'') '''';
          buffer = etb_cbor_write_array_header (etb_cbor_write_text buffer ''bundles'') (of_nat (length bundles))
      in bind_res (fold_res etb_encode_bundle bundles buffer) (\<lambda>buffer.
        let buffer = etb_encode_routes (etb_cbor_write_text buffer ''routes'') m;
            buffer = etb_cbor_write_text buffer ''endpoint''
        in Inr (case endpoint of None \<Rightarrow> etb_cbor_write_null buffer
                | Some e \<Rightarrow> etb_cbor_write_text buffer e)))"

definition etb_response_encode_error :: "string \<Rightarrow> byte list" where
  "etb_response_encode_error message =
     (let buffer = etb_cbor_write_bool (etb_cbor_write_text (etb_cbor_write_map_header [] 5) ''ok'') False;
          buffer = etb_cbor_write_text (etb_cbor_write_text buffer ''error'') message;
          buffer = etb_cbor_write_array_header (etb_cbor_write_text buffer ''bundles'') 0;
          buffer = etb_cbor_write_array_header (etb_cbor_write_text buffer ''routes'') 0
      in etb_cbor_write_null (etb_cbor_write_text buffer ''endpoint''))"

definition write_pairs :: "etb_cbor_buffer \<Rightarrow> (string \<times> string) list \<Rightarrow> etb_cbor_buffer" where
  "write_pairs = foldl (\<lambda>buffer (k, v). etb_cbor_write_text (etb_cbor_write_text buffer k) v)"

definition etb_encode_query_request :: "etb_node_context \<Rightarrow> string \<Rightarrow> byte list" where
  "etb_encode_query_request context query_text =
     etb_encode_routes (etb_cbor_write_text (write_pairs (etb_cbor_write_map_header [] 5)
       [(''op'', ''query''), (''query'', query_text), (''node'', nc_node_id context),
        (''endpoint'', nc_listen_endpoint context)]) ''routes'') (nc_local_routes context)"

definition etb_encode_announce_request :: "etb_node_context \<Rightarrow> byte list" where
  "etb_encode_announce_request context =
     etb_encode_routes (etb_cbor_write_text (write_pairs (etb_cbor_write_map_header [] 4)
       [(''op'', ''announce''), (''node'', nc_node_id context),
        (''endpoint'', nc_listen_endpoint context)]) ''routes'') (nc_local_routes context)"

definition etb_encode_registry_request :: "etb_node_context \<Rightarrow> byte list" where
  "etb_encode_registry_request context =
     write_pairs (etb_cbor_write_map_header [] 3)
       [(''op'', ''registry''), (''node'', nc_node_id context), (''endpoint'', nc_listen_endpoint context)]"

definition etb_encode_resolve_request :: "etb_node_context \<Rightarrow> string \<Rightarrow> byte list" where
  "etb_encode_resolve_request context p =
     write_pairs (etb_cbor_write_map_header [] 4)
       [(''op'', ''resolve''), (''node'', nc_node_id context), (''endpoint'', nc_listen_endpoint context),
        (''principal'', p)]"

section \<open>Decoding\<close>

text \<open>\<open>cursor.offset < cursor.size && cursor.data[cursor.offset] == 0xf6\<close>\<close>

definition next_is_null :: "etb_cbor_cursor \<Rightarrow> bool res" where
  "next_is_null cursor =
     (if cb_offset cursor < cb_size cursor then bind_res (cbor_at cursor) (\<lambda>b. Inr (b = 0xf6))
      else Inr False)"

definition read_nullable ::
    "(etb_cbor_cursor \<Rightarrow> ('a \<times> etb_cbor_cursor) res) \<Rightarrow> etb_cbor_cursor \<Rightarrow> ('a option \<times> etb_cbor_cursor) res" where
  "read_nullable rd cursor =
     bind_res (next_is_null cursor) (\<lambda>isnull.
     if isnull then bind_res (etb_cbor_read_null cursor) (\<lambda>(_, cursor). Inr (None, cursor))
     else bind_res (rd cursor) (\<lambda>(x, cursor). Inr (Some x, cursor)))"

definition read_route_field ::
    "string \<Rightarrow> string option \<times> string option \<Rightarrow> etb_cbor_cursor \<Rightarrow>
     ((string option \<times> string option) \<times> etb_cbor_cursor) res" where
  "read_route_field key = (\<lambda>(p, ep) cursor.
     if key = ''principal'' then
       bind_res (etb_cbor_read_text cursor) (\<lambda>(s, cursor). Inr ((Some s, ep), cursor))
     else if key = ''endpoint'' then
       bind_res (etb_cbor_read_text cursor) (\<lambda>(s, cursor). Inr ((p, Some s), cursor))
     else Inl (Fail ''''))"

definition read_route :: "etb_cbor_cursor \<Rightarrow> (etb_peer_route \<times> etb_cbor_cursor) res" where
  "read_route cursor =
     bind_res (bind_res (on_fail '''' (etb_cbor_read_map_header cursor)) (\<lambda>(pair_count, cursor).
       cbor_read_fields '''' read_route_field (unat pair_count) (None, None) cursor)) (\<lambda>(pair, cursor).
       case pair of
         (Some p, Some ep) \<Rightarrow> Inr (\<lparr>pr_principal = p, pr_endpoint = ep\<rparr>, cursor)
       | _ \<Rightarrow> Inl (Fail ''''))"

text \<open>The routes are added to an empty map as they are read.\<close>

definition etb_decode_routes :: "etb_cbor_cursor \<Rightarrow> (etb_peer_route_map \<times> etb_cbor_cursor) res" where
  "etb_decode_routes cursor =
     bind_res (on_fail '''' (etb_cbor_read_array_header cursor)) (\<lambda>(route_count, cursor).
     bind_res (cbor_read_list read_route (unat route_count) cursor) (\<lambda>(rs, cursor).
       Inr (etb_peer_route_map_merge [] rs, cursor)))"

definition read_bundle_field ::
    "string \<Rightarrow> etb_bundle \<Rightarrow> etb_cbor_cursor \<Rightarrow> (etb_bundle \<times> etb_cbor_cursor) res" where
  "read_bundle_field key bundle cursor =
     (if key = ''node'' then
        bind_res (etb_cbor_read_text cursor) (\<lambda>(s, cursor). Inr (bundle\<lparr>bd_node_id := Some s\<rparr>, cursor))
      else if key = ''query'' then
        bind_res (etb_cbor_read_text cursor) (\<lambda>(s, cursor). Inr (bundle\<lparr>bd_query_text := Some s\<rparr>, cursor))
      else if key = ''trace'' then
        bind_res (read_nullable etb_cbor_read_text cursor) (\<lambda>(s, cursor).
          Inr (case s of None \<Rightarrow> bundle | Some s \<Rightarrow> bundle\<lparr>bd_trace_text := Some s\<rparr>, cursor))
      else if key = ''cert'' then
        bind_res (etb_cbor_read_bytes cursor) (\<lambda>(b, cursor).
          Inr (bundle\<lparr>bd_certificate := Some b\<rparr>, cursor))
      else if key = ''proof'' then
        bind_res (read_nullable etb_cbor_read_bytes cursor) (\<lambda>(b, cursor).
          Inr (case b of None \<Rightarrow> bundle | Some b \<Rightarrow> bundle\<lparr>bd_proof := b\<rparr>, cursor))
      else Inl (Fail ''''))"

definition etb_decode_bundle :: "etb_cbor_cursor \<Rightarrow> (etb_bundle \<times> etb_cbor_cursor) res" where
  "etb_decode_bundle cursor =
     bind_res (bind_res (on_fail '''' (etb_cbor_read_map_header cursor)) (\<lambda>(pair_count, cursor).
       cbor_read_fields '''' read_bundle_field (unat pair_count) etb_bundle_init cursor)) (\<lambda>(bundle, cursor).
       if bd_node_id bundle \<noteq> None \<and> bd_query_text bundle \<noteq> None \<and> bd_certificate bundle \<noteq> None
       then Inr (bundle, cursor) else Inl (Fail ''''))"

record etb_request =
  rq_op :: "string option"
  rq_query_text :: "string option"
  rq_node_id :: "string option"
  rq_endpoint :: "string option"
  rq_principal :: "string option"
  rq_routes :: etb_peer_route_map

definition etb_request_init :: etb_request where
  "etb_request_init = \<lparr>rq_op = None, rq_query_text = None, rq_node_id = None, rq_endpoint = None,
     rq_principal = None, rq_routes = []\<rparr>"

definition read_request_text ::
    "string \<Rightarrow> (string \<Rightarrow> etb_request) \<Rightarrow> etb_cbor_cursor \<Rightarrow> (etb_request \<times> etb_cbor_cursor) res" where
  "read_request_text message f cursor =
     bind_res (on_fail message (etb_cbor_read_text cursor)) (\<lambda>(s, cursor). Inr (f s, cursor))"

definition read_request_field ::
    "string \<Rightarrow> etb_request \<Rightarrow> etb_cbor_cursor \<Rightarrow> (etb_request \<times> etb_cbor_cursor) res" where
  "read_request_field key request cursor =
     (if key = ''op'' then
        read_request_text ''invalid operation'' (\<lambda>s. request\<lparr>rq_op := Some s\<rparr>) cursor
      else if key = ''query'' then
        read_request_text ''invalid query text'' (\<lambda>s. request\<lparr>rq_query_text := Some s\<rparr>) cursor
      else if key = ''node'' then
        read_request_text ''invalid node id'' (\<lambda>s. request\<lparr>rq_node_id := Some s\<rparr>) cursor
      else if key = ''endpoint'' then
        read_request_text ''invalid request endpoint'' (\<lambda>s. request\<lparr>rq_endpoint := Some s\<rparr>) cursor
      else if key = ''routes'' then
        bind_res (on_fail ''invalid request routes'' (etb_decode_routes cursor)) (\<lambda>(decoded, cursor).
          Inr (request\<lparr>rq_routes := etb_peer_route_map_merge (rq_routes request) decoded\<rparr>, cursor))
      else if key = ''principal'' then
        read_request_text ''invalid request principal'' (\<lambda>s. request\<lparr>rq_principal := Some s\<rparr>) cursor
      else Inl (Fail ''unknown request field''))"

definition etb_decode_request :: "byte list \<Rightarrow> etb_request res" where
  "etb_decode_request payload =
     bind_res (bind_res (on_fail ''invalid request''
        (etb_cbor_read_map_header (etb_cbor_cursor_init payload))) (\<lambda>(pair_count, cursor).
       cbor_read_fields ''invalid request field'' read_request_field (unat pair_count) etb_request_init
         cursor)) (\<lambda>(request, _).
       if rq_op request = None then Inl (Fail ''missing operation'') else Inr request)"

record response_state =
  rs_ok :: bool
  rs_saw_ok :: bool
  rs_error :: string
  rs_bundles :: etb_bundle_list
  rs_routes :: etb_peer_route_map
  rs_endpoint :: string

text \<open>
  The two output texts are C arrays: \<open>error_size\<close> and \<open>endpoint_size\<close> cut them, and the error
  starts as the caller left it.
\<close>

definition read_response_field ::
    "nat \<Rightarrow> nat \<Rightarrow> string \<Rightarrow> response_state \<Rightarrow> etb_cbor_cursor \<Rightarrow> (response_state \<times> etb_cbor_cursor) res" where
  "read_response_field endpoint_size error_size key st cursor =
     (if key = ''ok'' then
        bind_res (on_fail ''invalid response status'' (etb_cbor_read_bool cursor)) (\<lambda>(b, cursor).
          Inr (st\<lparr>rs_ok := b, rs_saw_ok := True\<rparr>, cursor))
      else if key = ''error'' then
        bind_res (on_fail ''invalid response error'' (etb_cbor_read_text cursor)) (\<lambda>(message, cursor).
          Inr (if message = '''' then st else st\<lparr>rs_error := take (error_size - 1) message\<rparr>, cursor))
      else if key = ''bundles'' then
        bind_res (on_fail ''invalid response bundles'' (etb_cbor_read_array_header cursor))
          (\<lambda>(bundle_count, cursor).
        bind_res (on_fail ''invalid bundle'' (cbor_read_list etb_decode_bundle (unat bundle_count) cursor))
          (\<lambda>(decoded, cursor).
        bind_res (fold_res add_bundle decoded (rs_bundles st)) (\<lambda>bundles.
          Inr (st\<lparr>rs_bundles := bundles\<rparr>, cursor))))
      else if key = ''routes'' then
        bind_res (on_fail ''invalid response routes'' (etb_decode_routes cursor)) (\<lambda>(decoded, cursor).
          Inr (st\<lparr>rs_routes := etb_peer_route_map_merge (rs_routes st) decoded\<rparr>, cursor))
      else if key = ''endpoint'' then
        bind_res (on_fail ''invalid response endpoint'' (read_nullable etb_cbor_read_text cursor))
          (\<lambda>(s, cursor).
          Inr (case s of None \<Rightarrow> st | Some s \<Rightarrow> st\<lparr>rs_endpoint := take (endpoint_size - 1) s\<rparr>, cursor))
      else Inl (Fail ''unknown response field''))"

definition response_init :: "string \<Rightarrow> response_state" where
  "response_init error = \<lparr>rs_ok = False, rs_saw_ok = False, rs_error = error, rs_bundles = [],
     rs_routes = [], rs_endpoint = ''''\<rparr>"

definition etb_decode_response ::
    "nat \<Rightarrow> nat \<Rightarrow> string \<Rightarrow> byte list \<Rightarrow>
     (etb_bundle_list \<times> etb_peer_route_map \<times> string \<times> string) res" where
  "etb_decode_response endpoint_size error_size error payload =
     bind_res (bind_res (on_fail ''invalid response''
        (etb_cbor_read_map_header (etb_cbor_cursor_init payload))) (\<lambda>(pair_count, cursor).
       cbor_read_fields ''invalid response field'' (read_response_field endpoint_size error_size)
         (unat pair_count) (response_init error) cursor)) (\<lambda>(st, _).
       if \<not> rs_saw_ok st \<or> \<not> rs_ok st
       then Inl (Fail (if rs_error st = '''' then ''remote query failed'' else rs_error st))
       else Inr (rs_bundles st, rs_routes st, rs_endpoint st, rs_error st))"

section \<open>Frames arrive\<close>

lemma byte_of_nat: "unat (of_nat n :: byte) = n mod 256"
  by (simp add: unat_of_nat)

lemma frame_size_header: "frame_size (frame_header n) = n mod 2 ^ 32"
proof -
  have split: "m mod (2 ^ (k + 8)) = m mod 2 ^ k + 2 ^ k * (m div 2 ^ k mod 256)" for m k :: nat
    using mod_mult2_eq [of m "2 ^ k" 256] by (simp add: power_add)
  show ?thesis
    using split [of n 24] split [of n 16] split [of n 8]
    by (simp add: frame_size_def frame_header_def byte_of_nat)
qed

lemma recv_send:
  "etb_recv_message (etb_send_message payload @ rest) =
     Some (take (length payload mod 2 ^ 32) payload, drop (length payload mod 2 ^ 32) payload @ rest) \<and>
   (length payload < 2 ^ 32 \<longrightarrow> etb_recv_message (etb_send_message payload @ rest) = Some (payload, rest)) \<and>
   etb_frame_encode payload = etb_send_message payload"
proof -
  let ?n = "length payload mod 2 ^ 32"
  have le: "?n \<le> length payload" by simp
  have len: "length (frame_header k) = 4" for k by (simp add: frame_header_def)
  have "etb_read_all 4 (etb_send_message payload @ rest) = Some (frame_header (length payload), payload @ rest)"
    using len by (simp add: etb_read_all_def etb_send_message_def)
  moreover have "etb_read_all ?n (payload @ rest) = Some (take ?n payload, drop ?n payload @ rest)"
    using le by (simp add: etb_read_all_def)
  ultimately have eq: "etb_recv_message (etb_send_message payload @ rest) =
      Some (take ?n payload, drop ?n payload @ rest)"
    by (simp only: etb_recv_message_def option.case prod.case frame_size_header)
  moreover have "length payload < 2 ^ 32 \<longrightarrow> ?n = length payload" by simp
  ultimately show ?thesis by (simp add: etb_frame_encode_def etb_send_message_def)
qed

text \<open>
  C27. What a frame delivers: the receiver reads the number of bytes the header can express, so a
  payload below 4 GiB arrives as it is with the rest of the stream untouched, and of a longer one
  only its size modulo \<open>2\<^sup>3\<^sup>2\<close>.
\<close>

theorem etb_send_recv_message:
  "etb_recv_message (etb_send_message payload @ rest) =
     Some (take (length payload mod 2 ^ 32) payload, drop (length payload mod 2 ^ 32) payload @ rest) \<and>
   (length payload < 2 ^ 32 \<longrightarrow> etb_recv_message (etb_send_message payload @ rest) = Some (payload, rest)) \<and>
   etb_frame_encode payload = etb_send_message payload"
  by (rule recv_send)

section \<open>Bundles and routes over the wire\<close>

definition wire_bundle :: "etb_bundle \<Rightarrow> bool" where
  "wire_bundle b \<longleftrightarrow>
     (\<exists>n q c. bd_node_id b = Some n \<and> c_text n \<and> bd_query_text b = Some q \<and> c_text q \<and>
        bd_certificate b = Some c) \<and> (\<forall>t. bd_trace_text b = Some t \<longrightarrow> c_text t)"

definition wire_route :: "etb_peer_route \<Rightarrow> bool" where
  "wire_route r \<longleftrightarrow> publishable r \<and> c_text (pr_principal r) \<and> c_text (pr_endpoint r)"

definition text_bytes :: "string \<Rightarrow> byte list" where
  "text_bytes = etb_cbor_write_text []"

lemma head_byte_f6: "(0xf6 :: byte) AND 0xe0 = 0xe0"
  by simp

lemma text_bytes_head: "\<exists>h t. text_bytes s = h # t \<and> h \<noteq> 0xf6"
proof -
  obtain h t where "etb_cbor_write_type_value [] 0x60 (of_nat (length s)) = h # t" "h AND 0xe0 = 0x60"
    using write_type_value_Cons [of "0x60" "of_nat (length s)"] by auto
  moreover have "h \<noteq> 0xf6" using head_byte_f6 calculation(2) by auto
  ultimately show ?thesis by (simp add: text_bytes_def etb_cbor_write_text_def)
qed

lemma bytes_head: "\<exists>h t. etb_cbor_write_bytes [] b = h # t \<and> h \<noteq> 0xf6"
proof -
  obtain h t where "etb_cbor_write_type_value [] 0x40 (of_nat (length b)) = h # t" "h AND 0xe0 = 0x40"
    using write_type_value_Cons [of "0x40" "of_nat (length b)"] by auto
  moreover have "h \<noteq> 0xf6" using head_byte_f6 calculation(2) by auto
  ultimately show ?thesis by (simp add: etb_cbor_write_bytes_def)
qed

lemma next_is_null_at:
  "fits (pre @ h # rest) \<Longrightarrow> next_is_null (cursor_at pre (h # rest)) = Inr (h = 0xf6)"
  using cursor_at_exhausted [of pre "h # rest"]
  by (simp add: next_is_null_def cbor_at_cursor_at not_le)

lemma decodes_nullable:
  assumes "decodes rd bytes x" and "\<exists>h t. bytes = h # t \<and> h \<noteq> 0xf6"
  shows "decodes (read_nullable rd) bytes (Some x)"
  unfolding decodes_def
proof (intro allI impI)
  fix pre rest assume fit: "fits (pre @ bytes @ rest)"
  obtain h t where b: "bytes = h # t" "h \<noteq> 0xf6" using assms(2) by blast
  have "rd (cursor_at pre (bytes @ rest)) = Inr (x, cursor_at (pre @ bytes) rest)"
    by (rule assms(1) [unfolded decodes_def, rule_format]) (rule fit)
  moreover have "next_is_null (cursor_at pre (bytes @ rest)) = Inr False"
    using next_is_null_at [of pre h "t @ rest"] fit b by simp
  ultimately show "read_nullable rd (cursor_at pre (bytes @ rest)) = Inr (Some x, cursor_at (pre @ bytes) rest)"
    by (simp add: read_nullable_def)
qed

lemma decodes_null: "decodes (read_nullable rd) (etb_cbor_write_null []) None"
  unfolding decodes_def
proof (intro allI impI)
  fix pre rest assume fit: "fits (pre @ etb_cbor_write_null [] @ rest)"
  have "etb_cbor_read_null (cursor_at pre (etb_cbor_write_null [] @ rest)) =
      Inr ((), cursor_at (pre @ etb_cbor_write_null []) rest)"
    by (rule cbor_null.rd_wr [OF TrueI fit])
  moreover have "next_is_null (cursor_at pre (etb_cbor_write_null [] @ rest)) = Inr True"
    using next_is_null_at [of pre "0xf6" rest] fit by (simp add: etb_cbor_write_null_def)
  ultimately show "read_nullable rd (cursor_at pre (etb_cbor_write_null [] @ rest)) =
      Inr (None, cursor_at (pre @ etb_cbor_write_null []) rest)"
    by (simp add: read_nullable_def)
qed

text \<open>Appending instead of writing: every writer to the end of a buffer that is not empty.\<close>

lemma cbor_app:
  "NO_MATCH [] buf \<Longrightarrow> etb_cbor_write_text buf s = buf @ etb_cbor_write_text [] s"
  "NO_MATCH [] buf \<Longrightarrow> etb_cbor_write_bytes buf b = buf @ etb_cbor_write_bytes [] b"
  "NO_MATCH [] buf \<Longrightarrow> etb_cbor_write_bool buf v = buf @ etb_cbor_write_bool [] v"
  "NO_MATCH [] buf \<Longrightarrow> etb_cbor_write_null buf = buf @ etb_cbor_write_null []"
  "NO_MATCH [] buf \<Longrightarrow> etb_cbor_write_array_header buf n = buf @ etb_cbor_write_array_header [] n"
  "NO_MATCH [] buf \<Longrightarrow> etb_cbor_write_map_header buf n = buf @ etb_cbor_write_map_header [] n"
  by (rule cbor_appends)+

definition route_bytes :: "etb_peer_route \<Rightarrow> byte list" where
  "route_bytes r = etb_cbor_write_map_header [] (of_nat (Suc (Suc 0))) @
     etb_cbor_write_text [] ''principal'' @ etb_cbor_write_text [] (pr_principal r) @
     etb_cbor_write_text [] ''endpoint'' @ etb_cbor_write_text [] (pr_endpoint r)"

definition routes_bytes :: "etb_peer_route_map \<Rightarrow> byte list" where
  "routes_bytes m = etb_cbor_write_array_header [] (of_nat (length (filter publishable m))) @
     concat (map route_bytes (filter publishable m))"

lemma write_route_eq: "write_route buffer r = buffer @ route_bytes r"
  by (simp add: write_route_def route_bytes_def cbor_app)

lemma encode_routes_eq: "etb_encode_routes buffer m = buffer @ routes_bytes m"
proof -
  have "foldl write_route b rs = b @ concat (map route_bytes rs)" for b rs
    by (induction rs arbitrary: b) (simp_all add: write_route_eq)
  then show ?thesis by (simp add: etb_encode_routes_def routes_bytes_def cbor_app)
qed

definition texts_ok :: "etb_peer_route_map \<Rightarrow> bool" where
  "texts_ok m \<longleftrightarrow> routes_ok m \<and> length m < 2 ^ 63 \<and>
     list_all (\<lambda>r. c_text (pr_principal r) \<and> c_text (pr_endpoint r)) m"

lemma decodes_route:
  assumes "c_text (pr_principal r)" and "c_text (pr_endpoint r)"
  shows "decodes read_route (route_bytes r) r"
proof -
  have keys: "c_text ''principal''" "c_text ''endpoint''" by (simp_all add: c_text_def)
  have p: "decodes (read_route_field ''principal'' (None, None)) (etb_cbor_write_text [] (pr_principal r))
      (Some (pr_principal r), None)"
    unfolding read_route_field_def [abs_def]
    using decodes_last [OF cbor_text.decodes_wr [OF assms(1)], of "\<lambda>s. (Some s, None)"] by simp
  have e: "decodes (read_route_field ''endpoint'' (Some (pr_principal r), None))
      (etb_cbor_write_text [] (pr_endpoint r)) (Some (pr_principal r), Some (pr_endpoint r))"
    unfolding read_route_field_def [abs_def]
    using decodes_last [OF cbor_text.decodes_wr [OF assms(2)], of "\<lambda>s. (Some (pr_principal r), Some s)"] by simp
  have "decodes (cbor_read_fields '''' read_route_field (Suc (Suc 0)) (None, None))
      (etb_cbor_write_text [] ''principal'' @ etb_cbor_write_text [] (pr_principal r) @
       etb_cbor_write_text [] ''endpoint'' @ etb_cbor_write_text [] (pr_endpoint r))
      (Some (pr_principal r), Some (pr_endpoint r))"
    by (rule decodes_field [OF keys(1)], rule p, rule decodes_last_field [OF keys(2)], rule e)
  from decodes_map [OF this, of "''''"]
  have m: "decodes (\<lambda>cursor. bind_res (on_fail '''' (etb_cbor_read_map_header cursor)) (\<lambda>(pair_count, cursor).
       cbor_read_fields '''' read_route_field (unat pair_count) (None, None) cursor)) (route_bytes r)
      (Some (pr_principal r), Some (pr_endpoint r))"
    by (simp add: route_bytes_def)
  have whole: "\<lparr>pr_principal = pr_principal r, pr_endpoint = pr_endpoint r\<rparr> = r" by (cases r) simp
  show ?thesis
    unfolding read_route_def [abs_def]
    by (rule decodes_bind' [OF m, where c = "[]"]) (simp_all add: decodes_return whole)
qed

lemma decodes_routes:
  assumes "texts_ok m"
  shows "decodes etb_decode_routes (routes_bytes m) (filter publishable m)"
proof -
  let ?m = "filter publishable m"
  have small: "length ?m < 2 ^ 63" 
    using assms le_less_trans [OF length_filter_le [of publishable m]] by (simp add: texts_ok_def)
  have "\<forall>r \<in> set ?m. c_text (pr_principal r) \<and> c_text (pr_endpoint r)"
    using assms by (auto simp: texts_ok_def list_all_iff)
  then have l: "decodes (cbor_read_list read_route (unat (of_nat (length ?m) :: u64))) (concat (map route_bytes ?m)) ?m"
    using small by (intro decodes_counted decodes_route) auto
  have "distinct (map pr_principal ?m)" using assms by (simp add: texts_ok_def routes_ok_def distinct_map_filter)
  then have self: "etb_peer_route_map_merge [] ?m = ?m" using merge_self [of "[]" ?m] by (simp add: routes_ok_def)
  show ?thesis
    unfolding etb_decode_routes_def [abs_def] routes_bytes_def
    by (rule decodes_bind [OF decodes_on_fail [OF cbor_array_header.decodes_wr [OF TrueI]]])
      (use decodes_last [OF l, of "etb_peer_route_map_merge []"] self in simp)
qed

definition opt_bytes :: "('a \<Rightarrow> byte list) \<Rightarrow> 'a option \<Rightarrow> byte list" where
  "opt_bytes enc x = (case x of None \<Rightarrow> etb_cbor_write_null [] | Some v \<Rightarrow> enc v)"

definition the_text :: "string option \<Rightarrow> string" where
  "the_text s = (case s of None \<Rightarrow> '''' | Some t \<Rightarrow> t)"

definition bundle_bytes :: "etb_bundle \<Rightarrow> byte list" where
  "bundle_bytes b = etb_cbor_write_map_header [] (of_nat (Suc (Suc (Suc (Suc (Suc 0)))))) @
     etb_cbor_write_text [] ''node'' @ etb_cbor_write_text [] (the_text (bd_node_id b)) @
     etb_cbor_write_text [] ''query'' @ etb_cbor_write_text [] (the_text (bd_query_text b)) @
     etb_cbor_write_text [] ''trace'' @ opt_bytes (etb_cbor_write_text []) (bd_trace_text b) @
     etb_cbor_write_text [] ''cert'' @ etb_cbor_write_bytes [] (certificate_bytes_of b) @
     etb_cbor_write_text [] ''proof'' @
       opt_bytes (etb_cbor_write_bytes []) (if bd_proof b = [] then None else Some (bd_proof b))"

lemma encode_bundle_eq:
  assumes "wire_bundle b"
  shows "etb_encode_bundle b buffer = Inr (buffer @ bundle_bytes b)"
proof -
  obtain n q where nq: "bd_node_id b = Some n" "bd_query_text b = Some q"
    using assms by (auto simp: wire_bundle_def)
  show ?thesis
    by (cases "bd_trace_text b") (simp_all add: etb_encode_bundle_def write_cstr_def nq bundle_bytes_def
        the_text_def opt_bytes_def Let_def cbor_app)
qed

lemma encode_bundles_eq:
  "list_all wire_bundle bs \<Longrightarrow> fold_res etb_encode_bundle bs buffer = Inr (buffer @ concat (map bundle_bytes bs))"
  by (induction bs arbitrary: buffer) (simp_all add: encode_bundle_eq)

lemma decodes_bundle:
  assumes "wire_bundle b"
  shows "decodes etb_decode_bundle (bundle_bytes b) b"
proof -
  obtain n q c where b: "bd_node_id b = Some n" "c_text n" "bd_query_text b = Some q" "c_text q"
    "bd_certificate b = Some c" and t: "\<forall>t. bd_trace_text b = Some t \<longrightarrow> c_text t"
    using assms by (auto simp: wire_bundle_def)
  have keys: "c_text ''node''" "c_text ''query''" "c_text ''trace''" "c_text ''cert''" "c_text ''proof''"
    by (simp_all add: c_text_def)
  let ?h = read_bundle_field
  have f1: "decodes (?h ''node'' x) (etb_cbor_write_text [] n) (x\<lparr>bd_node_id := Some n\<rparr>)"
    and f2: "decodes (?h ''query'' x) (etb_cbor_write_text [] q) (x\<lparr>bd_query_text := Some q\<rparr>)"
    and f4: "decodes (?h ''cert'' x) (etb_cbor_write_bytes [] c) (x\<lparr>bd_certificate := Some c\<rparr>)" for x
    unfolding read_bundle_field_def [abs_def]
    using decodes_last [OF cbor_text.decodes_wr [OF b(2)], where g = "\<lambda>s. x\<lparr>bd_node_id := Some s\<rparr>"]
      decodes_last [OF cbor_text.decodes_wr [OF b(4)], where g = "\<lambda>s. x\<lparr>bd_query_text := Some s\<rparr>"]
      decodes_last [OF cbor_bytes.decodes_wr [OF TrueI], where g = "\<lambda>s. x\<lparr>bd_certificate := Some s\<rparr>" and x = c]
    by simp_all
  have trace: "decodes (read_nullable etb_cbor_read_text) (opt_bytes (etb_cbor_write_text []) (bd_trace_text b)) (bd_trace_text b)"
    using t text_bytes_head
    by (cases "bd_trace_text b")
      (simp_all add: opt_bytes_def decodes_null decodes_nullable cbor_text.decodes_wr text_bytes_def)
  let ?p = "if bd_proof b = [] then None else Some (bd_proof b)"
  have proof_part: "decodes (read_nullable etb_cbor_read_bytes) (opt_bytes (etb_cbor_write_bytes []) ?p) ?p"
    using bytes_head by (simp add: opt_bytes_def decodes_null decodes_nullable cbor_bytes.decodes_wr)
  have f3: "decodes (?h ''trace'' x) (opt_bytes (etb_cbor_write_text []) (bd_trace_text b))
      (case bd_trace_text b of None \<Rightarrow> x | Some s \<Rightarrow> x\<lparr>bd_trace_text := Some s\<rparr>)"
    and f5: "decodes (?h ''proof'' x) (opt_bytes (etb_cbor_write_bytes []) ?p)
      (case ?p of None \<Rightarrow> x | Some s \<Rightarrow> x\<lparr>bd_proof := s\<rparr>)" for x
    unfolding read_bundle_field_def [abs_def]
    using decodes_last [OF trace, where g = "\<lambda>s. case s of None \<Rightarrow> x | Some s \<Rightarrow> x\<lparr>bd_trace_text := Some s\<rparr>"]
      decodes_last [OF proof_part, where g = "\<lambda>s. case s of None \<Rightarrow> x | Some s \<Rightarrow> x\<lparr>bd_proof := s\<rparr>"]
    by simp_all
  let ?x2 = "etb_bundle_init\<lparr>bd_node_id := Some n, bd_query_text := Some q\<rparr>"
  let ?x3 = "case bd_trace_text b of None \<Rightarrow> ?x2 | Some s \<Rightarrow> ?x2\<lparr>bd_trace_text := Some s\<rparr>"
  let ?x4 = "?x3\<lparr>bd_certificate := Some c\<rparr>"
  let ?x5 = "case ?p of None \<Rightarrow> ?x4 | Some s \<Rightarrow> ?x4\<lparr>bd_proof := s\<rparr>"
  have "decodes (cbor_read_fields '''' ?h (Suc (Suc (Suc (Suc (Suc 0))))) etb_bundle_init)
      (etb_cbor_write_text [] ''node'' @ etb_cbor_write_text [] n @
       etb_cbor_write_text [] ''query'' @ etb_cbor_write_text [] q @
       etb_cbor_write_text [] ''trace'' @ opt_bytes (etb_cbor_write_text []) (bd_trace_text b) @
       etb_cbor_write_text [] ''cert'' @ etb_cbor_write_bytes [] c @
       etb_cbor_write_text [] ''proof'' @ opt_bytes (etb_cbor_write_bytes []) ?p) ?x5"
    by (rule decodes_field [OF keys(1)], rule f1, rule decodes_field [OF keys(2)], rule f2,
        rule decodes_field [OF keys(3)], rule f3, rule decodes_field [OF keys(4)], rule f4,
        rule decodes_last_field [OF keys(5)], rule f5)
  moreover have "?x5 = b"
    using b by (cases b; cases "bd_trace_text b") (simp_all add: etb_bundle_init_def)
  ultimately have "decodes (\<lambda>cursor. bind_res (on_fail '''' (etb_cbor_read_map_header cursor)) (\<lambda>(pair_count, cursor).
       cbor_read_fields '''' ?h (unat pair_count) etb_bundle_init cursor)) (bundle_bytes b) b"
    using decodes_map [of "''''" ?h "Suc (Suc (Suc (Suc (Suc 0))))" etb_bundle_init _ b "''''"] b
    by (simp add: bundle_bytes_def the_text_def certificate_bytes_of_def)
  note m = this
  show ?thesis
    unfolding etb_decode_bundle_def [abs_def]
    by (rule decodes_bind' [OF m, where c = "[]"]) (simp_all add: b decodes_return)
qed

section \<open>Requests\<close>

definition wire_context :: "etb_node_context \<Rightarrow> bool" where
  "wire_context ctx \<longleftrightarrow> c_text (nc_node_id ctx) \<and> c_text (nc_listen_endpoint ctx) \<and> texts_ok (nc_local_routes ctx)"

lemma write_pairs_eq:
  "write_pairs buffer kvs = buffer @ concat (map (\<lambda>(k, v). etb_cbor_write_text [] k @ etb_cbor_write_text [] v) kvs)"
proof (induction kvs arbitrary: buffer)
  case Nil
  then show ?case by (simp add: write_pairs_def)
next
  case (Cons kv kvs)
  obtain k v where "kv = (k, v)" by fastforce
  then show ?case using Cons [of "etb_cbor_write_text (etb_cbor_write_text buffer k) v"]
    by (simp add: write_pairs_def cbor_appends(5) [of buffer k]
        cbor_appends(5) [of "buffer @ etb_cbor_write_text [] k" v])
qed

lemma request_text_fields:
  assumes "c_text s"
  shows "decodes (read_request_field ''op'' r) (etb_cbor_write_text [] s) (r\<lparr>rq_op := Some s\<rparr>)"
    and "decodes (read_request_field ''query'' r) (etb_cbor_write_text [] s) (r\<lparr>rq_query_text := Some s\<rparr>)"
    and "decodes (read_request_field ''node'' r) (etb_cbor_write_text [] s) (r\<lparr>rq_node_id := Some s\<rparr>)"
    and "decodes (read_request_field ''endpoint'' r) (etb_cbor_write_text [] s) (r\<lparr>rq_endpoint := Some s\<rparr>)"
    and "decodes (read_request_field ''principal'' r) (etb_cbor_write_text [] s) (r\<lparr>rq_principal := Some s\<rparr>)"
  unfolding read_request_field_def [abs_def] read_request_text_def
  using decodes_last [OF decodes_on_fail [OF cbor_text.decodes_wr [OF assms]], where g = "\<lambda>s. r\<lparr>rq_op := Some s\<rparr>"]
    decodes_last [OF decodes_on_fail [OF cbor_text.decodes_wr [OF assms]], where g = "\<lambda>s. r\<lparr>rq_query_text := Some s\<rparr>"]
    decodes_last [OF decodes_on_fail [OF cbor_text.decodes_wr [OF assms]], where g = "\<lambda>s. r\<lparr>rq_node_id := Some s\<rparr>"]
    decodes_last [OF decodes_on_fail [OF cbor_text.decodes_wr [OF assms]], where g = "\<lambda>s. r\<lparr>rq_endpoint := Some s\<rparr>"]
    decodes_last [OF decodes_on_fail [OF cbor_text.decodes_wr [OF assms]], where g = "\<lambda>s. r\<lparr>rq_principal := Some s\<rparr>"]
  by simp_all

lemma request_routes_field:
  assumes "texts_ok m" and "rq_routes r = []"
  shows "decodes (read_request_field ''routes'' r) (routes_bytes m) (r\<lparr>rq_routes := filter publishable m\<rparr>)"
proof -
  have "distinct (map pr_principal (filter publishable m))"
    using assms by (simp add: texts_ok_def routes_ok_def distinct_map_filter)
  then have "etb_peer_route_map_merge [] (filter publishable m) = filter publishable m"
    using merge_self [of "[]"] by (simp add: routes_ok_def)
  then show ?thesis
    unfolding read_request_field_def [abs_def]
    using decodes_last [OF decodes_on_fail [OF decodes_routes [OF assms(1)]],
        where g = "\<lambda>decoded. r\<lparr>rq_routes := etb_peer_route_map_merge (rq_routes r) decoded\<rparr>"] assms(2) by simp
qed

lemma decode_request_whole:
  assumes "decodes (cbor_read_fields ''invalid request field'' read_request_field n etb_request_init) bytes r"
    and "n < 2 ^ 63" and "rq_op r \<noteq> None" and "payload = etb_cbor_write_map_header [] (of_nat n) @ bytes"
    and "fits payload"
  shows "etb_decode_request payload = Inr r"
proof -
  have "bind_res (on_fail ''invalid request'' (etb_cbor_read_map_header (etb_cbor_cursor_init payload)))
      (\<lambda>(pair_count, cursor). cbor_read_fields ''invalid request field'' read_request_field
        (unat pair_count) etb_request_init cursor) = Inr (r, cursor_at payload [])"
    using decodes_whole [OF decodes_map [OF assms(1,2), of "''invalid request''"]] assms(4,5) by blast
  then show ?thesis using assms(3) by (simp add: etb_decode_request_def del: bind_res_eq_Inr)
qed

lemma request_keys: "c_text ''op''" "c_text ''query''" "c_text ''node''" "c_text ''endpoint''" "c_text ''routes''"
  "c_text ''principal''" "c_text ''announce''" "c_text ''registry''" "c_text ''resolve''"
  by (simp_all add: c_text_def)

definition sender_request :: "etb_node_context \<Rightarrow> string \<Rightarrow> etb_request" where
  "sender_request ctx op = etb_request_init\<lparr>rq_op := Some op, rq_node_id := Some (nc_node_id ctx),
     rq_endpoint := Some (nc_listen_endpoint ctx)\<rparr>"

lemma requests_decode:
  assumes ctx: "wire_context ctx" and q: "c_text q" and p: "c_text p"
  shows "(fits (etb_encode_query_request ctx q) \<longrightarrow>
      etb_decode_request (etb_encode_query_request ctx q) = Inr ((sender_request ctx ''query'')
        \<lparr>rq_query_text := Some q, rq_routes := filter publishable (nc_local_routes ctx)\<rparr>)) \<and>
    (fits (etb_encode_announce_request ctx) \<longrightarrow>
      etb_decode_request (etb_encode_announce_request ctx) = Inr ((sender_request ctx ''announce'')
        \<lparr>rq_routes := filter publishable (nc_local_routes ctx)\<rparr>)) \<and>
    (fits (etb_encode_registry_request ctx) \<longrightarrow>
      etb_decode_request (etb_encode_registry_request ctx) = Inr (sender_request ctx ''registry'')) \<and>
    (fits (etb_encode_resolve_request ctx p) \<longrightarrow>
      etb_decode_request (etb_encode_resolve_request ctx p) = Inr ((sender_request ctx ''resolve'')
        \<lparr>rq_principal := Some p\<rparr>))"
proof -
  let ?n = "etb_cbor_write_text [] (nc_node_id ctx)" and ?e = "etb_cbor_write_text [] (nc_listen_endpoint ctx)"
  let ?r = "routes_bytes (nc_local_routes ctx)"
  let ?F = "cbor_read_fields ''invalid request field'' read_request_field"
  have c: "c_text (nc_node_id ctx)" "c_text (nc_listen_endpoint ctx)" "texts_ok (nc_local_routes ctx)"
    using ctx by (simp_all add: wire_context_def)
  note f = decodes_field [where message = "''invalid request field''" and handler = read_request_field]
    and l = decodes_last_field [where message = "''invalid request field''" and handler = read_request_field]
  note op = f [OF request_keys(1)] and query = f [OF request_keys(2)] and node = f [OF request_keys(3)]
    and ep = f [OF request_keys(4)]
  note texts = request_text_fields and routes = request_routes_field [OF c(3)]
  have tail: "decodes (?F (Suc (Suc (Suc 0))) x)
      (etb_cbor_write_text [] ''node'' @ ?n @ etb_cbor_write_text [] ''endpoint'' @ ?e @
       etb_cbor_write_text [] ''routes'' @ ?r)
      (x\<lparr>rq_node_id := Some (nc_node_id ctx), rq_endpoint := Some (nc_listen_endpoint ctx),
         rq_routes := filter publishable (nc_local_routes ctx)\<rparr>)" if "rq_routes x = []" for x
    by (rule node, rule texts(3) [OF c(1)], rule ep, rule texts(4) [OF c(2)], rule l [OF request_keys(5)],
        rule routes) (simp add: that)
  have "decodes (?F (Suc (Suc (Suc (Suc (Suc 0))))) etb_request_init)
      (etb_cbor_write_text [] ''op'' @ etb_cbor_write_text [] ''query'' @
       etb_cbor_write_text [] ''query'' @ etb_cbor_write_text [] q @
       etb_cbor_write_text [] ''node'' @ ?n @ etb_cbor_write_text [] ''endpoint'' @ ?e @
       etb_cbor_write_text [] ''routes'' @ ?r)
      ((sender_request ctx ''query'')\<lparr>rq_query_text := Some q, rq_routes := filter publishable (nc_local_routes ctx)\<rparr>)"
    using tail [of "etb_request_init\<lparr>rq_op := Some ''query'', rq_query_text := Some q\<rparr>"]
    by (intro op [OF texts(1) [OF request_keys(2)]] query [OF texts(2) [OF q]])
      (simp add: sender_request_def etb_request_init_def)
  from decode_request_whole [OF this]
  have query_ok: "fits (etb_encode_query_request ctx q) \<longrightarrow>
      etb_decode_request (etb_encode_query_request ctx q) = Inr ((sender_request ctx ''query'')
        \<lparr>rq_query_text := Some q, rq_routes := filter publishable (nc_local_routes ctx)\<rparr>)"
    by (simp add: etb_encode_query_request_def write_pairs_eq encode_routes_eq cbor_app sender_request_def)
  have "decodes (?F (Suc (Suc (Suc (Suc 0)))) etb_request_init)
      (etb_cbor_write_text [] ''op'' @ etb_cbor_write_text [] ''announce'' @
       etb_cbor_write_text [] ''node'' @ ?n @ etb_cbor_write_text [] ''endpoint'' @ ?e @
       etb_cbor_write_text [] ''routes'' @ ?r)
      ((sender_request ctx ''announce'')\<lparr>rq_routes := filter publishable (nc_local_routes ctx)\<rparr>)"
    using tail [of "etb_request_init\<lparr>rq_op := Some ''announce''\<rparr>"]
    by (intro op [OF texts(1) [OF request_keys(7)]]) (simp add: sender_request_def etb_request_init_def)
  from decode_request_whole [OF this]
  have announce_ok: "fits (etb_encode_announce_request ctx) \<longrightarrow>
      etb_decode_request (etb_encode_announce_request ctx) = Inr ((sender_request ctx ''announce'')
        \<lparr>rq_routes := filter publishable (nc_local_routes ctx)\<rparr>)"
    by (simp add: etb_encode_announce_request_def write_pairs_eq encode_routes_eq cbor_app sender_request_def)
  have "decodes (?F (Suc (Suc (Suc 0))) etb_request_init)
      (etb_cbor_write_text [] ''op'' @ etb_cbor_write_text [] ''registry'' @
       etb_cbor_write_text [] ''node'' @ ?n @ etb_cbor_write_text [] ''endpoint'' @ ?e)
      (etb_request_init\<lparr>rq_op := Some ''registry'', rq_node_id := Some (nc_node_id ctx),
        rq_endpoint := Some (nc_listen_endpoint ctx)\<rparr>)"
    by (rule op, rule texts(1) [OF request_keys(8)], rule node, rule texts(3) [OF c(1)],
        rule l [OF request_keys(4)], rule texts(4) [OF c(2)])
  from decode_request_whole [OF this]
  have registry_ok: "fits (etb_encode_registry_request ctx) \<longrightarrow>
      etb_decode_request (etb_encode_registry_request ctx) = Inr (sender_request ctx ''registry'')"
    by (simp add: etb_encode_registry_request_def write_pairs_eq sender_request_def)
  have "decodes (?F (Suc (Suc (Suc (Suc 0)))) etb_request_init)
      (etb_cbor_write_text [] ''op'' @ etb_cbor_write_text [] ''resolve'' @
       etb_cbor_write_text [] ''node'' @ ?n @ etb_cbor_write_text [] ''endpoint'' @ ?e @
       etb_cbor_write_text [] ''principal'' @ etb_cbor_write_text [] p)
      (etb_request_init\<lparr>rq_op := Some ''resolve'', rq_node_id := Some (nc_node_id ctx),
        rq_endpoint := Some (nc_listen_endpoint ctx), rq_principal := Some p\<rparr>)"
    by (rule op, rule texts(1) [OF request_keys(9)], rule node, rule texts(3) [OF c(1)],
        rule ep, rule texts(4) [OF c(2)], rule l [OF request_keys(6)], rule texts(5) [OF p])
  from decode_request_whole [OF this]
  have resolve_ok: "fits (etb_encode_resolve_request ctx p) \<longrightarrow>
      etb_decode_request (etb_encode_resolve_request ctx p) = Inr ((sender_request ctx ''resolve'')
        \<lparr>rq_principal := Some p\<rparr>)"
    by (simp add: etb_encode_resolve_request_def write_pairs_eq sender_request_def)
  from query_ok announce_ok registry_ok resolve_ok show ?thesis by blast
qed

text \<open>
  C25. Requests arrive as they were sent: each of the four requests of a node decodes to the
  operation, the sender's name and endpoint, its arguments and the sender's publishable routes.
\<close>

theorem etb_request_round_trip:
  assumes ctx: "wire_context ctx" and q: "c_text q" and p: "c_text p"
  shows "(fits (etb_encode_query_request ctx q) \<longrightarrow>
      etb_decode_request (etb_encode_query_request ctx q) = Inr ((sender_request ctx ''query'')
        \<lparr>rq_query_text := Some q, rq_routes := filter publishable (nc_local_routes ctx)\<rparr>)) \<and>
    (fits (etb_encode_announce_request ctx) \<longrightarrow>
      etb_decode_request (etb_encode_announce_request ctx) = Inr ((sender_request ctx ''announce'')
        \<lparr>rq_routes := filter publishable (nc_local_routes ctx)\<rparr>)) \<and>
    (fits (etb_encode_registry_request ctx) \<longrightarrow>
      etb_decode_request (etb_encode_registry_request ctx) = Inr (sender_request ctx ''registry'')) \<and>
    (fits (etb_encode_resolve_request ctx p) \<longrightarrow>
      etb_decode_request (etb_encode_resolve_request ctx p) = Inr ((sender_request ctx ''resolve'')
        \<lparr>rq_principal := Some p\<rparr>))"
  by (rule requests_decode [OF assms])

section \<open>Responses\<close>

definition bundle_key :: "etb_bundle \<Rightarrow> string option \<times> string option" where
  "bundle_key b = (bd_node_id b, bd_query_text b)"

lemma add_bundle_new:
  assumes "wire_bundle b" and "bundle_key b \<notin> bundle_key ` set bs"
  shows "add_bundle b bs = Inr (bs @ [b])"
proof -
  obtain n q c where b: "bd_node_id b = Some n" "bd_query_text b = Some q" "bd_certificate b = Some c"
    using assms(1) by (auto simp: wire_bundle_def)
  have "\<not> list_ex (\<lambda>x. etb_bundle_matches x n q) bs"
    using assms(2) b by (force simp: list_ex_iff etb_bundle_matches_def bundle_key_def)
  moreover have "\<lparr>bd_node_id = Some n, bd_query_text = Some q, bd_trace_text = bd_trace_text b,
      bd_certificate = Some c, bd_proof = bd_proof b\<rparr> = b" using b by (cases b) simp
  ultimately show ?thesis
    by (simp add: add_bundle_def etb_bundle_list_add_copy_def b certificate_bytes_of_def)
qed

lemma add_bundles_distinct:
  "list_all wire_bundle bs \<Longrightarrow> distinct (map bundle_key (acc @ bs)) \<Longrightarrow>
     fold_res add_bundle bs acc = Inr (acc @ bs)"
proof (induction bs arbitrary: acc)
  case Nil
  then show ?case by simp
next
  case (Cons b bs)
  have "add_bundle b acc = Inr (acc @ [b])"
    using Cons.prems by (intro add_bundle_new) auto
  then show ?case using Cons.IH [of "acc @ [b]"] Cons.prems by simp
qed

text \<open>A list of bundles as the code keeps it: one per node and query.\<close>

definition bundles_ok :: "etb_bundle_list \<Rightarrow> bool" where
  "bundles_ok bs \<longleftrightarrow> list_all wire_bundle bs \<and> distinct (map bundle_key bs) \<and> length bs < 2 ^ 63"

definition bundles_bytes :: "etb_bundle_list \<Rightarrow> byte list" where
  "bundles_bytes bs = etb_cbor_write_array_header [] (of_nat (length bs)) @ concat (map bundle_bytes bs)"

lemma response_fields:
  fixes esz rsz :: nat
  defines "h \<equiv> read_response_field esz rsz"
  shows "decodes (h ''ok'' st) (etb_cbor_write_bool [] b) (st\<lparr>rs_ok := b, rs_saw_ok := True\<rparr>)"
    and "c_text message \<Longrightarrow> decodes (h ''error'' st) (etb_cbor_write_text [] message)
      (if message = '''' then st else st\<lparr>rs_error := take (rsz - 1) message\<rparr>)"
    and "bundles_ok bs \<Longrightarrow> rs_bundles st = [] \<Longrightarrow>
      decodes (h ''bundles'' st) (bundles_bytes bs) (st\<lparr>rs_bundles := bs\<rparr>)"
    and "texts_ok m \<Longrightarrow> rs_routes st = [] \<Longrightarrow>
      decodes (h ''routes'' st) (routes_bytes m) (st\<lparr>rs_routes := filter publishable m\<rparr>)"
    and "(\<forall>s. endpoint = Some s \<longrightarrow> c_text s) \<Longrightarrow>
      decodes (h ''endpoint'' st) (opt_bytes (etb_cbor_write_text []) endpoint)
        (case endpoint of None \<Rightarrow> st | Some s \<Rightarrow> st\<lparr>rs_endpoint := take (esz - 1) s\<rparr>)"
proof -
  show "decodes (h ''ok'' st) (etb_cbor_write_bool [] b) (st\<lparr>rs_ok := b, rs_saw_ok := True\<rparr>)"
    unfolding h_def read_response_field_def [abs_def]
    using decodes_last [OF decodes_on_fail [OF cbor_bool.decodes_wr [OF TrueI]],
        where g = "\<lambda>b. st\<lparr>rs_ok := b, rs_saw_ok := True\<rparr>"] by simp
next
  assume "c_text message"
  from decodes_last [OF decodes_on_fail [OF cbor_text.decodes_wr [OF this]],
      where g = "\<lambda>message. if message = '''' then st else st\<lparr>rs_error := take (rsz - 1) message\<rparr>"]
  show "decodes (h ''error'' st) (etb_cbor_write_text [] message)
      (if message = '''' then st else st\<lparr>rs_error := take (rsz - 1) message\<rparr>)"
    unfolding h_def read_response_field_def [abs_def] by simp
next
  assume bs: "bundles_ok bs" and st: "rs_bundles st = []"
  have l: "decodes (cbor_read_list etb_decode_bundle (unat (of_nat (length bs) :: u64)))
      (concat (map bundle_bytes bs)) bs"
    using bs by (intro decodes_counted decodes_bundle) (auto simp: bundles_ok_def list_all_iff)
  have "fold_res add_bundle bs (rs_bundles st) = Inr bs"
    using add_bundles_distinct [of bs "[]"] bs st by (simp add: bundles_ok_def)
  then have e: "decodes (\<lambda>cursor. bind_res (fold_res add_bundle bs (rs_bundles st)) (\<lambda>bundles.
      Inr (st\<lparr>rs_bundles := bundles\<rparr>, cursor))) [] (st\<lparr>rs_bundles := bs\<rparr>)"
    using decodes_return by simp
  have "decodes (\<lambda>cursor. bind_res (on_fail ''invalid bundle'' (cbor_read_list etb_decode_bundle
        (unat (of_nat (length bs) :: u64)) cursor)) (\<lambda>(decoded, cursor).
      bind_res (fold_res add_bundle decoded (rs_bundles st)) (\<lambda>bundles.
        Inr (st\<lparr>rs_bundles := bundles\<rparr>, cursor)))) (concat (map bundle_bytes bs) @ []) (st\<lparr>rs_bundles := bs\<rparr>)"
    by (rule decodes_bind [OF decodes_on_fail [OF l]]) (rule e)
  then have "decodes (\<lambda>cursor. bind_res (on_fail ''invalid response bundles'' (etb_cbor_read_array_header cursor))
      (\<lambda>(bundle_count, cursor). bind_res (on_fail ''invalid bundle'' (cbor_read_list etb_decode_bundle
        (unat bundle_count) cursor)) (\<lambda>(decoded, cursor).
      bind_res (fold_res add_bundle decoded (rs_bundles st)) (\<lambda>bundles.
        Inr (st\<lparr>rs_bundles := bundles\<rparr>, cursor))))) (bundles_bytes bs) (st\<lparr>rs_bundles := bs\<rparr>)"
    unfolding bundles_bytes_def
    by (intro decodes_bind [OF decodes_on_fail [OF cbor_array_header.decodes_wr [OF TrueI]]]) simp
  then show "decodes (h ''bundles'' st) (bundles_bytes bs) (st\<lparr>rs_bundles := bs\<rparr>)"
    unfolding h_def read_response_field_def [abs_def] by simp
next
  assume m: "texts_ok m" and st: "rs_routes st = []"
  have "distinct (map pr_principal (filter publishable m))"
    using m by (simp add: texts_ok_def routes_ok_def distinct_map_filter)
  then have "etb_peer_route_map_merge [] (filter publishable m) = filter publishable m"
    using merge_self [of "[]"] by (simp add: routes_ok_def)
  then show "decodes (h ''routes'' st) (routes_bytes m) (st\<lparr>rs_routes := filter publishable m\<rparr>)"
    unfolding h_def read_response_field_def [abs_def]
    using decodes_last [OF decodes_on_fail [OF decodes_routes [OF m]],
        where g = "\<lambda>decoded. st\<lparr>rs_routes := etb_peer_route_map_merge (rs_routes st) decoded\<rparr>"] st by simp
next
  assume "\<forall>s. endpoint = Some s \<longrightarrow> c_text s"
  then have "decodes (read_nullable etb_cbor_read_text) (opt_bytes (etb_cbor_write_text []) endpoint) endpoint"
    using text_bytes_head
    by (cases endpoint) (simp_all add: opt_bytes_def decodes_null decodes_nullable cbor_text.decodes_wr text_bytes_def)
  from decodes_last [OF decodes_on_fail [OF this], where g = "\<lambda>s. case s of None \<Rightarrow> st |
      Some s \<Rightarrow> st\<lparr>rs_endpoint := take (esz - 1) s\<rparr>"]
  show "decodes (h ''endpoint'' st) (opt_bytes (etb_cbor_write_text []) endpoint)
        (case endpoint of None \<Rightarrow> st | Some s \<Rightarrow> st\<lparr>rs_endpoint := take (esz - 1) s\<rparr>)"
    unfolding h_def read_response_field_def [abs_def] by simp
qed

lemma response_keys: "c_text ''ok''" "c_text ''error''" "c_text ''bundles''" "c_text ''routes''" "c_text ''endpoint''"
  by (simp_all add: c_text_def)

definition response_bytes_of ::
    "bool \<Rightarrow> string \<Rightarrow> etb_bundle_list \<Rightarrow> etb_peer_route_map \<Rightarrow> string option \<Rightarrow> byte list" where
  "response_bytes_of ok message bundles m endpoint =
     etb_cbor_write_map_header [] (of_nat (Suc (Suc (Suc (Suc (Suc 0)))))) @
     etb_cbor_write_text [] ''ok'' @ etb_cbor_write_bool [] ok @
     etb_cbor_write_text [] ''error'' @ etb_cbor_write_text [] message @
     etb_cbor_write_text [] ''bundles'' @ bundles_bytes bundles @
     etb_cbor_write_text [] ''routes'' @ routes_bytes m @
     etb_cbor_write_text [] ''endpoint'' @ opt_bytes (etb_cbor_write_text []) endpoint"

lemma encode_ok_eq:
  "list_all wire_bundle bundles \<Longrightarrow>
     etb_response_encode_ok bundles m endpoint = Inr (response_bytes_of True '''' bundles m endpoint)"
  by (cases endpoint) (simp_all add: etb_response_encode_ok_def Let_def encode_bundles_eq encode_routes_eq cbor_app
      response_bytes_of_def bundles_bytes_def opt_bytes_def)

lemma encode_error_eq: "etb_response_encode_error message = response_bytes_of False message [] [] None"
  by (simp add: etb_response_encode_error_def Let_def cbor_app response_bytes_of_def bundles_bytes_def
      routes_bytes_def opt_bytes_def)

lemma decode_response_bytes:
  assumes b: "bundles_ok bundles" and m: "texts_ok m" and e: "\<forall>s. endpoint = Some s \<longrightarrow> c_text s"
    and t: "c_text message" and fit: "fits (response_bytes_of ok message bundles m endpoint)"
  shows "etb_decode_response esz rsz err (response_bytes_of ok message bundles m endpoint) =
    (let error = if message = '''' then err else take (rsz - 1) message in
     if ok then Inr (bundles, filter publishable m, take (esz - 1) (the_text endpoint), error)
     else Inl (Fail (if error = '''' then ''remote query failed'' else error)))"
proof -
  let ?h = "read_response_field esz rsz" and ?P = "response_bytes_of ok message bundles m endpoint"
  let ?s1 = "(response_init err)\<lparr>rs_ok := ok, rs_saw_ok := True\<rparr>"
  let ?s2 = "if message = '''' then ?s1 else ?s1\<lparr>rs_error := take (rsz - 1) message\<rparr>"
  let ?s4 = "?s2\<lparr>rs_bundles := bundles, rs_routes := filter publishable m\<rparr>"
  let ?s5 = "case endpoint of None \<Rightarrow> ?s4 | Some s \<Rightarrow> ?s4\<lparr>rs_endpoint := take (esz - 1) s\<rparr>"
  note f = response_fields [where esz = esz and rsz = rsz]
  have "decodes (cbor_read_fields ''invalid response field'' ?h (Suc (Suc (Suc (Suc (Suc 0))))) (response_init err))
      (etb_cbor_write_text [] ''ok'' @ etb_cbor_write_bool [] ok @
       etb_cbor_write_text [] ''error'' @ etb_cbor_write_text [] message @
       etb_cbor_write_text [] ''bundles'' @ bundles_bytes bundles @
       etb_cbor_write_text [] ''routes'' @ routes_bytes m @
       etb_cbor_write_text [] ''endpoint'' @ opt_bytes (etb_cbor_write_text []) endpoint) ?s5"
    by (rule decodes_field [OF response_keys(1)], rule f(1), rule decodes_field [OF response_keys(2)],
        rule f(2) [OF t], rule decodes_field [OF response_keys(3)], rule f(3) [OF b],
        simp add: response_init_def, rule decodes_field [OF response_keys(4)], rule f(4) [OF m],
        simp add: response_init_def)
      (use decodes_last_field [where handler = ?h and message = "''invalid response field''",
          OF response_keys(5) f(5) [OF e], of ?s4] in simp)
  from decodes_whole [OF decodes_map [OF this, of "''invalid response''"]] fit
  have "bind_res (on_fail ''invalid response'' (etb_cbor_read_map_header (etb_cbor_cursor_init ?P)))
      (\<lambda>(pair_count, cursor). cbor_read_fields ''invalid response field'' ?h (unat pair_count)
        (response_init err) cursor) = Inr (?s5, cursor_at ?P [])"
    by (simp add: response_bytes_of_def del: bind_res_eq_Inr)
  moreover have "rs_ok ?s5 = ok" "rs_saw_ok ?s5" "rs_bundles ?s5 = bundles" "rs_routes ?s5 = filter publishable m"
    "rs_error ?s5 = (if message = '''' then err else take (rsz - 1) message)"
    "rs_endpoint ?s5 = take (esz - 1) (the_text endpoint)"
    by (cases endpoint; simp add: response_init_def the_text_def)+
  ultimately show ?thesis
    by (simp add: etb_decode_response_def Let_def del: bind_res_eq_Inr)
qed

text \<open>
  C26. Responses arrive as they were sent. The bundles, the publishable routes and the endpoint,
  cut to the caller's array, come back from a successful response, which leaves the caller's error
  text alone; an error response comes back as
  its message, cut to the caller's array, and an empty message as a fixed one if the caller's
  array was empty.
\<close>

theorem etb_response_round_trip:
  assumes "bundles_ok bundles" and "texts_ok m" and "\<forall>s. endpoint = Some s \<longrightarrow> c_text s" and "c_text message"
  shows "(\<exists>payload. etb_response_encode_ok bundles m endpoint = Inr payload \<and>
      (fits payload \<longrightarrow> etb_decode_response esz rsz err payload =
         Inr (bundles, filter publishable m, take (esz - 1) (the_text endpoint), err))) \<and>
    (fits (etb_response_encode_error message) \<longrightarrow>
      etb_decode_response esz rsz err (etb_response_encode_error message) =
        Inl (Fail (let error = if message = '''' then err else take (rsz - 1) message
                   in if error = '''' then ''remote query failed'' else error)))"
proof -
  have w: "list_all wire_bundle bundles" using assms(1) by (simp add: bundles_ok_def)
  have "c_text ''''" "bundles_ok []" "texts_ok []"
    by (simp_all add: c_text_def bundles_ok_def texts_ok_def routes_ok_def)
  note ok = decode_response_bytes [OF assms(1-3) this(1), of True esz rsz err]
    and er = decode_response_bytes [OF this(2,3) _ assms(4), of None False esz rsz err]
  show ?thesis
    using encode_ok_eq [OF w, of m endpoint] ok er by (simp add: encode_error_eq Let_def)
qed

section \<open>Witnesses\<close>

lemma sample_wire_context: "wire_context sample_context"
  by (simp add: wire_context_def sample_context_def c_text_def texts_ok_def routes_ok_def)

lemma etb_request_round_trip_witness:
  "etb_decode_request (etb_encode_resolve_request sample_context ''bank'') =
     Inr ((sender_request sample_context ''resolve'')\<lparr>rq_principal := Some ''bank''\<rparr>)"
proof -
  have "fits (etb_encode_resolve_request sample_context ''bank'')"
    by (simp add: etb_encode_resolve_request_def write_pairs_def sample_context_def fits_def etb_cbor_write_text_def
        etb_cbor_write_map_header_def etb_cbor_write_type_value_def Let_def)
  then show ?thesis
    using etb_request_round_trip [OF sample_wire_context, of "''q''" "''bank''"] by (simp add: c_text_def)
qed

definition sample_bundle :: etb_bundle where
  "sample_bundle = \<lparr>bd_node_id = Some ''n'', bd_query_text = Some ''p'', bd_trace_text = None,
     bd_certificate = Some [1, 2], bd_proof = []\<rparr>"

lemma etb_response_round_trip_witness:
  "\<exists>payload. etb_response_encode_ok [sample_bundle] [\<lparr>pr_principal = ''a'', pr_endpoint = ''h:1''\<rparr>] (Some ''h:1'') = Inr payload \<and>
     etb_decode_response 256 256 '''' payload =
       Inr ([sample_bundle], [\<lparr>pr_principal = ''a'', pr_endpoint = ''h:1''\<rparr>], ''h:1'', '''')"
proof -
  let ?m = "[\<lparr>pr_principal = ''a'', pr_endpoint = ''h:1''\<rparr>]"
  have ok: "bundles_ok [sample_bundle]" "texts_ok ?m" "c_text ''h:1''" "c_text ''''"
    by (simp_all add: bundles_ok_def wire_bundle_def sample_bundle_def texts_ok_def routes_ok_def c_text_def)
  have pub: "filter publishable ?m = ?m" by (simp add: publishable_def etb_route_is_publishable_def)
  obtain payload where p: "etb_response_encode_ok [sample_bundle] ?m (Some ''h:1'') = Inr payload"
    "fits payload \<longrightarrow> etb_decode_response 256 256 '''' payload =
       Inr ([sample_bundle], filter publishable ?m, take (256 - 1) (the_text (Some ''h:1'')), '''')"
    using etb_response_round_trip [OF ok(1,2) _ ok(4), of "Some ''h:1''" 256 256 "''''"] ok(3) by auto
  have "list_all wire_bundle [sample_bundle]" using ok(1) by (simp add: bundles_ok_def)
  from encode_ok_eq [OF this] have "payload = response_bytes_of True '''' [sample_bundle] ?m (Some ''h:1'')"
    using p(1) by simp
  then have "fits payload"
    by (simp add: response_bytes_of_def bundles_bytes_def bundle_bytes_def routes_bytes_def route_bytes_def
        pub opt_bytes_def the_text_def certificate_bytes_of_def sample_bundle_def fits_def
        etb_cbor_write_text_def etb_cbor_write_bytes_def etb_cbor_write_bool_def etb_cbor_write_null_def
        etb_cbor_write_map_header_def etb_cbor_write_array_header_def etb_cbor_write_type_value_def Let_def
        publishable_def etb_route_is_publishable_def)
  then show ?thesis using p pub by (simp add: the_text_def)
qed

lemma etb_send_recv_message_witness:
  "etb_recv_message (etb_send_message [7, 8] @ [9]) = Some ([7, 8], [9])"
  using etb_send_recv_message [of "[7, 8]" "[9]"] by simp

end
