(* ===== verification/Cert.thy ===== *)
theory Cert
  imports Trace Cbor Parser_Roundtrip
begin

text \<open>
  Certificates: \<open>include/etb/cert.h\<close> and \<open>src/engine/cert.c\<close>. A certificate is a CBOR map with
  the text of the query, the texts of the answers, the digests of the trace and a root digest,
  the SHA-256 of the bytes before it. The fields the code keeps beside the bytes are those of the
  record; its root is cut to the 64 characters of the array.

  Reading takes the fields in any order and number. It parses the texts of the query and the
  answers, skips the digests of the trace and stores the root as it stands.
\<close>

section \<open>Data\<close>

record etb_certificate =
  ct_query :: etb_atom
  ct_answers :: "etb_atom list"
  ct_trace :: etb_trace
  ct_root_digest :: string
  ct_cbor :: "byte list"

definition etb_certificate_init :: etb_certificate where
  "etb_certificate_init =
     \<lparr>ct_query = etb_atom_init, ct_answers = [], ct_trace = [], ct_root_digest = '''', ct_cbor = []\<rparr>"

section \<open>Building\<close>

definition etb_cbor_write_atom :: "etb_cbor_buffer \<Rightarrow> etb_atom \<Rightarrow> etb_cbor_buffer res" where
  "etb_cbor_write_atom buffer atom =
     bind_res (etb_atom_canonical_text atom) (\<lambda>txt. Inr (etb_cbor_write_text buffer txt))"

text \<open>The trace is copied by appending its nodes to an empty one, which computes the digests again.\<close>

definition copy_trace :: "etb_trace \<Rightarrow> etb_trace res" where
  "copy_trace trace =
     fold_res (\<lambda>node copied. bind_res (etb_trace_append copied node) (\<lambda>(_, copied). Inr copied)) trace []"

definition etb_certificate_build :: "etb_atom \<Rightarrow> etb_atom list \<Rightarrow> etb_trace \<Rightarrow> etb_certificate res" where
  "etb_certificate_build query answers trace =
     bind_res (copy_trace trace) (\<lambda>copied.
     bind_res (etb_cbor_write_atom
        (etb_cbor_write_text (etb_cbor_write_map_header [] 4) ''query'') query) (\<lambda>buffer.
     bind_res (fold_res (\<lambda>answer buffer. etb_cbor_write_atom buffer answer) answers
        (etb_cbor_write_array_header (etb_cbor_write_text buffer ''answers'')
           (of_nat (length answers)))) (\<lambda>buffer.
       let buffer = foldl (\<lambda>buffer node. etb_cbor_write_text buffer (n_digest_hex node))
             (etb_cbor_write_array_header (etb_cbor_write_text buffer ''trace'')
                (of_nat (length copied))) copied;
           root = etb_sha256_hex buffer;
           buffer = etb_cbor_write_text (etb_cbor_write_text buffer ''root'') root
       in Inr \<lparr>ct_query = etb_atom_clone query, ct_answers = map etb_atom_clone answers,
               ct_trace = copied, ct_root_digest = root, ct_cbor = buffer\<rparr>)))"

datatype file_write = Output_open_failed | Output_write_failed | Output_written

definition etb_certificate_write_file ::
    "etb_certificate \<Rightarrow> (byte list \<Rightarrow> file_write) \<Rightarrow> unit res" where
  "etb_certificate_write_file certificate stream =
     (case stream (ct_cbor certificate) of
        Output_open_failed \<Rightarrow> Inl (Fail ''failed to open certificate output'')
      | Output_write_failed \<Rightarrow> Inl (Fail ''failed to write certificate'')
      | Output_written \<Rightarrow> Inr ())"

section \<open>Reading\<close>

definition etb_read_atom_text :: "etb_cbor_cursor \<Rightarrow> (etb_atom \<times> etb_cbor_cursor) res" where
  "etb_read_atom_text cursor =
     bind_res (etb_cbor_read_text cursor) (\<lambda>(txt, cursor).
     bind_res (etb_parse_atom_text txt) (\<lambda>atom. Inr (atom, cursor)))"

text \<open>The size of an \<open>etb_atom\<close> on a 64-bit machine decides whether the answers can be allocated.\<close>

definition sizeof_etb_atom :: nat where
  "sizeof_etb_atom = 96"

definition read_answers :: "etb_cbor_cursor \<Rightarrow> (etb_atom list \<times> etb_cbor_cursor) res" where
  "read_answers cursor =
     bind_res (on_fail ''invalid answers encoding'' (etb_cbor_read_array_header cursor))
       (\<lambda>(answer_count, cursor).
         if \<not> calloc_ok answer_count sizeof_etb_atom then Inl (Fail ''out of memory'')
         else cbor_read_list etb_read_atom_text (unat answer_count) cursor)"

definition skip_trace :: "etb_cbor_cursor \<Rightarrow> (string list \<times> etb_cbor_cursor) res" where
  "skip_trace cursor =
     bind_res (on_fail ''invalid trace encoding'' (etb_cbor_read_array_header cursor))
       (\<lambda>(trace_count, cursor).
         on_fail ''invalid trace digest'' (cbor_read_list etb_cbor_read_text (unat trace_count) cursor))"

definition read_field ::
    "string \<Rightarrow> etb_certificate \<Rightarrow> etb_cbor_cursor \<Rightarrow> (etb_certificate \<times> etb_cbor_cursor) res" where
  "read_field key certificate cursor =
     (if key = ''query'' then
        bind_res (etb_read_atom_text cursor) (\<lambda>(query, cursor).
          Inr (certificate\<lparr>ct_query := query\<rparr>, cursor))
      else if key = ''answers'' then
        bind_res (read_answers cursor) (\<lambda>(answers, cursor).
          Inr (certificate\<lparr>ct_answers := answers\<rparr>, cursor))
      else if key = ''trace'' then
        bind_res (skip_trace cursor) (\<lambda>(_, cursor). Inr (certificate, cursor))
      else if key = ''root'' then
        bind_res (on_fail ''invalid root digest'' (etb_cbor_read_text cursor)) (\<lambda>(root_text, cursor).
          Inr (certificate\<lparr>ct_root_digest := take 64 root_text\<rparr>, cursor))
      else Inl (Fail ''unknown certificate field''))"

definition etb_certificate_read_bytes :: "byte list \<Rightarrow> etb_certificate res" where
  "etb_certificate_read_bytes bytes =
     bind_res (on_fail ''invalid certificate encoding''
        (etb_cbor_read_map_header (etb_cbor_cursor_init bytes))) (\<lambda>(pair_count, cursor).
     bind_res (cbor_read_fields ''invalid certificate field'' read_field (unat pair_count) (etb_certificate_init\<lparr>ct_cbor := bytes\<rparr>) cursor)
       (\<lambda>(certificate, _). Inr certificate))"

text \<open>The outcome of the stdio calls is the argument, as for \<open>etb_parse_file\<close>.\<close>

definition etb_certificate_read_file :: "file_read \<Rightarrow> etb_certificate res" where
  "etb_certificate_read_file stream =
     (case stream of
        Open_failed \<Rightarrow> Inl (Fail ''failed to open certificate'')
      | Seek_failed \<Rightarrow> Inl (Fail ''failed to seek certificate'')
      | Size_failed \<Rightarrow> Inl (Fail ''failed to read certificate size'')
      | Read_failed \<Rightarrow> Inl (Fail ''failed to read certificate'')
      | File_bytes buffer \<Rightarrow> etb_certificate_read_bytes (bytes_of_string buffer))"

section \<open>Copying the trace\<close>

lemma append_good_node:
  assumes "node_digest_ok node" and "n_id node = length trace"
  shows "etb_trace_append trace node = Inr (length trace, trace @ [node])"
proof -
  let ?n = "node\<lparr>n_digest_hex := ''''\<rparr>"
  have same: "etb_trace_digest_node ?n = etb_trace_digest_node node"
    by (simp add: etb_trace_digest_node_def digest_buffer_def digest_header_def Let_def bind_res_def
        split: sum.split)
  have "\<lparr>n_id = length trace, n_kind = n_kind node, n_rule_id = n_rule_id node,
      n_fact = etb_atom_clone (n_fact node), n_premises = n_premises node,
      n_evidence_digest = n_evidence_digest node, n_digest_hex = ''''\<rparr> = ?n"
    using assms(2) by (cases node) simp
  then show ?thesis
    using same assms(1) by (simp add: etb_trace_append_def node_digest_ok_def)
qed

lemma trace_ok_snoc: "trace_ok (trace @ [node]) \<Longrightarrow> trace_ok trace \<and> node_digest_ok node \<and> n_id node = length trace"
proof -
  assume ok: "trace_ok (trace @ [node])"
  have "trace_ok trace"
    unfolding trace_ok_def
  proof (intro allI impI)
    fix i assume "i < length trace"
    then show "n_id (trace ! i) = i \<and> node_digest_ok (trace ! i) \<and> (\<forall>p \<in> set (n_premises (trace ! i)). p < i)"
      using ok [unfolded trace_ok_def, rule_format, of i] by (simp add: nth_append)
  qed
  then show ?thesis using ok [unfolded trace_ok_def, rule_format, of "length trace"] by simp
qed

lemma copy_trace_good: "trace_ok trace \<Longrightarrow> copy_trace trace = Inr trace"
proof (induction trace rule: rev_induct)
  case Nil
  then show ?case by (simp add: copy_trace_def)
next
  case (snoc node trace)
  then have "copy_trace trace = Inr trace" "node_digest_ok node" "n_id node = length trace"
    using trace_ok_snoc by auto
  then show ?case by (simp add: copy_trace_def append_good_node del: bind_res_eq_Inr)
qed

lemma node_digest_hash:
  assumes "trace_ok trace" and "node \<in> set trace"
  shows "\<exists>buffer. n_digest_hex node = etb_sha256_hex buffer"
proof -
  have "node_digest_ok node" using assms by (auto simp: trace_ok_def in_set_conv_nth)
  then obtain buffer where "node\<lparr>n_digest_hex := etb_sha256_hex buffer\<rparr> = node"
    by (auto simp: node_digest_ok_def etb_trace_digest_node_def)
  then have "n_digest_hex (node\<lparr>n_digest_hex := etb_sha256_hex buffer\<rparr>) = n_digest_hex node" by simp
  then have "n_digest_hex node = etb_sha256_hex buffer" by simp
  then show ?thesis by (rule exI)
qed

lemma node_digest_text: "trace_ok trace \<Longrightarrow> node \<in> set trace \<Longrightarrow> c_text (n_digest_hex node)"
  using node_digest_hash by (fastforce simp: c_text_def sha.hash_no_nul)

section \<open>The layout of the bytes\<close>

definition atom_text :: "etb_atom \<Rightarrow> string" where
  "atom_text a = (case etb_atom_canonical_text a of Inr txt \<Rightarrow> txt | Inl _ \<Rightarrow> '''')"

definition signed_bytes :: "etb_atom \<Rightarrow> etb_atom list \<Rightarrow> string list \<Rightarrow> byte list" where
  "signed_bytes query answers digests =
     etb_cbor_write_map_header [] 4 @
     etb_cbor_write_text [] ''query'' @ etb_cbor_write_text [] (atom_text query) @
     etb_cbor_write_text [] ''answers'' @ etb_cbor_write_array_header [] (of_nat (length answers)) @
       concat (map (\<lambda>a. etb_cbor_write_text [] (atom_text a)) answers) @
     etb_cbor_write_text [] ''trace'' @ etb_cbor_write_array_header [] (of_nat (length digests)) @
       concat (map (etb_cbor_write_text []) digests)"

definition certificate_bytes :: "etb_atom \<Rightarrow> etb_atom list \<Rightarrow> string list \<Rightarrow> string \<Rightarrow> byte list" where
  "certificate_bytes query answers digests root =
     signed_bytes query answers digests @ etb_cbor_write_text [] ''root'' @ etb_cbor_write_text [] root"

lemma write_answers:
  "\<forall>a \<in> set answers. \<exists>txt. etb_atom_canonical_text a = Inr txt \<Longrightarrow>
     fold_res (\<lambda>answer buffer. etb_cbor_write_atom buffer answer) answers buffer =
       Inr (buffer @ concat (map (\<lambda>a. etb_cbor_write_text [] (atom_text a)) answers))"
proof (induction answers arbitrary: buffer)
  case Nil
  then show ?case by simp
next
  case (Cons a answers)
  then obtain s where a: "etb_atom_canonical_text a = Inr s" by auto
  have "etb_cbor_write_text buffer s = buffer @ etb_cbor_write_text [] s"
    by (rule cbor_text.wr_append)
  then show ?case using a Cons by (simp add: etb_cbor_write_atom_def atom_text_def)
qed

lemma write_digests:
  "foldl (\<lambda>buffer node. etb_cbor_write_text buffer (n_digest_hex node)) buffer trace =
     buffer @ concat (map (etb_cbor_write_text []) (map n_digest_hex trace))"
  using cbor_text.foldl_wr [of buffer "map n_digest_hex trace"] by (simp add: foldl_map)

lemma certificate_build_eq:
  assumes "\<forall>a \<in> set (query # answers). \<exists>txt. etb_atom_canonical_text a = Inr txt" and "trace_ok trace"
  shows "etb_certificate_build query answers trace =
    Inr (let root = etb_sha256_hex (signed_bytes query answers (map n_digest_hex trace)) in
      \<lparr>ct_query = query, ct_answers = answers, ct_trace = trace, ct_root_digest = root,
       ct_cbor = certificate_bytes query answers (map n_digest_hex trace) root\<rparr>)"
proof -
  obtain qtext where q: "etb_atom_canonical_text query = Inr qtext" using assms(1) by auto
  have app: "NO_MATCH [] buf \<Longrightarrow> etb_cbor_write_text buf s = buf @ etb_cbor_write_text [] s"
    "NO_MATCH [] buf \<Longrightarrow> etb_cbor_write_array_header buf n = buf @ etb_cbor_write_array_header [] n"
    for buf s n
    by (rule cbor_appends)+
  have answers: "\<forall>a \<in> set answers. \<exists>txt. etb_atom_canonical_text a = Inr txt" using assms(1) by simp
  show ?thesis
    unfolding etb_certificate_build_def copy_trace_good [OF assms(2)] bind_res_Inr
      etb_cbor_write_atom_def q write_answers [OF answers, unfolded etb_cbor_write_atom_def] write_digests
    by (simp add: Let_def app q atom_text_def map_idI [of answers] signed_bytes_def certificate_bytes_def
        del: bind_res_eq_Inr)
qed

section \<open>Reading back\<close>

text \<open>An atom whose text survives the trip: printable, and without NUL in a string.\<close>

definition carried :: "etb_atom \<Rightarrow> bool" where
  "carried a \<longleftrightarrow> printable_atom a \<and> c_text (atom_text a)"

lemma carried_text: "carried a \<Longrightarrow> etb_atom_canonical_text a = Inr (atom_text a) \<and> etb_parse_atom_text (atom_text a) = Inr a"
  using parse_canonical [of a] by (auto simp: carried_def atom_text_def)

lemma decodes_atom:
  assumes "carried a"
  shows "decodes etb_read_atom_text (etb_cbor_write_text [] (atom_text a)) a"
proof -
  have "decodes (\<lambda>cursor. bind_res (etb_parse_atom_text (atom_text a)) (\<lambda>atom. Inr (atom, cursor))) [] a"
    using carried_text [OF assms] decodes_return by simp
  then show ?thesis
    unfolding etb_read_atom_text_def [abs_def]
    using decodes_bind [OF cbor_text.decodes_wr [of "atom_text a"], where c = "[]"
        and f = "\<lambda>s cursor. bind_res (etb_parse_atom_text s) (\<lambda>atom. Inr (atom, cursor))"] assms
    by (simp add: carried_def)
qed

lemma decodes_answers:
  assumes "\<forall>a \<in> set answers. carried a" and "length answers * sizeof_etb_atom < 2 ^ 63"
  shows "decodes read_answers (etb_cbor_write_array_header [] (of_nat (length answers)) @
    concat (map (\<lambda>a. etb_cbor_write_text [] (atom_text a)) answers)) answers"
proof -
  have small: "length answers < 2 ^ 63" using assms(2) by (simp add: sizeof_etb_atom_def)
  then have "calloc_ok (of_nat (length answers)) sizeof_etb_atom"
    using assms(2) by (simp add: calloc_ok_def unat_of_nat_small)
  moreover have "decodes (cbor_read_list etb_read_atom_text (unat (of_nat (length answers) :: u64)))
      (concat (map (\<lambda>a. etb_cbor_write_text [] (atom_text a)) answers)) answers"
    using small assms(1) by (intro decodes_counted decodes_atom) auto
  ultimately show ?thesis
    unfolding read_answers_def [abs_def]
    by (intro decodes_bind [OF decodes_on_fail [OF cbor_array_header.decodes_wr [OF TrueI]]]) simp
qed

lemma decodes_trace:
  assumes "\<forall>d \<in> set digests. c_text d" and "length digests < 2 ^ 63"
  shows "decodes skip_trace (etb_cbor_write_array_header [] (of_nat (length digests)) @
    concat (map (etb_cbor_write_text []) digests)) digests"
  unfolding skip_trace_def [abs_def]
  by (rule decodes_bind [OF decodes_on_fail [OF cbor_array_header.decodes_wr [OF TrueI]]])
    (use assms in \<open>simp add: decodes_on_fail decodes_counted cbor_text.decodes_wr\<close>)

lemma decodes_certificate_fields:
  assumes q: "carried query" and a: "\<forall>a \<in> set answers. carried a"
    and n: "length answers * sizeof_etb_atom < 2 ^ 63"
    and d: "\<forall>d \<in> set digests. c_text d" "length digests < 2 ^ 63" and r: "c_text root"
  shows "decodes (cbor_read_fields ''invalid certificate field'' read_field 4 certificate)
    (etb_cbor_write_text [] ''query'' @ etb_cbor_write_text [] (atom_text query) @
     etb_cbor_write_text [] ''answers'' @ (etb_cbor_write_array_header [] (of_nat (length answers)) @
       concat (map (\<lambda>a. etb_cbor_write_text [] (atom_text a)) answers)) @
     etb_cbor_write_text [] ''trace'' @ (etb_cbor_write_array_header [] (of_nat (length digests)) @
       concat (map (etb_cbor_write_text []) digests)) @
     etb_cbor_write_text [] ''root'' @ etb_cbor_write_text [] root @ [])
    (certificate\<lparr>ct_query := query, ct_answers := answers, ct_root_digest := take 64 root\<rparr>)"
proof -
  have keys: "c_text ''query''" "c_text ''answers''" "c_text ''trace''" "c_text ''root''"
    by (simp_all add: c_text_def)
  have fields: "decodes (read_field ''query'' c) (etb_cbor_write_text [] (atom_text query)) (c\<lparr>ct_query := query\<rparr>)"
    "decodes (read_field ''answers'' c) (etb_cbor_write_array_header [] (of_nat (length answers)) @
       concat (map (\<lambda>a. etb_cbor_write_text [] (atom_text a)) answers)) (c\<lparr>ct_answers := answers\<rparr>)"
    "decodes (read_field ''trace'' c) (etb_cbor_write_array_header [] (of_nat (length digests)) @
       concat (map (etb_cbor_write_text []) digests)) c"
    "decodes (read_field ''root'' c) (etb_cbor_write_text [] root) (c\<lparr>ct_root_digest := take 64 root\<rparr>)" for c
    unfolding read_field_def [abs_def]
    using decodes_last [OF decodes_atom [OF q], where g = "\<lambda>x. c\<lparr>ct_query := x\<rparr>"]
      decodes_last [OF decodes_answers [OF a n], where g = "\<lambda>x. c\<lparr>ct_answers := x\<rparr>"]
      decodes_last [OF decodes_trace [OF d], where g = "\<lambda>_. c"]
      decodes_last [OF decodes_on_fail [OF cbor_text.decodes_wr [OF r]], where g = "\<lambda>x. c\<lparr>ct_root_digest := take 64 x\<rparr>"]
    by simp_all
  note last = decodes_last_field [where handler = read_field, OF keys(4) fields(4)]
  have four: "4 = Suc (Suc (Suc (Suc 0)))" by simp
  show ?thesis
    unfolding four
    by (rule decodes_field [OF keys(1)], rule fields(1), rule decodes_field [OF keys(2)], rule fields(2),
        rule decodes_field [OF keys(3)], rule fields(3))
      (use last [of "''invalid certificate field''" "certificate\<lparr>ct_query := query, ct_answers := answers\<rparr>"] in simp)
qed

lemma certificate_bytes_reads:
  assumes q: "carried query" and a: "\<forall>a \<in> set answers. carried a"
    and n: "length answers * sizeof_etb_atom < 2 ^ 63"
    and d: "\<forall>d \<in> set digests. c_text d" "length digests < 2 ^ 63" and r: "c_text root"
    and fit: "fits (certificate_bytes query answers digests root)"
  shows "etb_certificate_read_bytes (certificate_bytes query answers digests root) =
    Inr \<lparr>ct_query = query, ct_answers = answers, ct_trace = [], ct_root_digest = take 64 root,
         ct_cbor = certificate_bytes query answers digests root\<rparr>"
proof -
  let ?b = "certificate_bytes query answers digests root"
  let ?c = "etb_certificate_init\<lparr>ct_cbor := ?b\<rparr>"
  let ?c' = "?c\<lparr>ct_query := query, ct_answers := answers, ct_root_digest := take 64 root\<rparr>"
  have "decodes (\<lambda>cursor. bind_res (on_fail ''invalid certificate encoding'' (etb_cbor_read_map_header cursor))
      (\<lambda>(pair_count, cursor). cbor_read_fields ''invalid certificate field'' read_field (unat pair_count) ?c cursor)) ?b ?c'"
    using decodes_map [OF decodes_certificate_fields [OF q a n d r, of ?c], of "''invalid certificate encoding''"]
    by (simp add: certificate_bytes_def signed_bytes_def)
  from decodes_whole [OF this fit] show ?thesis
    by (auto simp: etb_certificate_read_bytes_def etb_certificate_init_def)
qed

section \<open>Certificates\<close>

text \<open>
  C12. Building and reading a certificate are inverse: for a query and answers whose texts parse
  and a good trace, building succeeds, the root is the hash of the bytes before it, and the bytes
  read back as the certificate that was built, less its trace.
\<close>

theorem etb_certificate_round_trip:
  assumes q: "carried query" and a: "\<forall>a \<in> set answers. carried a"
    and n: "length answers * sizeof_etb_atom < 2 ^ 63" and t: "trace_ok trace" "length trace < 2 ^ 63"
  shows "\<exists>c. etb_certificate_build query answers trace = Inr c \<and> ct_trace c = trace \<and>
    ct_root_digest c = etb_sha256_hex (signed_bytes query answers (map n_digest_hex trace)) \<and>
    (fits (ct_cbor c) \<longrightarrow> etb_certificate_read_bytes (ct_cbor c) = Inr (c\<lparr>ct_trace := []\<rparr>))"
proof -
  let ?d = "map n_digest_hex trace"
  let ?root = "etb_sha256_hex (signed_bytes query answers ?d)"
  have "\<forall>a \<in> set (query # answers). \<exists>s. etb_atom_canonical_text a = Inr s"
    using q a carried_text by auto
  note build = certificate_build_eq [OF this t(1)]
  have "\<forall>d \<in> set ?d. c_text d" "length ?d < 2 ^ 63"
    using node_digest_text [OF t(1)] t(2) by auto
  note reads = certificate_bytes_reads [OF q a n this, of ?root]
  have "c_text ?root" by (simp add: c_text_def sha.hash_no_nul)
  then show ?thesis using build reads by (simp add: Let_def sha.hash_take)
qed

text \<open>
  The root digest of a certificate is never compared with its bytes, and neither are the
  digests of its trace: whatever texts stand there, the certificate reads back with the query and
  the answers claimed.
\<close>

theorem certificate_root_unchecked:
  assumes "carried query" and "\<forall>a \<in> set answers. carried a"
    and "length answers * sizeof_etb_atom < 2 ^ 63"
    and "\<forall>d \<in> set digests. c_text d" and "length digests < 2 ^ 63" and "c_text root"
    and "fits (certificate_bytes query answers digests root)"
  shows "\<exists>c. etb_certificate_read_bytes (certificate_bytes query answers digests root) = Inr c \<and>
    ct_query c = query \<and> ct_answers c = answers \<and> ct_root_digest c = take 64 root"
  using certificate_bytes_reads [OF assms] by simp

definition open_query :: etb_atom where
  "open_query = etb_atom_init\<lparr>a_predicate := Some ''p'',
     a_terms := [etb_term_make_variable (Some ''X'')]\<rparr>"

text \<open>
  The certificate of a query with a variable cannot be read: the certificate of \<open>p(X)\<close>, with
  any answers that print and any good trace, is built, and reading it fails at the question mark
  of the query's text.
\<close>

theorem certificate_of_open_query_unreadable:
  assumes a: "\<forall>a \<in> set answers. \<exists>s. etb_atom_canonical_text a = Inr s" and t: "trace_ok trace"
  shows "\<exists>c. etb_certificate_build open_query answers trace = Inr c \<and>
    (fits (ct_cbor c) \<longrightarrow>
       etb_certificate_read_bytes (ct_cbor c) = Inl (Fail ''line 1: unexpected character''))"
proof -
  have qtext: "etb_atom_canonical_text open_query = Inr ''p(?X)''" by code_simp
  have bad: "etb_parse_atom_text ''p(?X)'' = Inl (Fail ''line 1: unexpected character'')" by code_simp
  have "\<forall>a \<in> set (open_query # answers). \<exists>s. etb_atom_canonical_text a = Inr s"
    using a qtext by auto
  note build = certificate_build_eq [OF this t]
  define root where "root = etb_sha256_hex (signed_bytes open_query answers (map n_digest_hex trace))"
  define bytes where "bytes = certificate_bytes open_query answers (map n_digest_hex trace) root"
  obtain rest where bytes: "bytes = etb_cbor_write_map_header [] 4 @ etb_cbor_write_text [] ''query'' @
      etb_cbor_write_text [] ''p(?X)'' @ rest"
    by (simp add: bytes_def certificate_bytes_def signed_bytes_def atom_text_def qtext)
  have "etb_certificate_read_bytes bytes = Inl (Fail ''line 1: unexpected character'')" if fit: "fits bytes"
  proof -
    have keys: "c_text ''query''" "c_text ''p(?X)''" by (simp_all add: c_text_def)
    let ?p1 = "etb_cbor_write_map_header [] 4"
    let ?p2 = "?p1 @ etb_cbor_write_text [] ''query''"
    have "etb_cbor_read_map_header (etb_cbor_cursor_init bytes) =
        Inr (4, cursor_at ?p1 (etb_cbor_write_text [] ''query'' @ etb_cbor_write_text [] ''p(?X)'' @ rest))"
      using cbor_map_header.rd_wr [OF TrueI, of "[]" 4] fit by (simp add: cursor_init_eq bytes)
    moreover have "etb_cbor_read_text (cursor_at ?p1 (etb_cbor_write_text [] ''query'' @
        (etb_cbor_write_text [] ''p(?X)'' @ rest))) =
        Inr (''query'', cursor_at ?p2 (etb_cbor_write_text [] ''p(?X)'' @ rest))"
      using fit by (intro cbor_text.rd_wr keys) (simp add: bytes)
    moreover have "etb_cbor_read_text (cursor_at ?p2 (etb_cbor_write_text [] ''p(?X)'' @ rest)) =
        Inr (''p(?X)'', cursor_at (?p2 @ etb_cbor_write_text [] ''p(?X)'') rest)"
      using fit by (intro cbor_text.rd_wr keys) (simp add: bytes)
    moreover note cbor_read_fields.simps(2) [of "''invalid certificate field''" read_field 3]
    ultimately show ?thesis
      by (simp add: etb_certificate_read_bytes_def read_field_def etb_read_atom_text_def bad
          del: bind_res_eq_Inr)
  qed
  then show ?thesis using build by (simp add: Let_def root_def bytes_def)
qed

section \<open>Witnesses\<close>

lemma carried_sample: "carried sample_atom"
proof -
  have "etb_atom_canonical_text sample_atom =
      Inr (''alice says ok(x,42,'' @ [CHR 0x22] @ ''a b'' @ [CHR 0x22] @ '')@7'')" by code_simp
  then show ?thesis using sample_printable by (simp add: carried_def atom_text_def c_text_def)
qed

lemma sample_text: "atom_text sample_atom = ''alice says ok(x,42,'' @ [CHR 0x22] @ ''a b'' @ [CHR 0x22] @ '')@7''"
proof -
  have "etb_atom_canonical_text sample_atom =
      Inr (''alice says ok(x,42,'' @ [CHR 0x22] @ ''a b'' @ [CHR 0x22] @ '')@7'')" by code_simp
  then show ?thesis by (simp add: atom_text_def)
qed

lemma length_write_text: "length (etb_cbor_write_text [] s) \<le> 9 + length s"
  by (simp add: etb_cbor_write_text_def etb_cbor_write_type_value_def Let_def)

lemma fits_sample: "length root \<le> 64 \<Longrightarrow> fits (certificate_bytes sample_atom [sample_atom] [] root)"
  using length_write_text [of root]
  by (simp add: certificate_bytes_def signed_bytes_def fits_def sample_text etb_cbor_write_text_def
      etb_cbor_write_map_header_def etb_cbor_write_array_header_def etb_cbor_write_type_value_def Let_def)

lemma etb_certificate_round_trip_witness:
  "\<exists>c. etb_certificate_build sample_atom [sample_atom] [] = Inr c \<and>
     etb_certificate_read_bytes (ct_cbor c) = Inr (c\<lparr>ct_trace := []\<rparr>)"
proof -
  have ok: "\<forall>a \<in> set [sample_atom]. carried a" "length [sample_atom] * sizeof_etb_atom < 2 ^ 63"
    "length ([] :: etb_trace) < 2 ^ 63"
    using carried_sample by (simp_all add: sizeof_etb_atom_def)
  obtain c where c: "etb_certificate_build sample_atom [sample_atom] [] = Inr c"
    "fits (ct_cbor c) \<longrightarrow> etb_certificate_read_bytes (ct_cbor c) = Inr (c\<lparr>ct_trace := []\<rparr>)"
    using etb_certificate_round_trip [OF carried_sample ok(1,2) trace_ok_Nil ok(3)] by blast
  moreover have "\<forall>a \<in> set (sample_atom # [sample_atom]). \<exists>s. etb_atom_canonical_text a = Inr s"
    using carried_text [OF carried_sample] by auto
  then have "ct_cbor c = certificate_bytes sample_atom [sample_atom] []
      (etb_sha256_hex (signed_bytes sample_atom [sample_atom] []))"
    using certificate_build_eq [OF _ trace_ok_Nil] c(1) by (auto simp: Let_def)
  then have "fits (ct_cbor c)" using fits_sample by (simp add: sha.length_hash)
  ultimately show ?thesis by blast
qed

lemma certificate_root_unchecked_witness:
  "\<exists>c. etb_certificate_read_bytes (certificate_bytes sample_atom [sample_atom] [] ''forged'') = Inr c \<and>
     ct_query c = sample_atom \<and> ct_answers c = [sample_atom] \<and> ct_root_digest c = ''forged''"
  using certificate_root_unchecked [of sample_atom "[sample_atom]" "[]" "''forged''"] carried_sample fits_sample
  by (simp add: sizeof_etb_atom_def c_text_def)

lemma certificate_of_open_query_unreadable_witness:
  "\<exists>c. etb_certificate_build open_query [] [] = Inr c \<and>
     etb_certificate_read_bytes (ct_cbor c) = Inl (Fail ''line 1: unexpected character'')"
proof -
  obtain c where c: "etb_certificate_build open_query [] [] = Inr c"
    "fits (ct_cbor c) \<longrightarrow> etb_certificate_read_bytes (ct_cbor c) = Inl (Fail ''line 1: unexpected character'')"
    using certificate_of_open_query_unreadable [OF _ trace_ok_Nil, of "[]"] by auto
  have qtext: "etb_atom_canonical_text open_query = Inr ''p(?X)''" by code_simp
  let ?root = "etb_sha256_hex (signed_bytes open_query [] [])"
  have "ct_cbor c = certificate_bytes open_query [] [] ?root"
    using certificate_build_eq [OF _ trace_ok_Nil, of open_query "[]"] c(1) qtext by (simp add: Let_def)
  then have "fits (ct_cbor c)"
    using length_write_text [of ?root]
    by (simp add: sha.length_hash certificate_bytes_def signed_bytes_def fits_def atom_text_def qtext
        etb_cbor_write_text_def etb_cbor_write_map_header_def etb_cbor_write_array_header_def
        etb_cbor_write_type_value_def Let_def)
  then show ?thesis using c by blast
qed

end
