(* ===== verification/Daemon.thy ===== *)
theory Daemon
  imports Cert Eval_Invariant
begin

text \<open>
  The local run of \<open>src/runtime/daemon.c\<close>: parse a program, run it, import certificates, run it
  again, query it, and build the certificate of the answers. The files are given by the outcome of
  reading them; the time of the engine and the capability adapters are arguments.

  \<open>daemon_provenance\<close> is the property of the composition: whatever a run certifies is derived,
  node by node, from the program, from capability results and from what the imported certificates
  claim. \<open>daemon_trusts_claims\<close> is the other side of it: claims are believed without a check.
\<close>

section \<open>The run\<close>

definition import_certificate :: "file_read \<Rightarrow> etb_engine \<Rightarrow> etb_engine res" where
  "import_certificate stream engine =
     bind_res (etb_certificate_read_file stream) (\<lambda>imported.
       etb_engine_import_answers engine (ct_answers imported) (Some (ct_root_digest imported)))"

definition etb_daemon_run_local_with_imports ::
    "adapter \<Rightarrow> u64 \<Rightarrow> file_read \<Rightarrow> string \<Rightarrow> file_read list \<Rightarrow> etb_certificate res" where
  "etb_daemon_run_local_with_imports adapter time program_file query_text files =
     bind_res (etb_parse_file program_file) (\<lambda>program.
     bind_res (etb_engine_load_program (etb_engine_init time) program) (\<lambda>engine.
     bind_res (etb_engine_run_fixpoint adapter engine) (\<lambda>engine.
     bind_res (fold_res import_certificate files engine) (\<lambda>engine.
     bind_res (etb_engine_run_fixpoint adapter engine) (\<lambda>engine.
     bind_res (etb_parse_atom_text query_text) (\<lambda>query.
     bind_res (etb_engine_query adapter engine query) (\<lambda>(engine, answers).
       on_fail ''failed to build certificate''
         (etb_certificate_build query (map f_atom answers) (e_trace engine)))))))))"

definition etb_daemon_run_local ::
    "adapter \<Rightarrow> u64 \<Rightarrow> file_read \<Rightarrow> string \<Rightarrow> etb_certificate res" where
  "etb_daemon_run_local adapter time program_file query_text =
     etb_daemon_run_local_with_imports adapter time program_file query_text []"

section \<open>Where the nodes come from\<close>

text \<open>What a certificate claims: its root digest with each of its answers.\<close>

definition claims_of :: "file_read list \<Rightarrow> (string \<times> etb_atom) set" where
  "claims_of files =
     {(root, a). \<exists>stream c. stream \<in> set files \<and> etb_certificate_read_file stream = Inr c \<and>
        root = ct_root_digest c \<and> a \<in> set (ct_answers c)}"

definition node_claimed :: "(string \<times> etb_atom) set \<Rightarrow> etb_trace_node \<Rightarrow> bool" where
  "node_claimed claims node \<longleftrightarrow>
     n_kind node = ETB_TRACE_FACT \<and> n_premises node = [] \<and>
     (\<exists>root. n_evidence_digest node = Some root \<and> (root, n_fact node) \<in> claims)"

definition explained :: "(string \<times> etb_atom) set \<Rightarrow> etb_engine \<Rightarrow> bool" where
  "explained claims e \<longleftrightarrow>
     engine_ok e \<and> (\<forall>node \<in> set (e_trace e). node_justified e node \<or> node_claimed claims node)"

lemma explained_run:
  assumes "explained claims e" and "run_step e e'"
  shows "explained claims e'"
proof -
  have ok: "engine_ok e" "engine_ok e'" "grows e e'" using assms run_step_ok by (auto simp: explained_def)
  obtain new where t: "e_trace e' = e_trace e @ new" using ok(3) by (auto simp: grows_def)
  have "node_justified e' node \<or> node_claimed claims node" if n: "node \<in> set (e_trace e')" for node
  proof -
    obtain i where i: "i < length (e_trace e')" "e_trace e' ! i = node"
      using n by (auto simp: in_set_conv_nth)
    show ?thesis
    proof (cases "i < length (e_trace e)")
      case True
      then have "node \<in> set (e_trace e)" using i t by (auto simp: nth_append)
      then show ?thesis using assms(1) node_justified_grows [OF ok] by (auto simp: explained_def)
    next
      case False
      then show ?thesis using assms(2) i by (auto simp: run_step_def)
    qed
  qed
  then show ?thesis using ok(2) by (simp add: explained_def)
qed

lemma import_answer_nodes:
  assumes "import_answer evidence a e = Inr e'"
  shows "\<exists>node. e_trace e' = e_trace e @ [node] \<and> n_kind node = ETB_TRACE_FACT \<and> n_premises node = [] \<and>
    n_evidence_digest node = evidence \<and> n_fact node = a"
  using assms trace_append_eq by (fastforce simp: import_answer_def import_node_def split: if_splits)

lemma import_answers_explained:
  "explained claims e \<Longrightarrow> \<forall>a \<in> set answers. wf_atom a \<and> unreserved a \<and> (root, a) \<in> claims \<Longrightarrow>
     fold_res (import_answer (Some root)) answers e = Inr e' \<Longrightarrow> explained claims e' \<and> grows e e'"
proof (induction answers arbitrary: e)
  case Nil
  then show ?case by simp
next
  case (Cons a answers)
  then obtain e1 where s: "import_answer (Some root) a e = Inr e1"
    "fold_res (import_answer (Some root)) answers e1 = Inr e'" by auto
  have e: "engine_ok e" using Cons.prems(1) by (simp add: explained_def)
  have one: "engine_ok e1" "grows e e1"
    using import_answer_step [OF e _ _ s(1)] Cons.prems(2) by auto
  obtain node where t: "e_trace e1 = e_trace e @ [node]" "node_claimed claims node"
    using import_answer_nodes [OF s(1)] Cons.prems(2) by (auto simp: node_claimed_def)
  have "explained claims e1"
    using Cons.prems(1) one node_justified_grows [OF e one] t by (auto simp: explained_def)
  then show ?case using Cons.IH [of e1] Cons.prems(2) s(2) grows_trans [OF one(2)] by auto
qed

text \<open>The certificates a run may import: their answers are well formed and use no reserved name.\<close>

definition importable :: "file_read \<Rightarrow> bool" where
  "importable stream \<longleftrightarrow>
     (\<forall>c. etb_certificate_read_file stream = Inr c \<longrightarrow> (\<forall>a \<in> set (ct_answers c). wf_atom a \<and> unreserved a))"

lemma imports_explained:
  "explained claims e \<Longrightarrow> claims_of files \<subseteq> claims \<Longrightarrow> list_all importable files \<Longrightarrow>
     fold_res import_certificate files e = Inr e' \<Longrightarrow> explained claims e' \<and> grows e e'"
proof (induction files arbitrary: e)
  case Nil
  then show ?case by simp
next
  case (Cons stream files)
  then obtain e1 where s: "import_certificate stream e = Inr e1"
    "fold_res import_certificate files e1 = Inr e'" by auto
  obtain c where c: "etb_certificate_read_file stream = Inr c"
    and i: "fold_res (import_answer (Some (ct_root_digest c))) (ct_answers c) e = Inr e1"
    using s(1) by (auto simp: import_certificate_def etb_engine_import_answers_def)
  have "(ct_root_digest c, a) \<in> claims" if "a \<in> set (ct_answers c)" for a
    using Cons.prems(2) c that unfolding claims_of_def by (fastforce simp: subset_iff)
  then have one: "explained claims e1 \<and> grows e e1"
    using import_answers_explained [OF Cons.prems(1) _ i] Cons.prems(3) c by (auto simp: importable_def)
  have "claims_of files \<subseteq> claims" using Cons.prems(2) by (auto simp: claims_of_def)
  then show ?case using Cons.IH [of e1] Cons.prems(3) one s(2) grows_trans by fastforce
qed

section \<open>Provenance of a certificate\<close>

lemma certificate_build_fields:
  assumes "etb_certificate_build query answers trace = Inr c" and "trace_ok trace"
  shows "ct_query c = query \<and> ct_answers c = answers \<and> ct_trace c = trace"
  using assms by (auto simp: etb_certificate_build_def copy_trace_good Let_def map_idI [of answers])

text \<open>
  C5. Provenance. A certificate of the local run carries the trace of an engine on the parsed
  program in which every node is justified by a rule of the program whose body replays, is a
  capability result, or is an answer claimed by an imported certificate, of which it names the
  root; and every answer certified is the query instantiated by matching it with the fact of one
  of these nodes, stored and valid at the time of the run.
\<close>

theorem daemon_provenance:
  assumes run: "etb_daemon_run_local_with_imports adapter time program_file query_text files = Inr c"
    and p: "etb_parse_file program_file = Inr program" "program_ok program"
    and q: "etb_parse_atom_text query_text = Inr query" "wf_atom query"
    and f: "list_all importable files"
  shows "\<exists>e. explained (claims_of files) e \<and> e_program e = program \<and> e_now e = time \<and>
    ct_query c = query \<and> ct_trace c = e_trace e \<and>
    (\<forall>a \<in> set (ct_answers c). \<exists>i bs. premise_ok e \<lparr>l_negated = False, l_atom = query\<rparr> i [] bs \<and>
       etb_instantiate_atom query bs = Inr a)"
proof -
  let ?claims = "claims_of files"
  obtain e0 where e0: "etb_engine_load_program (etb_engine_init time) program = Inr e0" "engine_ok e0"
    "e_program e0 = program" "e_trace e0 = []" "e_now e0 = time"
    using load_program_ok [OF engine_ok_init [of time] p(2)] by (auto simp: etb_engine_init_def)
  obtain e1 e2 e3 e4 answers where r1: "etb_engine_run_fixpoint adapter e0 = Inr e1"
    and i: "fold_res import_certificate files e1 = Inr e2"
    and r2: "etb_engine_run_fixpoint adapter e2 = Inr e3"
    and q': "etb_engine_query adapter e3 query = Inr (e4, answers)"
    and b: "etb_certificate_build query (map f_atom answers) (e_trace e4) = Inr c"
    using run p(1) q(1) e0(1) by (auto simp: etb_daemon_run_local_with_imports_def)
  have "explained ?claims e0" using e0(2,4) by (simp add: explained_def)
  moreover have s1: "run_step e0 e1" using run_fixpoint_step [OF e0(2) r1] by simp
  ultimately have x1: "explained ?claims e1" by (rule explained_run)
  have x2: "explained ?claims e2" "grows e1 e2" using imports_explained [OF x1 subset_refl f i] by auto
  have s3: "run_step e2 e3" using run_fixpoint_step [OF _ r2] x2 by (simp add: explained_def)
  have x3: "explained ?claims e3" by (rule explained_run [OF x2(1) s3])
  have e3: "engine_ok e3" using x3 by (simp add: explained_def)
  note sound = query_run [OF e3 q(2) q']
  have x4: "explained ?claims e4" by (rule explained_run [OF x3]) (use sound in simp)
  have g: "grows e0 e4"
    using run_step_ok [OF s1] x2(2) run_step_ok [OF s3] run_step_ok [of e3 e4] sound grows_trans by blast
  have "trace_ok (e_trace e4)" using x4 by (simp add: explained_def engine_ok_def)
  note fields = certificate_build_fields [OF b this]
  show ?thesis
  proof (intro exI [of _ e4] conjI)
    show "\<forall>a \<in> set (ct_answers c). \<exists>i bs. premise_ok e4 \<lparr>l_negated = False, l_atom = query\<rparr> i [] bs \<and>
       etb_instantiate_atom query bs = Inr a"
      using sound fields by fastforce
  qed (use x4 g e0 fields in \<open>auto simp: grows_def\<close>)
qed

section \<open>Claims are believed\<close>

lemma nullary_carried: "carried (nullary ''p'')"
proof -
  have "etb_atom_canonical_text (nullary ''p'') = Inr ''p''" by code_simp
  moreover have "is_word ''p''" by code_simp
  ultimately show ?thesis
    by (simp add: carried_def printable_atom_def printable_name_def atom_text_def c_text_def nullary_def
        etb_atom_init_def)
qed

lemma bytes_of_string_of_bytes [simp]: "bytes_of_string (string_of_bytes b) = b"
proof -
  have "byte_of_char (char_of_byte x) = x" for x
  proof -
    have "(of_char (char_of (unat x)) :: byte) = of_nat (of_char (char_of (unat x)) :: nat)"
      by (simp only: of_nat_of_char)
    then show ?thesis
      using unsigned_less [of x, where 'a = nat] by (simp add: byte_of_char_def char_of_byte_def)
  qed
  then show ?thesis by (simp add: bytes_of_string_def string_of_bytes_def comp_def)
qed

definition forged_certificate :: file_read where
  "forged_certificate =
     File_bytes (string_of_bytes (certificate_bytes (nullary ''p'') [nullary ''p''] [] ''forged''))"

lemma forged_reads:
  "\<exists>c. etb_certificate_read_file forged_certificate = Inr c \<and> ct_answers c = [nullary ''p''] \<and>
     ct_root_digest c = ''forged''"
proof -
  have t: "atom_text (nullary ''p'') = ''p''"
  proof -
    have "etb_atom_canonical_text (nullary ''p'') = Inr ''p''" by code_simp
    then show ?thesis by (simp add: atom_text_def)
  qed
  have "fits (certificate_bytes (nullary ''p'') [nullary ''p''] [] ''forged'')"
    by (simp add: certificate_bytes_def signed_bytes_def fits_def t etb_cbor_write_text_def
        etb_cbor_write_map_header_def etb_cbor_write_array_header_def etb_cbor_write_type_value_def Let_def)
  then show ?thesis
    using certificate_bytes_reads [of "nullary ''p''" "[nullary ''p'']" "[]" "''forged''"] nullary_carried
    by (simp add: forged_certificate_def etb_certificate_read_file_def sizeof_etb_atom_def c_text_def)
qed

lemma idle_run:
  assumes "e_program e = []" and "e_capabilities e = []"
  shows "etb_engine_run_fixpoint adapter e = Inr e"
proof -
  have "registry_ok (e_capabilities e)" "wf_program (e_program e)" "program_accepted e"
    using assms by (simp_all add: registry_ok_def wf_program_def program_accepted_def)
  then obtain strata where v: "etb_program_validate e = Inr strata" using validate_eq [of e] by auto
  have "fixpoint_pass adapter e = Inr (e, False)"
    using assms by (simp add: fixpoint_pass_def)
  then have "fixpoint_passes adapter 64 e = Inr e"
    using fixpoint_passes.simps(2) [of adapter 63 e] by simp
  then show ?thesis using v by (simp add: etb_engine_run_fixpoint_def del: fixpoint_passes.simps)
qed

lemma daemon_trusts:
  "\<exists>c. etb_daemon_run_local_with_imports adapter time (File_bytes '''') ''p'' [forged_certificate] = Inr c \<and>
     ct_answers c = [nullary ''p'']"
proof -
  let ?e0 = "etb_engine_init time"
  have parse: "etb_parse_file (File_bytes '''') = Inr []" "etb_parse_atom_text ''p'' = Inr (nullary ''p'')"
    by code_simp+
  have load: "etb_engine_load_program ?e0 [] = Inr ?e0"
    by (simp add: etb_engine_load_program_def etb_engine_init_def)
  obtain c where c: "etb_certificate_read_file forged_certificate = Inr c" "ct_answers c = [nullary ''p'']"
    "ct_root_digest c = ''forged''" using forged_reads by blast
  let ?n = "import_node (nullary ''p'') (Some ''forged'')"
  obtain T where T: "etb_trace_append [] ?n = Inr (0, T)"
    using nullary_append [of ?n "''p''" "[]"] by (auto simp: import_node_def)
  let ?f = "\<lparr>f_atom = nullary ''p'', f_trace_id = 0, f_from_capability = False\<rparr>"
  let ?e1 = "?e0\<lparr>e_trace := T, e_relations := [\<lparr>r_key = ''p/0'', r_facts = [?f]\<rparr>]\<rparr>"
  have "import_certificate forged_certificate ?e0 = Inr ?e1"
    using T by (simp add: import_certificate_def c etb_engine_import_answers_def import_answer_def
        etb_engine_init_def etb_relation_set_add_fact_def etb_relation_set_find_def nullary_key
        etb_relation_set_add_relation_def relation_push_fact_def fact_list_contains_def)
  then have claims: "fold_res import_certificate [forged_certificate] ?e0 = Inr ?e1" by simp
  have runs: "etb_engine_run_fixpoint adapter ?e0 = Inr ?e0" "etb_engine_run_fixpoint adapter ?e1 = Inr ?e1"
    by (rule idle_run; simp add: etb_engine_init_def)+
  have query: "etb_engine_query adapter ?e1 (nullary ''p'') = Inr (?e1, [?f])"
    by (simp add: etb_engine_query_def query_answer_def or_skip_def pass_simps etb_engine_init_def)
  have "trace_ok T" using trace_append_ok [OF trace_ok_Nil T] by (simp add: import_node_def)
  moreover have "etb_atom_canonical_text (nullary ''p'') = Inr ''p''" by code_simp
  ultimately obtain d where "etb_certificate_build (nullary ''p'') [nullary ''p''] T = Inr d"
    "ct_answers d = [nullary ''p'']"
    using certificate_build_eq [of "nullary ''p''" "[nullary ''p'']" T] by (auto simp: Let_def)
  then show ?thesis
    unfolding etb_daemon_run_local_with_imports_def parse bind_res_Inr load runs claims query prod.case
    by simp
qed

text \<open>
  Imported claims are believed without a check: with the empty program, a file whose root
  digest is the word \<open>forged\<close> makes the run certify \<open>p\<close>.
\<close>

theorem daemon_trusts_claims:
  "\<exists>c. etb_daemon_run_local_with_imports adapter time (File_bytes '''') ''p'' [forged_certificate] = Inr c \<and>
     ct_answers c = [nullary ''p'']"
  by (rule daemon_trusts)

lemma daemon_provenance_witness:
  "\<exists>e c. etb_daemon_run_local_with_imports (\<lambda>_ _. Spawn_failed) 0 (File_bytes '''') ''p'' [forged_certificate] = Inr c \<and>
     explained (claims_of [forged_certificate]) e \<and> ct_trace c = e_trace e \<and> ct_answers c = [nullary ''p'']"
proof -
  obtain c where c: "etb_daemon_run_local_with_imports (\<lambda>_ _. Spawn_failed) 0 (File_bytes '''') ''p''
      [forged_certificate] = Inr c" "ct_answers c = [nullary ''p'']"
    using daemon_trusts [of "\<lambda>_ _. Spawn_failed" 0] by blast
  have parse: "etb_parse_file (File_bytes '''') = Inr []" "etb_parse_atom_text ''p'' = Inr (nullary ''p'')"
    by code_simp+
  have "program_ok []" "wf_atom (nullary ''p'')" by (simp_all add: program_ok_def wf_program_def)
  moreover have "list_all importable [forged_certificate]"
    using forged_reads by (auto simp: importable_def unreserved_def nullary_key)
  ultimately show ?thesis using daemon_provenance [OF c(1) parse(1) _ parse(2)] c by blast
qed

end
