(* ===== verification/Node.thy ===== *)
theory Node
  imports Wire Daemon
begin

text \<open>
  The node of \<open>src/runtime/distributed.c\<close> above its frames: requests to other nodes, discovery,
  the resolution of the dependencies of a goal, the execution of a query, the handling of a client
  and the announcing of a node to its seeds.

  A function that fills an \<open>error\<close> array, talks to the network and changes the engine and the
  registry file is a \<open>run\<close>: from the state it returns its result and the state it leaves, whether
  it succeeds or fails, or nothing when the fuel of the resolver is spent. The error text is part
  of the state because the code reads it back: a function that fails without writing one leaves
  the text of an earlier failure. The array has 256 bytes.

  The other nodes, the adapters and the prover are arguments (\<open>etb_node\<close>). The telemetry calls
  are left out.
\<close>

section \<open>The state and its runs\<close>

record node_state =
  ns_registry :: "string option"
  ns_calls :: nat
  ns_error :: string
  ns_engine :: etb_engine
  ns_bundles :: etb_bundle_list
  ns_fetched :: "string list"
  ns_visited :: "string list"

type_synonym 'a run = "node_state \<Rightarrow> ('a res \<times> node_state) option"

definition return_run :: "'a \<Rightarrow> 'a run" where
  "return_run a = (\<lambda>st. Some (Inr a, st))"

definition bind_run :: "'a run \<Rightarrow> ('a \<Rightarrow> 'b run) \<Rightarrow> 'b run" where
  "bind_run m f = (\<lambda>st.
     case m st of
       None \<Rightarrow> None
     | Some (Inl e, st) \<Rightarrow> Some (Inl e, st)
     | Some (Inr a, st) \<Rightarrow> f a st)"

definition note_error :: "string \<Rightarrow> node_state \<Rightarrow> node_state" where
  "note_error message st = st\<lparr>ns_error := take 255 message\<rparr>"

text \<open>Failing writes the error text, or leaves the one that is there.\<close>

definition failing :: "etb_error \<Rightarrow> 'a run" where
  "failing e = (\<lambda>st.
     case e of
       Fail message \<Rightarrow>
         let st = (if message = '''' then st else note_error message st)
         in Some (Inl (Fail (ns_error st)), st)
     | _ \<Rightarrow> Some (Inl e, st))"

definition of_res :: "'a res \<Rightarrow> 'a run" where
  "of_res r = (case r of Inl e \<Rightarrow> failing e | Inr a \<Rightarrow> return_run a)"

definition with_state :: "(node_state \<Rightarrow> 'a run) \<Rightarrow> 'a run" where
  "with_state f = (\<lambda>st. f st st)"

definition update_run :: "(node_state \<Rightarrow> node_state) \<Rightarrow> unit run" where
  "update_run f = (\<lambda>st. Some (Inr (), f st))"

text \<open>A call whose failure the caller survives.\<close>

definition attempt :: "'a run \<Rightarrow> 'a option run" where
  "attempt m = (\<lambda>st.
     case m st of
       None \<Rightarrow> None
     | Some (Inr a, st) \<Rightarrow> Some (Inr (Some a), st)
     | Some (Inl e, st) \<Rightarrow> Some (if undefined_behaviour e then Inl e else Inr None, st))"

primrec each_run :: "('a \<Rightarrow> unit run) \<Rightarrow> 'a list \<Rightarrow> unit run" where
  "each_run f [] = return_run ()"
| "each_run f (x # xs) = bind_run (f x) (\<lambda>_. each_run f xs)"

section \<open>Surroundings\<close>

text \<open>
  The prover: whether it accepts a proof of a certificate, and the proof it writes for one. The
  network: what comes of the \<open>n\<close>-th connection to a host and port over which some bytes are sent.
\<close>

record etb_prover =
  pv_verify :: "byte list \<Rightarrow> byte list \<Rightarrow> bool"
  pv_prove :: "byte list \<Rightarrow> byte list option"

datatype net_result = Resolve_failed | Connect_failed | Send_failed | Received "byte list"

record etb_node =
  nd_adapter :: adapter
  nd_time :: u64
  nd_program_file :: file_read
  nd_prover :: "etb_prover option"
  nd_network :: "nat \<Rightarrow> string \<Rightarrow> string \<Rightarrow> byte list \<Rightarrow> net_result"
  nd_writable :: bool

section \<open>Requests to other nodes\<close>

text \<open>
  The bytes of the reply, if there is one: connect, send a frame, receive a frame. Only the failures to
  connect write an error text.
\<close>

definition exchange :: "etb_node \<Rightarrow> string \<Rightarrow> byte list \<Rightarrow> node_state \<Rightarrow> byte list option \<times> node_state" where
  "exchange node endpoint request st =
     (case etb_parse_endpoint endpoint of
        None \<Rightarrow> (None, note_error (''invalid endpoint '' @ [CHR 0x27] @ endpoint @ [CHR 0x27]) st)
      | Some (host, port) \<Rightarrow>
          let reply = nd_network node (ns_calls st) host port (etb_send_message request);
              st = st\<lparr>ns_calls := Suc (ns_calls st)\<rparr>
          in case reply of
               Resolve_failed \<Rightarrow> (None, note_error (''getaddrinfo failed for '' @ endpoint) st)
             | Connect_failed \<Rightarrow> (None, note_error (''failed to connect to '' @ endpoint) st)
             | Send_failed \<Rightarrow> (None, st)
             | Received input \<Rightarrow> (map_option fst (etb_recv_message input), st))"

text \<open>
  \<open>None\<close>: no reply was read, and the outputs were never initialised. A reply that does not decode
  is a failure, with the outputs empty.
\<close>

definition etb_send_request ::
    "etb_node \<Rightarrow> nat \<Rightarrow> string \<Rightarrow> byte list \<Rightarrow>
     (etb_bundle_list \<times> etb_peer_route_map \<times> string) option run" where
  "etb_send_request node endpoint_size endpoint request = (\<lambda>st.
     case exchange node endpoint request st of
       (None, st) \<Rightarrow> Some (Inr None, st)
     | (Some response, st) \<Rightarrow>
         (case etb_decode_response endpoint_size 256 (ns_error st) response of
            Inl e \<Rightarrow> failing e st
          | Inr (bundles, decoded, resolved, error) \<Rightarrow>
              Some (Inr (Some (bundles, decoded, resolved)), st\<lparr>ns_error := error\<rparr>)))"

definition store_routes :: "etb_node \<Rightarrow> etb_peer_route_map \<Rightarrow> unit run" where
  "store_routes node extra = (\<lambda>st.
     case etb_registry_merge_and_save (nd_writable node) (ns_registry st) extra of
       None \<Rightarrow> failing (Fail '''') st
     | Some file \<Rightarrow> Some (Inr (), st\<lparr>ns_registry := Some file\<rparr>))"

definition discover ::
    "etb_node \<Rightarrow> nat \<Rightarrow> string \<Rightarrow> byte list \<Rightarrow> string option run" where
  "discover node endpoint_size endpoint request =
     bind_run (attempt (etb_send_request node endpoint_size endpoint request)) (\<lambda>reply.
     case reply of
       Some (Some (bundles, decoded, resolved)) \<Rightarrow>
         bind_run (attempt (store_routes node decoded)) (\<lambda>stored.
           return_run (if stored = None then None else Some resolved))
     | _ \<Rightarrow> return_run None)"

definition etb_discovery_sync_with_seed :: "etb_node \<Rightarrow> etb_node_context \<Rightarrow> string \<Rightarrow> bool run" where
  "etb_discovery_sync_with_seed node context endpoint =
     bind_run (discover node 8 endpoint (etb_encode_announce_request context)) (\<lambda>r. return_run (r \<noteq> None))"

definition etb_discovery_pull_from_seed :: "etb_node \<Rightarrow> etb_node_context \<Rightarrow> string \<Rightarrow> bool run" where
  "etb_discovery_pull_from_seed node context endpoint =
     bind_run (discover node 256 endpoint (etb_encode_registry_request context)) (\<lambda>r. return_run (r \<noteq> None))"

definition etb_discovery_resolve_with_seed ::
    "etb_node \<Rightarrow> etb_node_context \<Rightarrow> string \<Rightarrow> string \<Rightarrow> string option run" where
  "etb_discovery_resolve_with_seed node context seed_endpoint p =
     bind_run (discover node 256 seed_endpoint (etb_encode_resolve_request context p)) (\<lambda>r.
       return_run (if r = Some '''' then None else r))"

fun try_seeds ::
    "etb_node \<Rightarrow> etb_node_context \<Rightarrow> string \<Rightarrow> string list \<Rightarrow> string option run" where
  "try_seeds node context p [] = return_run None"
| "try_seeds node context p (seed # seeds) =
     bind_run (etb_discovery_resolve_with_seed node context seed p) (\<lambda>r.
       if r \<noteq> None then return_run r else try_seeds node context p seeds)"

text \<open>The endpoint is copied to an array of 256 bytes.\<close>

definition etb_resolve_discovery_endpoint ::
    "etb_node \<Rightarrow> etb_node_context \<Rightarrow> string \<Rightarrow> string run" where
  "etb_resolve_discovery_endpoint node context p = with_state (\<lambda>st.
     case etb_resolve_known_endpoint context (ns_registry st) p of
       Some known \<Rightarrow> return_run (take 255 known)
     | None \<Rightarrow>
         bind_run (try_seeds node context p (nc_seeds context)) (\<lambda>r.
           case r of
             Some resolved \<Rightarrow> return_run resolved
           | None \<Rightarrow> failing (Fail (''no route for principal '' @ [CHR 0x27] @ p @ [CHR 0x27]))))"

text \<open>
  A query to another node. When no reply is read, the code frees a route map that was never
  initialised. The context of the command-line client, which has none, is made up.
\<close>

definition synthetic_context :: etb_node_context where
  "synthetic_context = \<lparr>nc_node_id = ''etbctl'', nc_listen_endpoint = '''', nc_peers = [], nc_seeds = [],
     nc_local_routes = []\<rparr>"

definition etb_remote_query_with_context ::
    "etb_node \<Rightarrow> etb_node_context option \<Rightarrow> string \<Rightarrow> string \<Rightarrow> etb_bundle_list run" where
  "etb_remote_query_with_context node caller_context endpoint query_text =
     (let context = (case caller_context of None \<Rightarrow> synthetic_context | Some c \<Rightarrow> c)
      in bind_run (etb_send_request node 8 endpoint (etb_encode_query_request context query_text)) (\<lambda>reply.
         case reply of
           None \<Rightarrow> failing Uninitialised
         | Some (bundles, _, _) \<Rightarrow> return_run bundles))"

definition etb_remote_query :: "etb_node \<Rightarrow> string \<Rightarrow> string \<Rightarrow> etb_bundle_list run" where
  "etb_remote_query node = etb_remote_query_with_context node None"

section \<open>Bundles of other nodes\<close>

definition etb_bundle_verify_with_prover :: "etb_prover \<Rightarrow> etb_bundle \<Rightarrow> unit res" where
  "etb_bundle_verify_with_prover prover bundle =
     (if bd_proof bundle = [] then
        Inl (Fail (''bundle for '' @
          (case bd_node_id bundle of None \<Rightarrow> ''unknown-node'' | Some n \<Rightarrow> n) @ '' has no proof''))
      else if pv_verify prover (certificate_bytes_of bundle) (bd_proof bundle) then Inr ()
      else Inl (Fail (''prover command '' @ [CHR 0x27] @ ''verify'' @ [CHR 0x27] @ '' failed'')))"

definition etb_prove_certificate :: "etb_prover \<Rightarrow> byte list \<Rightarrow> byte list res" where
  "etb_prove_certificate prover certificate =
     (case pv_prove prover certificate of
        Some proof_bytes \<Rightarrow> Inr proof_bytes
      | None \<Rightarrow> Inl (Fail (''prover command '' @ [CHR 0x27] @ ''prove'' @ [CHR 0x27] @ '' failed'')))"

definition etb_import_remote_bundle :: "etb_node \<Rightarrow> etb_bundle \<Rightarrow> etb_engine \<Rightarrow> etb_engine res" where
  "etb_import_remote_bundle node bundle engine =
     bind_res (case nd_prover node of
                 None \<Rightarrow> Inr ()
               | Some prover \<Rightarrow> etb_bundle_verify_with_prover prover bundle) (\<lambda>_.
     bind_res (etb_certificate_read_bytes (certificate_bytes_of bundle)) (\<lambda>certificate.
       etb_engine_import_answers engine (ct_answers certificate) (Some (ct_root_digest certificate))))"

definition on_engine :: "(etb_engine \<Rightarrow> etb_engine res) \<Rightarrow> unit run" where
  "on_engine f = with_state (\<lambda>st.
     bind_run (of_res (f (ns_engine st))) (\<lambda>engine. update_run (\<lambda>st. st\<lparr>ns_engine := engine\<rparr>)))"

definition query_run_engine :: "etb_node \<Rightarrow> etb_atom \<Rightarrow> etb_fact list run" where
  "query_run_engine node goal = with_state (\<lambda>st.
     bind_run (of_res (etb_engine_query (nd_adapter node) (ns_engine st) goal)) (\<lambda>(engine, answers).
       bind_run (update_run (\<lambda>st. st\<lparr>ns_engine := engine\<rparr>)) (\<lambda>_. return_run answers)))"

section \<open>The dependencies of a goal\<close>

definition unifies_head :: "etb_atom \<Rightarrow> etb_statement \<Rightarrow> bool res" where
  "unifies_head goal statement =
     (case statement of
        ETB_STMT_CAPABILITY _ \<Rightarrow> Inr False
      | ETB_STMT_CLAUSE clause \<Rightarrow>
          bind_res (etb_unify_atom [] (cl_head clause) goal False) (\<lambda>r. Inr (r \<noteq> None)))"

fun etb_program_has_derivation_for_goal :: "etb_statement list \<Rightarrow> etb_atom \<Rightarrow> bool res" where
  "etb_program_has_derivation_for_goal [] goal = Inr False"
| "etb_program_has_derivation_for_goal (s # program) goal =
     bind_res (unifies_head goal s) (\<lambda>found.
       if found then Inr True else etb_program_has_derivation_for_goal program goal)"

text \<open>A query to the principal of a \<open>says\<close> goal, unless the same text was fetched before.\<close>

definition fetch_remote ::
    "etb_node \<Rightarrow> etb_node_context \<Rightarrow> string \<Rightarrow> etb_atom \<Rightarrow> unit run" where
  "fetch_remote node context endpoint instantiated =
     bind_run (of_res (on_fail ''failed to canonicalize remote query''
       (etb_atom_canonical_text instantiated))) (\<lambda>remote_query. with_state (\<lambda>st.
     if etb_string_list_contains (ns_fetched st) remote_query then return_run ()
     else
       bind_run (etb_remote_query_with_context node (Some context) endpoint remote_query)
         (\<lambda>remote_bundles.
       bind_run (each_run (\<lambda>bundle. on_engine (etb_import_remote_bundle node bundle)) remote_bundles) (\<lambda>_.
       bind_run (with_state (\<lambda>st. of_res (etb_bundle_list_append_unique (ns_bundles st) remote_bundles)))
         (\<lambda>bundles.
       bind_run (update_run (\<lambda>st. st\<lparr>ns_bundles := bundles,
         ns_fetched := etb_string_list_add (ns_fetched st) remote_query\<rparr>)) (\<lambda>_.
       on_engine (etb_engine_run_fixpoint (nd_adapter node))))))))"

text \<open>The parser gives every \<open>says\<close> atom a principal; without one the lookup compares a null pointer.\<close>

definition resolve_literal ::
    "(etb_atom \<Rightarrow> unit run) \<Rightarrow> etb_node \<Rightarrow> etb_node_context \<Rightarrow> etb_statement list \<Rightarrow>
     etb_binding_set \<Rightarrow> etb_literal \<Rightarrow> unit run" where
  "resolve_literal resolve_goal node context program bindings literal =
     (if l_negated literal then return_run ()
      else
       bind_run (with_state (\<lambda>st. of_res (etb_literal_is_capability (ns_engine st) literal))) (\<lambda>is_capability.
       if is_capability then return_run ()
       else
       bind_run (of_res (on_fail ''failed to instantiate dependency''
         (etb_instantiate_atom (l_atom literal) bindings))) (\<lambda>instantiated.
       if a_kind instantiated = ETB_ATOM_SAYS then
         (case a_principal instantiated of
            None \<Rightarrow> failing Null_deref
          | Some p \<Rightarrow>
              bind_run (etb_resolve_discovery_endpoint node context p) (\<lambda>endpoint.
                fetch_remote node context endpoint instantiated))
       else
       bind_run (query_run_engine node instantiated) (\<lambda>answers.
       if answers \<noteq> [] then return_run ()
       else
       bind_run (of_res (etb_program_has_derivation_for_goal program instantiated)) (\<lambda>derivable.
         if derivable then resolve_goal instantiated else return_run ())))))"

definition etb_resolve_clause_dependencies ::
    "(etb_atom \<Rightarrow> unit run) \<Rightarrow> etb_node \<Rightarrow> etb_node_context \<Rightarrow> etb_statement list \<Rightarrow>
     etb_atom \<Rightarrow> etb_statement \<Rightarrow> unit run" where
  "etb_resolve_clause_dependencies resolve_goal node context program goal statement =
     (case statement of
        ETB_STMT_CAPABILITY _ \<Rightarrow> return_run ()
      | ETB_STMT_CLAUSE clause \<Rightarrow>
          bind_run (of_res (etb_unify_atom [] (cl_head clause) goal False)) (\<lambda>r.
            case r of
              None \<Rightarrow> return_run ()
            | Some bindings \<Rightarrow>
                each_run (resolve_literal resolve_goal node context program bindings) (cl_body clause)))"

text \<open>
  The mutual recursion of the two functions: the fuel bounds the nesting of goals. Goals that were
  visited are not visited again, by their canonical text.
\<close>

primrec etb_resolve_goal_dependencies ::
    "nat \<Rightarrow> etb_node \<Rightarrow> etb_node_context \<Rightarrow> etb_statement list \<Rightarrow> etb_atom \<Rightarrow> unit run" where
  "etb_resolve_goal_dependencies 0 node context program goal = (\<lambda>st. None)"
| "etb_resolve_goal_dependencies (Suc fuel) node context program goal =
     bind_run (of_res (on_fail ''failed to canonicalize goal'' (etb_atom_canonical_text goal)))
       (\<lambda>goal_text. with_state (\<lambda>st.
     if etb_string_list_contains (ns_visited st) goal_text then return_run ()
     else
       bind_run (update_run (\<lambda>st. st\<lparr>ns_visited := etb_string_list_add (ns_visited st) goal_text\<rparr>)) (\<lambda>_.
       bind_run (query_run_engine node goal) (\<lambda>answers.
       if answers \<noteq> [] then return_run ()
       else each_run (etb_resolve_clause_dependencies
              (etb_resolve_goal_dependencies fuel node context program) node context program goal)
              program))))"

section \<open>The execution of a query\<close>

definition own_bundle ::
    "etb_node \<Rightarrow> etb_node_context \<Rightarrow> string \<Rightarrow> string \<Rightarrow> etb_certificate \<Rightarrow> etb_bundle_list run" where
  "own_bundle node context query_text trace_text certificate =
     bind_run (of_res (case nd_prover node of
                 None \<Rightarrow> Inr []
               | Some prover \<Rightarrow> etb_prove_certificate prover (ct_cbor certificate))) (\<lambda>proof_bytes.
     with_state (\<lambda>st.
       of_res (etb_bundle_list_add_copy (ns_bundles st) (Some (nc_node_id context)) (Some query_text)
         (Some trace_text) (ct_cbor certificate) proof_bytes)))"

definition etb_execute_query ::
    "nat \<Rightarrow> etb_node \<Rightarrow> etb_node_context \<Rightarrow> string \<Rightarrow> etb_bundle_list run" where
  "etb_execute_query fuel node context query_text =
     bind_run (update_run (\<lambda>st. st\<lparr>ns_engine := etb_engine_init (nd_time node), ns_bundles := [],
       ns_fetched := [], ns_visited := []\<rparr>)) (\<lambda>_.
     bind_run (of_res (etb_parse_file (nd_program_file node))) (\<lambda>program.
     bind_run (on_engine (\<lambda>engine. etb_engine_load_program engine program)) (\<lambda>_.
     bind_run (on_engine (etb_engine_run_fixpoint (nd_adapter node))) (\<lambda>_.
     bind_run (of_res (etb_parse_atom_text query_text)) (\<lambda>query.
     bind_run (etb_resolve_goal_dependencies fuel node context program query) (\<lambda>_.
     bind_run (on_engine (etb_engine_run_fixpoint (nd_adapter node))) (\<lambda>_.
     bind_run (query_run_engine node query) (\<lambda>answers.
     bind_run (with_state (\<lambda>st. of_res (etb_trace_render (e_trace (ns_engine st))))) (\<lambda>trace_text.
     if answers = [] then failing (Fail ''query produced no answers'')
     else
     bind_run (with_state (\<lambda>st. of_res (on_fail ''failed to build certificate''
       (etb_certificate_build query (map f_atom answers) (e_trace (ns_engine st)))))) (\<lambda>certificate.
     own_bundle node context query_text trace_text certificate))))))))))"

section \<open>Clients\<close>

text \<open>What is sent to a client: whether the request was served, and the payload.\<close>

definition error_reply :: "string \<Rightarrow> (bool \<times> byte list) run" where
  "error_reply message = return_run (False, etb_response_encode_error message)"

definition ok_reply ::
    "etb_bundle_list \<Rightarrow> etb_peer_route_map \<Rightarrow> string \<Rightarrow> (bool \<times> byte list) run" where
  "ok_reply bundles m resolved_endpoint =
     bind_run (of_res (etb_response_encode_ok bundles m
       (if resolved_endpoint = '''' then None else Some resolved_endpoint))) (\<lambda>payload.
       return_run (True, payload))"

definition ingest_request :: "etb_node \<Rightarrow> etb_node_context \<Rightarrow> etb_request \<Rightarrow> bool run" where
  "ingest_request node context request = (\<lambda>st.
     if rq_routes request \<noteq> [] \<or> (rq_node_id request \<noteq> None \<and> rq_endpoint request \<noteq> None) then
       (case etb_registry_ingest context (nd_writable node) (ns_registry st) (rq_node_id request)
               (rq_endpoint request) (rq_routes request) of
          None \<Rightarrow> Some (Inr False, st)
        | Some file \<Rightarrow> Some (Inr True, st\<lparr>ns_registry := Some file\<rparr>))
     else Some (Inr True, st))"

definition serve_query ::
    "nat \<Rightarrow> etb_node \<Rightarrow> etb_node_context \<Rightarrow> string option \<Rightarrow> (bool \<times> byte list) run" where
  "serve_query fuel node context query_text =
     (case query_text of
        None \<Rightarrow> with_state (\<lambda>st. error_reply (ns_error st))
      | Some text \<Rightarrow>
          bind_run (attempt (etb_execute_query fuel node context text)) (\<lambda>r. with_state (\<lambda>st.
            case r of
              None \<Rightarrow> error_reply (ns_error st)
            | Some bundles \<Rightarrow> ok_reply bundles (etb_registry_snapshot context (ns_registry st)) '''')))"

definition serve_resolve ::
    "etb_node_context \<Rightarrow> string option \<Rightarrow> (bool \<times> byte list) run" where
  "serve_resolve context p = with_state (\<lambda>st.
     let m = etb_registry_snapshot context (ns_registry st)
     in ok_reply [] m (case p of
          None \<Rightarrow> ''''
        | Some p \<Rightarrow> (case etb_peer_route_map_lookup m p of None \<Rightarrow> '''' | Some match \<Rightarrow> take 255 match)))"

definition serve_request ::
    "nat \<Rightarrow> etb_node \<Rightarrow> etb_node_context \<Rightarrow> etb_request \<Rightarrow> (bool \<times> byte list) run" where
  "serve_request fuel node context request =
     bind_run (ingest_request node context request) (\<lambda>ingested.
     if \<not> ingested then error_reply ''failed to update registry''
     else if rq_op request = Some ''query'' then serve_query fuel node context (rq_query_text request)
     else if rq_op request = Some ''announce'' \<or> rq_op request = Some ''registry'' then
       with_state (\<lambda>st. ok_reply [] (etb_registry_snapshot context (ns_registry st)) '''')
     else if rq_op request = Some ''resolve'' then serve_resolve context (rq_principal request)
     else error_reply ''unsupported request'')"

definition receive_request :: "byte list \<Rightarrow> etb_request res" where
  "receive_request input =
     (case etb_recv_message input of
        None \<Rightarrow> Inl (Fail '''')
      | Some (request, _) \<Rightarrow> etb_decode_request request)"

definition etb_handle_client ::
    "nat \<Rightarrow> etb_node \<Rightarrow> etb_node_context \<Rightarrow> byte list \<Rightarrow> (bool \<times> byte list) run" where
  "etb_handle_client fuel node context input =
     bind_run (update_run (\<lambda>st. st\<lparr>ns_error := ''''\<rparr>)) (\<lambda>_.
     bind_run (attempt (of_res (receive_request input))) (\<lambda>r. with_state (\<lambda>st.
     case r of
       None \<Rightarrow> error_reply (if ns_error st = '''' then ''invalid request'' else ns_error st)
     | Some request \<Rightarrow> serve_request fuel node context request)))"

section \<open>Announcing\<close>

text \<open>
  One round over the seeds, with what each of them has answered so far: the node announces itself
  and pulls the registry. At most 20 rounds are made, a second apart, until all have answered or
  a signal asks to stop.
\<close>

type_synonym progress = "(string \<times> bool \<times> bool) list"

fun announce_round :: "etb_node \<Rightarrow> etb_node_context \<Rightarrow> progress \<Rightarrow> progress run" where
  "announce_round node context [] = return_run []"
| "announce_round node context ((seed, announced, pulled) # rest) =
     bind_run (update_run (\<lambda>st. st\<lparr>ns_error := ''''\<rparr>)) (\<lambda>_.
     bind_run (if announced then return_run True else etb_discovery_sync_with_seed node context seed)
       (\<lambda>announced.
     bind_run (update_run (\<lambda>st. st\<lparr>ns_error := ''''\<rparr>)) (\<lambda>_.
     bind_run (if pulled then return_run True else etb_discovery_pull_from_seed node context seed)
       (\<lambda>pulled.
     bind_run (announce_round node context rest) (\<lambda>rest.
       return_run ((seed, announced, pulled) # rest))))))"

definition completed :: "progress \<Rightarrow> bool" where
  "completed = list_all (\<lambda>(_, announced, pulled). announced \<and> pulled)"

function announce_rounds ::
    "(nat \<Rightarrow> bool) \<Rightarrow> etb_node \<Rightarrow> etb_node_context \<Rightarrow> nat \<Rightarrow> progress \<Rightarrow> progress run" where
  "announce_rounds shutdown node context attempts progress =
     (if shutdown attempts \<or> attempts \<ge> 20 then return_run progress
      else bind_run (announce_round node context progress) (\<lambda>progress.
        if completed progress then return_run progress
        else announce_rounds shutdown node context (Suc attempts) progress))"
  by pat_completeness auto

termination
  by (relation "measure (\<lambda>(_, _, _, attempts, _). 20 - attempts)") auto

declare announce_rounds.simps [simp del]

definition etb_discovery_announce_loop ::
    "(nat \<Rightarrow> bool) \<Rightarrow> etb_node \<Rightarrow> etb_node_context \<Rightarrow> progress run" where
  "etb_discovery_announce_loop shutdown node context =
     announce_rounds shutdown node context 0 (map (\<lambda>seed. (seed, False, False)) (nc_seeds context))"

text \<open>The start of a node: its context and the registry file it begins with.\<close>

definition node_start ::
    "etb_node \<Rightarrow> string \<Rightarrow> string \<Rightarrow> etb_peer_route_map \<Rightarrow> string list \<Rightarrow>
     (etb_node_context \<times> string) res" where
  "node_start node node_id listen_endpoint peers seeds =
     bind_res (etb_collect_local_routes (nd_program_file node) listen_endpoint node_id) (\<lambda>local_routes.
     case etb_registry_save (nd_writable node)
            (etb_peer_route_map_merge (etb_peer_route_map_merge [] local_routes) peers) of
       None \<Rightarrow> Inl (Fail ''failed to initialize registry'')
     | Some file \<Rightarrow>
         Inr (\<lparr>nc_node_id = node_id, nc_listen_endpoint = listen_endpoint, nc_peers = peers,
               nc_seeds = seeds, nc_local_routes = local_routes\<rparr>, file))"

end
