(* ===== verification/Resolver.thy ===== *)
theory Resolver
  imports Node
begin

text \<open>
  The resolution of dependencies ends, and what a query certifies is accounted for. The first
  section is the invariant rule of a \<open>run\<close>, in a partial and a total reading, with one rule per
  combinator; the proofs of the resolver follow the shape of its definitions by these rules.
\<close>

section \<open>Runs and invariants\<close>

definition keeps_run :: "bool \<Rightarrow> (node_state \<Rightarrow> bool) \<Rightarrow> 'a run \<Rightarrow> bool" where
  "keeps_run ends I m \<longleftrightarrow>
     (\<forall>st. I st \<longrightarrow> (case m st of None \<Rightarrow> \<not> ends | Some (_, st') \<Rightarrow> I st'))"

named_theorems run_rules \<open>one invariant rule per combinator\<close>

lemma bind_return [simp]: "bind_run (return_run a) f = f a"
  by (simp add: bind_run_def return_run_def)

lemma bind_update [simp]: "bind_run (update_run f) g st = g () (f st)"
  by (simp add: bind_run_def update_run_def)

lemma bind_run_Inr:
  "bind_run m f st = Some (Inr b, st2) \<longleftrightarrow>
     (\<exists>a st1. m st = Some (Inr a, st1) \<and> f a st1 = Some (Inr b, st2))"
  by (auto simp: bind_run_def split: option.splits sum.splits)

lemma keeps_return [run_rules]: "keeps_run ends I (return_run a)"
  by (simp add: keeps_run_def return_run_def)

lemma keeps_bind:
  assumes "keeps_run ends I m"
    and "\<And>a st st'. I st \<Longrightarrow> m st = Some (Inr a, st') \<Longrightarrow> keeps_run ends I (f a)"
  shows "keeps_run ends I (bind_run m f)"
  unfolding keeps_run_def
proof (intro allI impI)
  fix st assume st: "I st"
  have m: "case m st of None \<Rightarrow> \<not> ends | Some (_, st') \<Rightarrow> I st'"
    using assms(1) st by (simp add: keeps_run_def)
  show "case bind_run m f st of None \<Rightarrow> \<not> ends | Some (_, st') \<Rightarrow> I st'"
  proof (cases "m st")
    case None
    then show ?thesis using m by (simp add: bind_run_def)
  next
    case (Some p)
    then obtain r st' where p: "m st = Some (r, st')" "I st'" using m by (cases p) auto
    show ?thesis
    proof (cases r)
      case (Inl e)
      then show ?thesis using p by (simp add: bind_run_def)
    next
      case (Inr a)
      then have "keeps_run ends I (f a)" using assms(2) [OF st] p(1) by simp
      then show ?thesis using p Inr by (simp add: bind_run_def keeps_run_def)
    qed
  qed
qed

lemma keeps_bind_all [run_rules]:
  "keeps_run ends I m \<Longrightarrow> (\<And>a. keeps_run ends I (f a)) \<Longrightarrow> keeps_run ends I (bind_run m f)"
  by (rule keeps_bind)

lemma keeps_if [run_rules]:
  "(c \<Longrightarrow> keeps_run ends I m) \<Longrightarrow> (\<not> c \<Longrightarrow> keeps_run ends I m') \<Longrightarrow>
     keeps_run ends I (if c then m else m')"
  by simp

lemma keeps_with_state [run_rules]: "(\<And>st. keeps_run ends I (f st)) \<Longrightarrow> keeps_run ends I (with_state f)"
  by (simp add: keeps_run_def with_state_def)

lemma keeps_update: "(\<And>st. I st \<Longrightarrow> I (f st)) \<Longrightarrow> keeps_run ends I (update_run f)"
  by (simp add: keeps_run_def update_run_def)

lemma keeps_each [run_rules]:
  "(\<And>x. x \<in> set xs \<Longrightarrow> keeps_run ends I (f x)) \<Longrightarrow> keeps_run ends I (each_run f xs)"
  by (induction xs) (auto intro!: run_rules)

lemma keeps_attempt [run_rules]: "keeps_run ends I m \<Longrightarrow> keeps_run ends I (attempt m)"
  by (fastforce simp: keeps_run_def attempt_def split: option.splits sum.splits)

text \<open>Invariants that do not look at the error text.\<close>

definition ignores_error :: "(node_state \<Rightarrow> bool) \<Rightarrow> bool" where
  "ignores_error I \<longleftrightarrow> (\<forall>st text. I (st\<lparr>ns_error := text\<rparr>) = I st)"

lemma failing_ends: "failing e st = None \<longleftrightarrow> False"
  by (simp add: failing_def Let_def split: etb_error.split)

lemma failing_step: "failing e st = Some (r, st') \<Longrightarrow> ignores_error I \<Longrightarrow> I st \<Longrightarrow> I st'"
  by (auto simp: failing_def ignores_error_def note_error_def Let_def split: etb_error.splits if_splits)

lemma keeps_failing: "ignores_error I \<Longrightarrow> keeps_run ends I (failing e)"
  by (auto simp: ignores_error_def keeps_run_def failing_def note_error_def Let_def split: etb_error.splits)

lemma keeps_of_res: "ignores_error I \<Longrightarrow> keeps_run ends I (of_res r)"
  by (auto simp: of_res_def keeps_failing keeps_return split: sum.splits)

lemma of_res_Inr: "of_res r st = Some (Inr a, st') \<longleftrightarrow> r = Inr a \<and> st' = st"
  by (auto simp: of_res_def failing_def return_run_def Let_def split: sum.splits etb_error.splits)

lemma keeps_bind_res:
  "ignores_error I \<Longrightarrow> (\<And>a. r = Inr a \<Longrightarrow> keeps_run ends I (f a)) \<Longrightarrow>
     keeps_run ends I (bind_run (of_res r) f)"
  by (rule keeps_bind [OF keeps_of_res]) (auto simp: of_res_Inr)

text \<open>
  Invariants of the parts of the state that only the resolver changes, so that talking to other nodes
  keeps them.
\<close>

definition resolver_view :: "(node_state \<Rightarrow> bool) \<Rightarrow> bool" where
  "resolver_view I \<longleftrightarrow> ignores_error I \<and>
     (\<forall>st n. I (st\<lparr>ns_calls := n\<rparr>) = I st) \<and> (\<forall>st f. I (st\<lparr>ns_registry := f\<rparr>) = I st)"

lemma viewI [intro, dest]: "resolver_view I \<Longrightarrow> ignores_error I"
  by (simp add: resolver_view_def)

lemma keeps_exchange:
  assumes "resolver_view I" and "I st"
  shows "I (snd (exchange node endpoint request st))"
  using assms
  by (auto simp: exchange_def note_error_def resolver_view_def ignores_error_def Let_def
      split: option.splits net_result.splits)

lemma keeps_send_request:
  assumes "resolver_view I"
  shows "keeps_run ends I (etb_send_request node esz endpoint request)"
  unfolding keeps_run_def
proof (intro allI impI)
  fix st assume "I st"
  then have ex: "I (snd (exchange node endpoint request st))" using keeps_exchange assms by blast
  have err: "ignores_error I" using assms by blast
  show "case etb_send_request node esz endpoint request st of None \<Rightarrow> \<not> ends | Some (_, st') \<Rightarrow> I st'"
    using ex err failing_step
    by (auto simp: failing_ends etb_send_request_def ignores_error_def split: prod.splits option.splits sum.splits)
qed

lemma keeps_store_routes:
  assumes "resolver_view I"
  shows "keeps_run ends I (store_routes node m)"
  using assms keeps_failing [of I ends "Fail ''''"]
  by (auto simp: keeps_run_def store_routes_def resolver_view_def split: option.splits)

lemma keeps_discover:
  assumes "resolver_view I"
  shows "keeps_run ends I (discover node esz endpoint request)"
  unfolding discover_def
  by (auto intro!: run_rules keeps_send_request keeps_store_routes assms split: option.splits)

lemma keeps_try_seeds: "resolver_view I \<Longrightarrow> keeps_run ends I (try_seeds node context p seeds)"
  by (induction seeds) (auto intro!: run_rules keeps_discover simp: etb_discovery_resolve_with_seed_def)

lemma keeps_resolve_endpoint:
  "resolver_view I \<Longrightarrow> keeps_run ends I (etb_resolve_discovery_endpoint node context p)"
  unfolding etb_resolve_discovery_endpoint_def
  by (auto intro!: run_rules keeps_try_seeds keeps_failing viewI split: option.splits)

lemma keeps_remote_query:
  "resolver_view I \<Longrightarrow> keeps_run ends I (etb_remote_query_with_context node caller endpoint query_text)"
  unfolding etb_remote_query_with_context_def Let_def
  by (auto intro!: run_rules keeps_send_request keeps_failing viewI split: option.splits)

section \<open>Steps on the engine and the lists\<close>

lemma of_res_cases:
  assumes "ignores_error I" and "I st"
  obtains a where "r = Inr a" "of_res r st = Some (Inr a, st)"
  | e st' where "of_res r st = Some (Inl e, st')" "I st'"
proof (cases r)
  case (Inl e)
  then obtain x st' where f: "of_res r st = Some (x, st')"
    by (cases "of_res r st") (auto simp: of_res_def failing_ends)
  have "I st'" using failing_step [OF _ assms] f Inl by (simp add: of_res_def)
  moreover have "\<exists>e'. x = Inl e'" using f Inl
    by (auto simp: of_res_def failing_def Let_def split: etb_error.splits)
  ultimately show thesis using that(2) f by blast
next
  case (Inr a)
  then show thesis using that(1) by (simp add: of_res_def return_run_def)
qed

lemma keeps_on_engine:
  assumes err: "ignores_error I"
    and step: "\<And>st e. I st \<Longrightarrow> f (ns_engine st) = Inr e \<Longrightarrow> I (st\<lparr>ns_engine := e\<rparr>)"
  shows "keeps_run ends I (on_engine f)"
  unfolding keeps_run_def
proof (intro allI impI)
  fix st assume st: "I st"
  show "case on_engine f st of None \<Rightarrow> \<not> ends | Some (_, st') \<Rightarrow> I st'"
    by (rule of_res_cases [OF err st, of "f (ns_engine st)"])
      (use step [OF st] in \<open>auto simp: on_engine_def with_state_def bind_run_def update_run_def\<close>)
qed

lemma keeps_query_engine:
  assumes err: "ignores_error I"
    and step: "\<And>st e answers. I st \<Longrightarrow>
      etb_engine_query (nd_adapter node) (ns_engine st) goal = Inr (e, answers) \<Longrightarrow> I (st\<lparr>ns_engine := e\<rparr>)"
  shows "keeps_run ends I (query_run_engine node goal)"
  unfolding keeps_run_def
proof (intro allI impI)
  fix st assume st: "I st"
  show "case query_run_engine node goal st of None \<Rightarrow> \<not> ends | Some (_, st') \<Rightarrow> I st'"
    by (rule of_res_cases [OF err st, of "etb_engine_query (nd_adapter node) (ns_engine st) goal"])
      (use step [OF st] in
        \<open>auto simp: query_run_engine_def with_state_def bind_run_def update_run_def return_run_def
           split: prod.splits\<close>)
qed

lemma keeps_modify:
  assumes err: "ignores_error I"
    and step: "\<And>st b. I st \<Longrightarrow> g st = Inr b \<Longrightarrow> I (h b st)" and k: "\<And>b. keeps_run ends I (k b)"
  shows "keeps_run ends I (bind_run (with_state (\<lambda>st. of_res (g st))) (\<lambda>b. bind_run (update_run (h b)) (\<lambda>_. k b)))"
  unfolding keeps_run_def
proof (intro allI impI)
  fix st assume st: "I st"
  show "case bind_run (with_state (\<lambda>st. of_res (g st))) (\<lambda>b. bind_run (update_run (h b)) (\<lambda>_. k b)) st of
      None \<Rightarrow> \<not> ends | Some (_, st') \<Rightarrow> I st'"
    by (rule of_res_cases [OF err st, of "g st"])
      (use step [OF st] k in \<open>auto simp: with_state_def bind_run_def update_run_def keeps_run_def\<close>)
qed

section \<open>Instances of the program's atoms\<close>

lemma get_value: "etb_binding_set_get bs x = Inr (Some v) \<Longrightarrow> v \<in> b_value ` set bs"
  by (auto simp: etb_binding_set_get_def find_Some_iff split: option.splits if_splits)

lemma put_values:
  "etb_binding_set_put bs x v = Inr (Some bs') \<Longrightarrow> b_value ` set bs' \<subseteq> b_value ` set bs \<union> {v}"
  by (auto simp: etb_binding_set_put_def split: option.splits if_splits)

lemma unify_terms_values:
  "unify_terms bs ps cs = Inr (Some bs') \<Longrightarrow> b_value ` set bs' \<subseteq> b_value ` set bs \<union> set ps \<union> set cs"
proof (induction bs ps cs rule: unify_terms.induct)
  case (1 bs p ps c cs)
  then obtain bs1 where u: "etb_unify_term bs p c = Inr (Some bs1)" "unify_terms bs1 ps cs = Inr (Some bs')"
    by (auto split: option.splits)
  have "b_value ` set bs1 \<subseteq> b_value ` set bs \<union> {p, c}"
    using u(1) put_values [of bs _ p bs1] put_values [of bs _ c bs1]
    by (auto simp: etb_unify_term_def split: if_splits option.splits)
  moreover have "b_value ` set bs' \<subseteq> b_value ` set bs1 \<union> set ps \<union> set cs"
    using "1.IH" [OF u(1) refl] u(2) by simp
  ultimately show ?case by fastforce
qed auto

lemma unify_atom_values:
  "etb_unify_atom bs p c ig = Inr (Some bs') \<Longrightarrow>
     b_value ` set bs' \<subseteq> b_value ` set bs \<union> set (a_terms p) \<union> set (a_terms c)"
  using unify_terms_values by (fastforce simp: etb_unify_atom_def split: if_splits)

lemma instantiate_terms_values:
  "instantiate_terms bs ts = Inr us \<Longrightarrow> length us = length ts \<and> set us \<subseteq> set ts \<union> b_value ` set bs"
proof -
  let ?f = "\<lambda>source out. bind_res (instantiate_term bs source) (\<lambda>t. Inr (etb_term_list_push out t))"
  have "fold_res ?f ts acc = Inr us \<Longrightarrow>
      length us = length acc + length ts \<and> set us \<subseteq> set acc \<union> set ts \<union> b_value ` set bs" for acc
  proof (induction ts arbitrary: acc)
    case Nil
    then show ?case by simp
  next
    case (Cons t ts)
    then obtain u where u: "instantiate_term bs t = Inr u" "fold_res ?f ts (acc @ [u]) = Inr us"
      by (auto simp: etb_term_list_push_def)
    have "u = t \<or> u \<in> b_value ` set bs"
      using u(1) get_value by (fastforce simp: instantiate_term_def split: option.splits if_splits)
    then show ?case using Cons.IH [OF u(2)] by auto
  qed
  then show "instantiate_terms bs ts = Inr us \<Longrightarrow> ?thesis" by (fastforce simp: instantiate_terms_def)
qed

lemma instantiate_atom_values:
  assumes "etb_instantiate_atom a bs = Inr b"
  shows "b = a\<lparr>a_terms := a_terms b\<rparr> \<and> length (a_terms b) = length (a_terms a) \<and>
    set (a_terms b) \<subseteq> set (a_terms a) \<union> b_value ` set bs"
  using assms instantiate_terms_values
  by (cases a; cases "a_delegation a") (auto simp: etb_instantiate_atom_def etb_atom_init_def; fastforce)

text \<open>The body atoms of a program, the terms it and a query mention, and the goals made of them.\<close>

definition clauses_of :: "etb_statement list \<Rightarrow> etb_clause set" where
  "clauses_of program = {c. ETB_STMT_CLAUSE c \<in> set program}"

definition body_atoms :: "etb_statement list \<Rightarrow> etb_atom set" where
  "body_atoms program = (\<Union>c \<in> clauses_of program. l_atom ` set (cl_body c))"

definition term_pool :: "etb_statement list \<Rightarrow> etb_atom \<Rightarrow> etb_term set" where
  "term_pool program query =
     set (a_terms query) \<union> (\<Union>c \<in> clauses_of program. set (a_terms (cl_head c))) \<union>
     (\<Union>a \<in> body_atoms program. set (a_terms a))"

definition goal_pool :: "etb_statement list \<Rightarrow> etb_atom \<Rightarrow> etb_atom set" where
  "goal_pool program query = insert query
     (\<Union>a \<in> body_atoms program. {a\<lparr>a_terms := ts\<rparr> | ts.
        length ts = length (a_terms a) \<and> set ts \<subseteq> term_pool program query})"

definition goal_texts :: "etb_statement list \<Rightarrow> etb_atom \<Rightarrow> string set" where
  "goal_texts program query = {text. \<exists>a \<in> goal_pool program query. etb_atom_canonical_text a = Inr text}"

lemma finite_clauses [simp]: "finite (clauses_of program)"
proof -
  have "clauses_of program \<subseteq> (\<lambda>s. case s of ETB_STMT_CLAUSE c \<Rightarrow> c) ` set program"
    by (force simp: clauses_of_def)
  then show ?thesis by (rule finite_subset) simp
qed

lemma finite_goal_texts [simp]: "finite (goal_texts program query)"
proof -
  have "finite (body_atoms program)" by (simp add: body_atoms_def)
  moreover from this have T: "finite (term_pool program query)" by (simp add: term_pool_def)
  moreover have "finite {a\<lparr>a_terms := ts\<rparr> | ts. length ts = length (a_terms a) \<and> set ts \<subseteq> term_pool program query}"
    for a :: etb_atom
    using finite_lists_length_eq [OF T, of "length (a_terms a)"]
    by (rule finite_subset [OF _ finite_imageI [of _ "\<lambda>ts. a\<lparr>a_terms := ts\<rparr>"], rotated]) auto
  ultimately have "finite (goal_pool program query)" by (simp add: goal_pool_def)
  moreover have "goal_texts program query \<subseteq> (\<lambda>a. projr (etb_atom_canonical_text a)) ` goal_pool program query"
    by (force simp: goal_texts_def)
  ultimately show ?thesis using finite_surj by blast
qed

lemma goal_pool_terms: "goal \<in> goal_pool program query \<Longrightarrow> set (a_terms goal) \<subseteq> term_pool program query"
  by (auto simp: goal_pool_def term_pool_def)

lemma goal_pool_step:
  assumes "goal \<in> goal_pool program query" and "ETB_STMT_CLAUSE c \<in> set program"
    and "etb_unify_atom [] (cl_head c) goal False = Inr (Some bs)" and "l \<in> set (cl_body c)"
    and "etb_instantiate_atom (l_atom l) bs = Inr a"
  shows "a \<in> goal_pool program query"
proof -
  have c: "c \<in> clauses_of program" using assms(2) by (simp add: clauses_of_def)
  then have l: "l_atom l \<in> body_atoms program" using assms(4) by (auto simp: body_atoms_def)
  have "b_value ` set bs \<subseteq> term_pool program query"
    using unify_atom_values [OF assms(3)] goal_pool_terms [OF assms(1)] c by (fastforce simp: term_pool_def)
  moreover have "set (a_terms (l_atom l)) \<subseteq> term_pool program query"
    using l by (auto simp: term_pool_def)
  ultimately show ?thesis
    using instantiate_atom_values [OF assms(5)] l by (fastforce simp: goal_pool_def)
qed

section \<open>What the resolver keeps\<close>

text \<open>The bundles a reply to a query can bring.\<close>

definition received :: "etb_node \<Rightarrow> etb_bundle \<Rightarrow> bool" where
  "received node b \<longleftrightarrow>
     (\<exists>n host port request input response rest error bundles decoded resolved error'.
        nd_network node n host port request = Received input \<and>
        etb_recv_message input = Some (response, rest) \<and>
        etb_decode_response 8 256 error response = Inr (bundles, decoded, resolved, error') \<and>
        b \<in> set bundles)"

lemma exchange_reply:
  "exchange node endpoint request st = (Some response, st') \<Longrightarrow>
     \<exists>n host port bytes input rest. nd_network node n host port bytes = Received input \<and>
       etb_recv_message input = Some (response, rest)"
  by (fastforce simp: exchange_def Let_def split: option.splits net_result.splits)

lemma remote_query_received:
  assumes "etb_remote_query_with_context node caller endpoint query_text st = Some (Inr bundles, st')"
  shows "list_all (received node) bundles"
proof -
  obtain request response st1 decoded resolved error'
    where "exchange node endpoint request st = (Some response, st1)"
      and "etb_decode_response 8 256 (ns_error st1) response = Inr (bundles, decoded, resolved, error')"
    using assms
    by (auto simp: etb_remote_query_with_context_def Let_def bind_run_Inr etb_send_request_def return_run_def
        failing_def split: prod.splits option.splits sum.splits etb_error.splits)
  moreover from exchange_reply [OF this(1)] obtain n host port bytes input rest
    where "nd_network node n host port bytes = Received input" "etb_recv_message input = Some (response, rest)"
    by blast
  ultimately show ?thesis unfolding list_all_iff received_def by blast
qed

text \<open>
  The contract of an invariant of the resolver: which goals it is good for, and that the engine
  operations and the lists of the state keep it.
\<close>

locale resolver_invariant =
  fixes node :: etb_node and program :: "etb_statement list" and I :: "node_state \<Rightarrow> bool"
    and good :: "etb_atom \<Rightarrow> bool"
  assumes view: "resolver_view I"
    and queried: "I st \<Longrightarrow> good goal \<Longrightarrow>
      etb_engine_query (nd_adapter node) (ns_engine st) goal = Inr (e, answers) \<Longrightarrow> I (st\<lparr>ns_engine := e\<rparr>)"
    and ran: "I st \<Longrightarrow> etb_engine_run_fixpoint (nd_adapter node) (ns_engine st) = Inr e \<Longrightarrow>
      I (st\<lparr>ns_engine := e\<rparr>)"
    and imported: "I st \<Longrightarrow> received node b \<Longrightarrow>
      etb_import_remote_bundle node b (ns_engine st) = Inr e \<Longrightarrow> I (st\<lparr>ns_engine := e\<rparr>)"
    and collected: "I st \<Longrightarrow> list_all (received node) remote \<Longrightarrow>
      etb_bundle_list_append_unique (ns_bundles st) remote = Inr bundles \<Longrightarrow>
      I (st\<lparr>ns_bundles := bundles, ns_fetched := fetched\<rparr>)"
    and visited: "I st \<Longrightarrow> I (st\<lparr>ns_visited := etb_string_list_add (ns_visited st) goal_text\<rparr>)"
    and instances: "good goal \<Longrightarrow> ETB_STMT_CLAUSE c \<in> set program \<Longrightarrow>
      etb_unify_atom [] (cl_head c) goal False = Inr (Some bs) \<Longrightarrow> l \<in> set (cl_body c) \<Longrightarrow>
      etb_instantiate_atom (l_atom l) bs = Inr a \<Longrightarrow> good a"
begin

lemma err: "ignores_error I"
  using view by blast

lemmas keeps_rules = run_rules keeps_failing [OF err] keeps_of_res [OF err]

lemma keeps_run_fixpoint: "keeps_run ends I (on_engine (etb_engine_run_fixpoint (nd_adapter node)))"
  by (rule keeps_on_engine [OF err ran])

lemma keeps_query: "good goal \<Longrightarrow> keeps_run ends I (query_run_engine node goal)"
  by (rule keeps_query_engine [OF err queried])

lemma keeps_fetch: "keeps_run ends I (fetch_remote node nctx endpoint a)"
proof -
  have import: "keeps_run ends I (each_run (\<lambda>b. on_engine (etb_import_remote_bundle node b)) remote)"
    if "list_all (received node) remote" for remote
    using that
    by (intro keeps_each keeps_on_engine [OF err imported]) (auto simp: list_all_iff)
  have collect: "keeps_run ends I
      (bind_run (with_state (\<lambda>st. of_res (etb_bundle_list_append_unique (ns_bundles st) remote))) (\<lambda>bundles.
       bind_run (update_run (\<lambda>st. st\<lparr>ns_bundles := bundles,
         ns_fetched := etb_string_list_add (ns_fetched st) q\<rparr>)) (\<lambda>_.
       on_engine (etb_engine_run_fixpoint (nd_adapter node)))))"
    if "list_all (received node) remote" for remote q
    by (rule keeps_modify [OF err _ keeps_run_fixpoint]) (rule collected [OF _ that])
  show ?thesis
    unfolding fetch_remote_def
    by (rule keeps_bind_all [OF keeps_of_res [OF err]], rule keeps_with_state, rule keeps_if,
        rule keeps_return, rule keeps_bind [OF keeps_remote_query [OF view]],
        rule keeps_bind_all [OF import], erule remote_query_received, rule collect,
        erule remote_query_received)
qed

lemma keeps_literal:
  assumes rec: "\<And>a. good a \<Longrightarrow> keeps_run ends I (rec a)"
    and inst: "\<And>a. etb_instantiate_atom (l_atom l) bs = Inr a \<Longrightarrow> good a"
  shows "keeps_run ends I (resolve_literal rec node nctx program bs l)"
proof -
  have says: "keeps_run ends I (case a_principal a of None \<Rightarrow> failing Null_deref
      | Some p \<Rightarrow> bind_run (etb_resolve_discovery_endpoint node nctx p) (\<lambda>endpoint.
          fetch_remote node nctx endpoint a))" for a
    by (cases "a_principal a")
      (simp_all add: keeps_failing [OF err] keeps_bind_all keeps_resolve_endpoint [OF view] keeps_fetch)
  have ask: "keeps_run ends I (bind_run (query_run_engine node a) (\<lambda>answers.
       if answers \<noteq> [] then return_run ()
       else bind_run (of_res (etb_program_has_derivation_for_goal program a)) (\<lambda>derivable.
         if derivable then rec a else return_run ())))" if "good a" for a
    using that
    by (simp add: keeps_bind_all keeps_query keeps_if keeps_return keeps_of_res [OF err] rec)
  show ?thesis
    unfolding resolve_literal_def
    by (rule keeps_if, rule keeps_return,
        rule keeps_bind_all [OF keeps_with_state [OF keeps_of_res [OF err]]],
        rule keeps_if, rule keeps_return, rule keeps_bind_res [OF err], rule keeps_if, rule says,
        rule ask, rule inst) simp
qed

lemma keeps_clause:
  assumes rec: "\<And>a. good a \<Longrightarrow> keeps_run ends I (rec a)"
    and "good goal" and "s \<in> set program"
  shows "keeps_run ends I (etb_resolve_clause_dependencies rec node nctx program goal s)"
proof (cases s)
  case (ETB_STMT_CLAUSE c)
  have "keeps_run ends I (each_run (resolve_literal rec node nctx program bs) (cl_body c))"
    if "etb_unify_atom [] (cl_head c) goal False = Inr (Some bs)" for bs
    using instances [OF assms(2) _ that] assms(3) ETB_STMT_CLAUSE
    by (intro keeps_each keeps_literal [OF rec]) auto
  then show ?thesis
    by (auto simp: etb_resolve_clause_dependencies_def ETB_STMT_CLAUSE
        intro!: keeps_rules keeps_bind_res [OF err] split: option.split)
qed (simp add: etb_resolve_clause_dependencies_def keeps_return)

lemma keeps_goal: "good goal \<Longrightarrow> keeps_run False I (etb_resolve_goal_dependencies fuel node nctx program goal)"
proof (induction fuel arbitrary: goal)
  case 0
  then show ?case by (simp add: keeps_run_def)
next
  case (Suc fuel)
  have "keeps_run False I (each_run (etb_resolve_clause_dependencies
      (etb_resolve_goal_dependencies fuel node nctx program) node nctx program goal) program)"
    by (intro keeps_each keeps_clause Suc)
  then show ?case
    by (auto intro!: keeps_rules keeps_query Suc.prems keeps_update visited)
qed

end

section \<open>The resolver ends\<close>

text \<open>
  The invariant of the termination proof: some texts are visited. Every nested goal visits one of
  the finitely many goal texts that was not visited before.
\<close>

lemma set_string_list_add [simp]: "set (etb_string_list_add xs s) = insert s (set xs)"
  by (auto simp: etb_string_list_add_def etb_string_list_contains_def list_ex_iff)

interpretation visiting: resolver_invariant node program "\<lambda>st. V \<subseteq> set (ns_visited st)"
    "\<lambda>a. a \<in> goal_pool program query"
  for node program V query
  by unfold_locales (auto simp: resolver_view_def ignores_error_def dest: goal_pool_step)

lemma visit_ends:
  assumes "goal \<in> goal_pool program query" and "card (goal_texts program query - V) < fuel"
  shows "keeps_run True (\<lambda>st. V \<subseteq> set (ns_visited st))
    (etb_resolve_goal_dependencies fuel node nctx program goal)"
  using assms
proof (induction fuel arbitrary: goal V)
  case 0
  then show ?case by simp
next
  case (Suc fuel)
  let ?G = "goal_texts program query" and ?rec = "etb_resolve_goal_dependencies fuel node nctx program"
  show ?case
    unfolding etb_resolve_goal_dependencies.simps
  proof (rule keeps_bind_res)
    fix gt assume "on_fail ''failed to canonicalize goal'' (etb_atom_canonical_text goal) = Inr gt"
    then have t: "gt \<in> ?G" using Suc.prems(1) by (auto simp: goal_texts_def)
    let ?I = "\<lambda>W st. W \<subseteq> set (ns_visited st)"
    have inner: "keeps_run True (?I (insert gt V))
        (bind_run (query_run_engine node goal) (\<lambda>answers. if answers \<noteq> [] then return_run ()
          else each_run (etb_resolve_clause_dependencies ?rec node nctx program goal) program))"
      if "gt \<notin> V"
    proof -
      have "?G - insert gt V \<subset> ?G - V" using t that by blast
      then have "card (?G - insert gt V) < card (?G - V)"
        by (intro psubset_card_mono) simp_all
      then have "card (?G - insert gt V) < fuel" using Suc.prems(2) by simp
      note rec = Suc.IH [OF _ this]
      have "keeps_run True (?I (insert gt V))
          (each_run (etb_resolve_clause_dependencies ?rec node nctx program goal) program)"
        by (intro keeps_each visiting.keeps_clause [where query = query] rec Suc.prems(1))
      then show ?thesis
        by (intro keeps_bind_all visiting.keeps_query [where query = query, OF Suc.prems(1)] keeps_if
            keeps_return)
    qed
    show "keeps_run True (?I V) (with_state (\<lambda>st.
        if etb_string_list_contains (ns_visited st) gt then return_run ()
        else bind_run (update_run (\<lambda>st. st\<lparr>ns_visited := etb_string_list_add (ns_visited st) gt\<rparr>)) (\<lambda>_.
          bind_run (query_run_engine node goal) (\<lambda>answers. if answers \<noteq> [] then return_run ()
            else each_run (etb_resolve_clause_dependencies ?rec node nctx program goal) program))))"
      (is "keeps_run True (?I V) ?m")
      unfolding keeps_run_def
    proof (intro allI impI)
      fix st assume st: "?I V st"
      show "case ?m st of None \<Rightarrow> \<not> True | Some (_, st') \<Rightarrow> ?I V st'"
      proof (cases "gt \<in> set (ns_visited st)")
        case True
        then show ?thesis
          using st by (auto simp: with_state_def return_run_def etb_string_list_contains_def list_ex_iff)
      next
        case False
        then have "gt \<notin> V" using st by blast
        have sub: "insert gt V \<subseteq> set (ns_visited (st\<lparr>ns_visited := etb_string_list_add (ns_visited st) gt\<rparr>))"
          using st by auto
        show ?thesis
          using inner [OF \<open>gt \<notin> V\<close>, unfolded keeps_run_def, rule_format, OF sub] False
          by (auto simp: with_state_def etb_string_list_contains_def list_ex_iff split: option.splits)
      qed
    qed
  qed (auto simp: ignores_error_def)
qed

text \<open>More fuel changes nothing.\<close>

definition le_run :: "'a run \<Rightarrow> 'a run \<Rightarrow> bool" where
  "le_run m m' \<longleftrightarrow> (\<forall>st x. m st = Some x \<longrightarrow> m' st = Some x)"

named_theorems le_rules \<open>monotonicity of the combinators\<close>

lemma le_refl [le_rules]: "le_run m m"
  by (simp add: le_run_def)

lemma le_bind [le_rules]:
  "le_run m m' \<Longrightarrow> (\<And>a. le_run (f a) (f' a)) \<Longrightarrow> le_run (bind_run m f) (bind_run m' f')"
  unfolding le_run_def bind_run_def by (fastforce split: option.splits sum.splits)

lemma le_with_state [le_rules]: "(\<And>st. le_run (f st) (f' st)) \<Longrightarrow> le_run (with_state f) (with_state f')"
  by (simp add: le_run_def with_state_def)

lemma le_if [le_rules]: "le_run m m' \<Longrightarrow> le_run n n' \<Longrightarrow> le_run (if c then m else n) (if c then m' else n')"
  by simp

lemma le_each [le_rules]: "(\<And>x. le_run (f x) (f' x)) \<Longrightarrow> le_run (each_run f xs) (each_run f' xs)"
  by (induction xs) (simp_all add: le_refl le_bind)

lemma le_trans: "le_run a b \<Longrightarrow> le_run b c \<Longrightarrow> le_run a c"
  by (simp add: le_run_def)

lemma le_attempt: "le_run m m' \<Longrightarrow> le_run (attempt m) (attempt m')"
  unfolding le_run_def attempt_def by (fastforce split: option.splits sum.splits)

lemma le_clause:
  assumes "\<And>a. le_run (rec a) (rec' a)"
  shows "le_run (etb_resolve_clause_dependencies rec node nctx program goal s)
    (etb_resolve_clause_dependencies rec' node nctx program goal s)"
proof -
  have "le_run (resolve_literal rec node nctx program bs l) (resolve_literal rec' node nctx program bs l)" for bs l
    unfolding resolve_literal_def by (intro le_rules assms)
  then have "le_run (case r of None \<Rightarrow> return_run ()
        | Some bs \<Rightarrow> each_run (resolve_literal rec node nctx program bs) ls)
      (case r of None \<Rightarrow> return_run ()
        | Some bs \<Rightarrow> each_run (resolve_literal rec' node nctx program bs) ls)" for r ls
    by (cases r) (simp_all add: le_refl le_each)
  then show ?thesis
    by (cases s) (simp_all add: etb_resolve_clause_dependencies_def le_refl le_bind)
qed

lemma le_goal_Suc: "le_run (etb_resolve_goal_dependencies fuel node nctx program goal)
    (etb_resolve_goal_dependencies (Suc fuel) node nctx program goal)"
proof (induction fuel arbitrary: goal)
  case 0
  then show ?case by (simp add: le_run_def)
next
  case (Suc fuel)
  have body: "le_run (each_run (etb_resolve_clause_dependencies
        (etb_resolve_goal_dependencies fuel node nctx program) node nctx program goal) program)
      (each_run (etb_resolve_clause_dependencies
        (etb_resolve_goal_dependencies (Suc fuel) node nctx program) node nctx program goal) program)"
    by (intro le_each le_clause Suc)
  show ?case
    by (subst etb_resolve_goal_dependencies.simps(2), subst etb_resolve_goal_dependencies.simps(2))
      (rule le_bind [OF le_refl], rule le_with_state, rule le_if [OF le_refl], rule le_bind [OF le_refl],
        rule le_bind [OF le_refl], rule le_if [OF le_refl body])
qed

lemma le_goal: "le_run (etb_resolve_goal_dependencies fuel node nctx program goal)
    (etb_resolve_goal_dependencies (fuel + extra) node nctx program goal)"
proof (induction extra)
  case (Suc extra)
  then show ?case using le_trans [OF _ le_goal_Suc] by simp
qed (simp add: le_refl)

lemma le_execute: "le_run (etb_execute_query fuel node nctx query_text)
    (etb_execute_query (fuel + extra) node nctx query_text)"
  unfolding etb_execute_query_def by (intro le_rules le_goal)

abbreviation whatever :: "node_state \<Rightarrow> bool" where
  "whatever \<equiv> \<lambda>_. True"

lemma whatever_view [simp]: "ignores_error whatever" "resolver_view whatever"
  by (simp_all add: ignores_error_def resolver_view_def)

lemma keeps_on_engine_ends: "keeps_run ends whatever (on_engine f)"
  by (rule keeps_on_engine) simp_all

lemma keeps_query_ends: "keeps_run ends whatever (query_run_engine node goal)"
  by (rule keeps_query_engine) simp_all

lemma visit_ends_here:
  "keeps_run True whatever
     (etb_resolve_goal_dependencies (Suc (card (goal_texts program goal))) node nctx program goal)"
  using visit_ends [of goal program goal "{}"]
  by (simp add: goal_pool_def del: etb_resolve_goal_dependencies.simps)

lemma execute_ends: "\<exists>k. keeps_run True whatever (etb_execute_query k node nctx query_text)"
proof -
  define k where "k = (case (etb_parse_file (nd_program_file node), etb_parse_atom_text query_text) of
      (Inr program, Inr query) \<Rightarrow> Suc (card (goal_texts program query)) | _ \<Rightarrow> 0)"
  have k: "keeps_run True whatever (etb_resolve_goal_dependencies k node nctx program query)"
    if "etb_parse_file (nd_program_file node) = Inr program" "etb_parse_atom_text query_text = Inr query"
    for program query
    using visit_ends_here [of program query] that by (simp add: k_def)
  have own: "keeps_run True whatever (own_bundle node nctx query_text trace_text c)" for trace_text c
    unfolding own_bundle_def by (intro keeps_bind_all keeps_with_state keeps_of_res whatever_view)
  have "keeps_run True whatever (etb_execute_query k node nctx query_text)"
    unfolding etb_execute_query_def
    by (rule keeps_bind_all [OF keeps_update [OF TrueI]], rule keeps_bind_res [OF whatever_view(1)],
        rule keeps_bind_all [OF keeps_on_engine_ends], rule keeps_bind_all [OF keeps_on_engine_ends],
        rule keeps_bind_res [OF whatever_view(1)], rule keeps_bind_all [OF k], assumption, assumption)
      (intro keeps_bind_all keeps_on_engine_ends keeps_query_ends keeps_with_state keeps_of_res keeps_if
        keeps_failing own whatever_view)
  then show ?thesis by blast
qed

lemma ends_Some: "keeps_run True whatever m \<Longrightarrow> \<exists>x. m st = Some x"
  by (auto simp: keeps_run_def split: option.splits)

text \<open>
  C6. The resolver ends, whatever the other nodes answer: with one unit of fuel more than the
  program and the goal have goal texts, of which there are finitely many, it gives a result, which
  more fuel does not change; and so the execution of a query ends.
\<close>

theorem etb_execute_query_terminates:
  "(\<exists>x. \<forall>extra. etb_resolve_goal_dependencies (Suc (card (goal_texts program goal)) + extra)
       node nctx program goal st = Some x) \<and> finite (goal_texts program goal) \<and>
   (\<exists>k x. \<forall>extra. etb_execute_query (k + extra) node nctx query_text st = Some x)"
proof (intro conjI)
  obtain x where "etb_resolve_goal_dependencies (Suc (card (goal_texts program goal))) node nctx program goal st = Some x"
    using ends_Some [OF visit_ends_here] by blast
  then have "\<forall>extra. etb_resolve_goal_dependencies (Suc (card (goal_texts program goal)) + extra)
       node nctx program goal st = Some x"
    using le_goal [unfolded le_run_def] by blast
  then show "\<exists>x. \<forall>extra. etb_resolve_goal_dependencies (Suc (card (goal_texts program goal)) + extra)
       node nctx program goal st = Some x" by blast
  obtain k y where "etb_execute_query k node nctx query_text st = Some y"
    using execute_ends ends_Some by blast
  then have "\<forall>extra. etb_execute_query (k + extra) node nctx query_text st = Some y"
    using le_execute [unfolded le_run_def] by blast
  then show "\<exists>k x. \<forall>extra. etb_execute_query (k + extra) node nctx query_text st = Some x" by blast
qed simp

section \<open>What a query rests on\<close>

text \<open>
  A bundle is trusted when no prover is configured, or when its proof of its certificate verifies. The
  remote claims are what the certificates of trusted bundles claim.
\<close>

definition trusted :: "etb_node \<Rightarrow> etb_bundle \<Rightarrow> bool" where
  "trusted node b \<longleftrightarrow>
     (case nd_prover node of
        None \<Rightarrow> True
      | Some prover \<Rightarrow> bd_proof b \<noteq> [] \<and> pv_verify prover (certificate_bytes_of b) (bd_proof b))"

definition remote_claims :: "etb_node \<Rightarrow> (string \<times> etb_atom) set" where
  "remote_claims node =
     {(root, a). \<exists>b c. received node b \<and> trusted node b \<and>
        etb_certificate_read_bytes (certificate_bytes_of b) = Inr c \<and>
        root = ct_root_digest c \<and> a \<in> set (ct_answers c)}"

definition importable_replies :: "etb_node \<Rightarrow> bool" where
  "importable_replies node \<longleftrightarrow>
     (\<forall>b c. received node b \<and> etb_certificate_read_bytes (certificate_bytes_of b) = Inr c \<longrightarrow>
        (\<forall>a \<in> set (ct_answers c). wf_atom a \<and> unreserved a))"

definition carried_over :: "etb_node \<Rightarrow> etb_bundle \<Rightarrow> bool" where
  "carried_over node b \<longleftrightarrow>
     (\<exists>r. received node r \<and> b = r\<lparr>bd_certificate := Some (certificate_bytes_of r)\<rparr>)"

definition accounted :: "etb_node \<Rightarrow> etb_statement list \<Rightarrow> node_state \<Rightarrow> bool" where
  "accounted node program st \<longleftrightarrow>
     explained (remote_claims node) (ns_engine st) \<and> e_program (ns_engine st) = program \<and>
     e_now (ns_engine st) = nd_time node \<and> list_all (carried_over node) (ns_bundles st)"

lemma import_trusted:
  "etb_import_remote_bundle node b e = Inr e' \<Longrightarrow> trusted node b"
  by (auto simp: etb_import_remote_bundle_def trusted_def etb_bundle_verify_with_prover_def
      split: option.splits if_splits)

lemma import_explained:
  assumes "explained (remote_claims node) e" and "received node b" and "importable_replies node"
    and i: "etb_import_remote_bundle node b e = Inr e'"
  shows "explained (remote_claims node) e' \<and> grows e e'"
proof -
  obtain c where c: "etb_certificate_read_bytes (certificate_bytes_of b) = Inr c"
    and f: "fold_res (import_answer (Some (ct_root_digest c))) (ct_answers c) e = Inr e'"
    using i by (auto simp: etb_import_remote_bundle_def etb_engine_import_answers_def)
  have "wf_atom a \<and> unreserved a \<and> (ct_root_digest c, a) \<in> remote_claims node" if "a \<in> set (ct_answers c)" for a
    using assms(2,3) c that import_trusted [OF i]
    unfolding importable_replies_def remote_claims_def by blast
  then show ?thesis using import_answers_explained [OF assms(1) _ f] by blast
qed

lemma append_unique_carried:
  "etb_bundle_list_append_unique bundles remote = Inr bundles' \<Longrightarrow> list_all (carried_over node) bundles \<Longrightarrow>
     list_all (received node) remote \<Longrightarrow> list_all (carried_over node) bundles'"
  unfolding etb_bundle_list_append_unique_def
proof (induction remote arbitrary: bundles)
  case (Cons r remote)
  then obtain bs where a: "add_bundle r bundles = Inr bs" and f: "fold_res add_bundle remote bs = Inr bundles'"
    by auto
  have "bs = bundles \<or> bs = bundles @ [r\<lparr>bd_certificate := Some (certificate_bytes_of r)\<rparr>]"
    using a by (cases r) (auto simp: add_bundle_def etb_bundle_list_add_copy_def split: option.splits if_splits)
  then have "list_all (carried_over node) bs"
    using Cons.prems(2,3) unfolding carried_over_def by auto
  then show ?case using Cons.IH [OF f] Cons.prems(3) by simp
qed simp

lemma instance_wf:
  assumes "wf_program program" and "wf_atom goal" and "ETB_STMT_CLAUSE c \<in> set program"
    and "etb_unify_atom [] (cl_head c) goal False = Inr (Some bs)" and "l \<in> set (cl_body c)"
    and "etb_instantiate_atom (l_atom l) bs = Inr a"
  shows "wf_atom a"
proof -
  have c: "wf_clause c" using assms(1,3) by (fastforce simp: wf_program_def list_all_iff wf_statement_def)
  then have l: "wf_atom (l_atom l)" and h: "wf_atom (cl_head c)"
    using assms(5) by (auto simp: wf_clause_def wf_literal_def list_all_iff)
  have "\<forall>v \<in> b_value ` set bs. wf_term v"
    using unify_atom_values [OF assms(4)] assms(2) h by (fastforce simp: wf_atom_def list_all_iff)
  then have "list_all wf_term (a_terms a)"
    using instantiate_atom_values [OF assms(6)] l by (fastforce simp: wf_atom_def list_all_iff)
  moreover have "a = (l_atom l)\<lparr>a_terms := a_terms a\<rparr>" using instantiate_atom_values [OF assms(6)] by simp
  then obtain ts where "a = (l_atom l)\<lparr>a_terms := ts\<rparr>" by blast
  ultimately show ?thesis using l by (cases "a_kind (l_atom l)") (simp_all add: wf_atom_def)
qed

lemma accounted_run:
  "accounted node program st \<Longrightarrow> run_step (ns_engine st) e \<Longrightarrow> accounted node program (st\<lparr>ns_engine := e\<rparr>)"
  using explained_run run_step_ok by (fastforce simp: accounted_def grows_def explained_def)

interpretation accounting: resolver_invariant node program
    "\<lambda>st. importable_replies node \<and> wf_program program \<longrightarrow> accounted node program st"
    "\<lambda>a. wf_program program \<longrightarrow> wf_atom a"
  for node program
proof unfold_locales
  show "resolver_view (\<lambda>st. importable_replies node \<and> wf_program program \<longrightarrow> accounted node program st)"
    by (simp add: resolver_view_def ignores_error_def accounted_def)
next
  fix st goal e answers
  assume "importable_replies node \<and> wf_program program \<longrightarrow> accounted node program st"
    "wf_program program \<longrightarrow> wf_atom goal"
    "etb_engine_query (nd_adapter node) (ns_engine st) goal = Inr (e, answers)"
  moreover from this have "accounted node program st \<Longrightarrow> wf_atom goal \<Longrightarrow> run_step (ns_engine st) e"
    using query_run by (auto simp: accounted_def explained_def)
  ultimately show "importable_replies node \<and> wf_program program \<longrightarrow>
      accounted node program (st\<lparr>ns_engine := e\<rparr>)"
    using accounted_run by blast
next
  fix st e
  assume "importable_replies node \<and> wf_program program \<longrightarrow> accounted node program st"
    "etb_engine_run_fixpoint (nd_adapter node) (ns_engine st) = Inr e"
  moreover from this have "accounted node program st \<Longrightarrow> run_step (ns_engine st) e"
    using run_fixpoint_step by (auto simp: accounted_def explained_def)
  ultimately show "importable_replies node \<and> wf_program program \<longrightarrow>
      accounted node program (st\<lparr>ns_engine := e\<rparr>)"
    using accounted_run by blast
next
  fix st b e
  assume "importable_replies node \<and> wf_program program \<longrightarrow> accounted node program st" "received node b"
    "etb_import_remote_bundle node b (ns_engine st) = Inr e"
  then show "importable_replies node \<and> wf_program program \<longrightarrow> accounted node program (st\<lparr>ns_engine := e\<rparr>)"
    using import_explained [of node "ns_engine st" b e] by (auto simp: accounted_def grows_def)
next
  fix st remote bundles fetched
  assume "importable_replies node \<and> wf_program program \<longrightarrow> accounted node program st"
    "list_all (received node) remote" "etb_bundle_list_append_unique (ns_bundles st) remote = Inr bundles"
  then show "importable_replies node \<and> wf_program program \<longrightarrow>
      accounted node program (st\<lparr>ns_bundles := bundles, ns_fetched := fetched\<rparr>)"
    using append_unique_carried [of "ns_bundles st" remote bundles node] by (auto simp: accounted_def)
next
  fix goal c bs l a
  assume "wf_program program \<longrightarrow> wf_atom goal" "ETB_STMT_CLAUSE c \<in> set program"
    "etb_unify_atom [] (cl_head c) goal False = Inr (Some bs)" "l \<in> set (cl_body c)"
    "etb_instantiate_atom (l_atom l) bs = Inr a"
  then show "wf_program program \<longrightarrow> wf_atom a" using instance_wf by blast
qed (auto simp: accounted_def)

lemma on_engine_Inr:
  "on_engine f st = Some (Inr u, st') \<longleftrightarrow> (\<exists>e. f (ns_engine st) = Inr e \<and> st' = st\<lparr>ns_engine := e\<rparr>)"
  by (auto simp: on_engine_def with_state_def bind_run_Inr of_res_Inr update_run_def)

lemma query_engine_Inr:
  "query_run_engine node goal st = Some (Inr answers, st') \<longleftrightarrow>
     (\<exists>e. etb_engine_query (nd_adapter node) (ns_engine st) goal = Inr (e, answers) \<and> st' = st\<lparr>ns_engine := e\<rparr>)"
  by (auto simp: query_run_engine_def with_state_def bind_run_Inr of_res_Inr update_run_def return_run_def)

lemma own_bundle_Inr:
  "own_bundle node nctx query_text trace_text c st = Some (Inr bundles, st') \<longleftrightarrow>
     (\<exists>proof_bytes.
        (case nd_prover node of None \<Rightarrow> Inr [] | Some prover \<Rightarrow> etb_prove_certificate prover (ct_cbor c)) = Inr proof_bytes \<and>
        etb_bundle_list_add_copy (ns_bundles st) (Some (nc_node_id nctx)) (Some query_text) (Some trace_text)
          (ct_cbor c) proof_bytes = Inr bundles \<and> st' = st)"
  by (auto simp: own_bundle_def with_state_def bind_run_Inr of_res_Inr)

definition fresh_state :: "etb_node \<Rightarrow> node_state \<Rightarrow> node_state" where
  "fresh_state node st = st\<lparr>ns_engine := etb_engine_init (nd_time node), ns_bundles := [], ns_fetched := [],
     ns_visited := []\<rparr>"

lemma execute_steps:
  assumes "etb_execute_query fuel node nctx query_text st = Some (Inr bundles, st')"
    and "etb_parse_file (nd_program_file node) = Inr program" and "etb_parse_atom_text query_text = Inr query"
  obtains e0 e1 st1 e2 e3 answers trace_text c
  where "etb_engine_load_program (etb_engine_init (nd_time node)) program = Inr e0"
    and "etb_engine_run_fixpoint (nd_adapter node) e0 = Inr e1"
    and "etb_resolve_goal_dependencies fuel node nctx program query
           ((fresh_state node st)\<lparr>ns_engine := e1\<rparr>) = Some (Inr (), st1)"
    and "etb_engine_run_fixpoint (nd_adapter node) (ns_engine st1) = Inr e2"
    and "etb_engine_query (nd_adapter node) e2 query = Inr (e3, answers)" and "answers \<noteq> []"
    and "etb_certificate_build query (map f_atom answers) (e_trace e3) = Inr c"
    and "own_bundle node nctx query_text trace_text c (st1\<lparr>ns_engine := e3\<rparr>) = Some (Inr bundles, st')"
  using assms
  by (auto simp: etb_execute_query_def bind_run_Inr of_res_Inr on_engine_Inr query_engine_Inr update_run_def
      with_state_def fresh_state_def failing_def Let_def split: if_splits)

text \<open>
  C3. Provenance of a query. The certificate a node computes for a query carries the trace of an engine
  on its program in which every node is justified by a rule, is a capability result, or is an answer
  that the certificate of a bundle claims which another node sent and, when a prover is configured,
  whose proof verified; its answers are instances of the query resting on these nodes. The answer
  holds a bundle under the node's name and the query: the computed one, or one that another node sent
  under that name; every other bundle was sent by another node.
\<close>

theorem etb_execute_query_provenance:
  assumes run: "etb_execute_query fuel node nctx query_text st = Some (Inr bundles, st')"
    and p: "etb_parse_file (nd_program_file node) = Inr program" "program_ok program"
    and q: "etb_parse_atom_text query_text = Inr query" "wf_atom query"
    and imp: "importable_replies node"
  shows "\<exists>e (c :: etb_certificate) trace_text proof_bytes. explained (remote_claims node) e \<and> e_program e = program \<and>
    e_now e = nd_time node \<and> ct_query c = query \<and> ct_answers c \<noteq> [] \<and> ct_trace c = e_trace e \<and>
    (\<forall>a \<in> set (ct_answers c). \<exists>i bs. premise_ok e \<lparr>l_negated = False, l_atom = query\<rparr> i [] bs \<and>
       etb_instantiate_atom query bs = Inr a) \<and>
    list_ex (\<lambda>b. etb_bundle_matches b (nc_node_id nctx) query_text) bundles \<and>
    list_all (\<lambda>b. carried_over node b \<or>
      b = \<lparr>bd_node_id = Some (nc_node_id nctx), bd_query_text = Some query_text, bd_trace_text = trace_text,
           bd_certificate = Some (ct_cbor c), bd_proof = proof_bytes\<rparr>) bundles"
proof -
  have wf: "wf_program program" using p(2) by (simp add: program_ok_def)
  obtain e0 e1 st1 e2 e3 answers trace_text c
    where s: "etb_engine_load_program (etb_engine_init (nd_time node)) program = Inr e0"
      "etb_engine_run_fixpoint (nd_adapter node) e0 = Inr e1"
      "etb_resolve_goal_dependencies fuel node nctx program query
         ((fresh_state node st)\<lparr>ns_engine := e1\<rparr>) = Some (Inr (), st1)"
      "etb_engine_run_fixpoint (nd_adapter node) (ns_engine st1) = Inr e2"
      "etb_engine_query (nd_adapter node) e2 query = Inr (e3, answers)" "answers \<noteq> []"
      "etb_certificate_build query (map f_atom answers) (e_trace e3) = Inr c"
      "own_bundle node nctx query_text trace_text c (st1\<lparr>ns_engine := e3\<rparr>) = Some (Inr bundles, st')"
    using execute_steps [OF run p(1) q(1)] by metis
  let ?st0 = "(fresh_state node st)\<lparr>ns_engine := e0\<rparr>"
  have e0: "engine_ok e0" "e_program e0 = program" "e_trace e0 = []" "e_now e0 = nd_time node"
    using load_program_ok [OF engine_ok_init [of "nd_time node"] p(2)] s(1) by (auto simp: etb_engine_init_def)
  have a0: "accounted node program ?st0"
    using e0 by (simp add: accounted_def explained_def fresh_state_def)
  have r1: "run_step e0 e1" using run_fixpoint_step [OF e0(1) s(2)] by simp
  have a1: "accounted node program ((fresh_state node st)\<lparr>ns_engine := e1\<rparr>)"
    using accounted_run [OF a0, of e1] r1 by simp
  have a2: "accounted node program st1"
  proof -
    have "keeps_run False (\<lambda>st. importable_replies node \<and> wf_program program \<longrightarrow> accounted node program st)
        (etb_resolve_goal_dependencies fuel node nctx program query)"
      using q(2) by (intro accounting.keeps_goal) simp
    from this [unfolded keeps_run_def, rule_format, of "(fresh_state node st)\<lparr>ns_engine := e1\<rparr>"]
    show ?thesis using a1 s(3) imp wf by (simp del: etb_resolve_goal_dependencies.simps)
  qed
  have r2: "run_step (ns_engine st1) e2"
    using run_fixpoint_step [OF _ s(4)] a2 by (simp add: accounted_def explained_def)
  note a3 = accounted_run [OF a2 r2]
  have e2: "engine_ok e2" using a3 by (simp add: accounted_def explained_def)
  note sound = query_run [OF e2 q(2) s(5)]
  have a4: "accounted node program (st1\<lparr>ns_engine := e3\<rparr>)"
    using accounted_run [OF a3, of e3] sound by simp
  then have "trace_ok (e_trace e3)" by (simp add: accounted_def explained_def engine_ok_def)
  note fields = certificate_build_fields [OF s(7) this]
  obtain proof_bytes where b: "etb_bundle_list_add_copy (ns_bundles st1) (Some (nc_node_id nctx))
      (Some query_text) (Some trace_text) (ct_cbor c) proof_bytes = Inr bundles"
    using s(8) by (auto simp: own_bundle_Inr)
  let ?own = "\<lparr>bd_node_id = Some (nc_node_id nctx), bd_query_text = Some query_text,
      bd_trace_text = Some trace_text, bd_certificate = Some (ct_cbor c), bd_proof = proof_bytes\<rparr>"
  have "list_all (carried_over node) (ns_bundles st1)" using a2 by (simp add: accounted_def)
  moreover have "bundles = ns_bundles st1 \<and> list_ex (\<lambda>b. etb_bundle_matches b (nc_node_id nctx) query_text) bundles \<or>
      bundles = ns_bundles st1 @ [?own]"
    using b by (auto simp: etb_bundle_list_add_copy_def split: if_splits)
  ultimately have "list_ex (\<lambda>b. etb_bundle_matches b (nc_node_id nctx) query_text) bundles"
    "list_all (\<lambda>b. carried_over node b \<or> b = ?own) bundles"
    by (auto simp: list_all_iff list_ex_iff etb_bundle_matches_def)
  moreover have "\<forall>a \<in> set (ct_answers c). \<exists>i bs. premise_ok e3 \<lparr>l_negated = False, l_atom = query\<rparr> i [] bs \<and>
       etb_instantiate_atom query bs = Inr a"
    using sound fields by fastforce
  moreover have "explained (remote_claims node) e3" "e_program e3 = program" "e_now e3 = nd_time node"
    using a4 by (simp_all add: accounted_def)
  moreover have "ct_query c = query" "ct_trace c = e_trace e3" "ct_answers c \<noteq> []"
    using fields s(6) by simp_all
  ultimately show ?thesis
    by (intro exI [of _ e3] exI [of _ c] exI [of _ "Some trace_text"] exI [of _ proof_bytes] conjI)
qed

section \<open>Witnesses\<close>

text \<open>A node without neighbours, on the program of the evaluation example.\<close>

definition idle_state :: node_state where
  "idle_state = \<lparr>ns_registry = None, ns_calls = 0, ns_error = '''', ns_engine = etb_engine_init 0,
     ns_bundles = [], ns_fetched = [], ns_visited = []\<rparr>"

definition lone_node :: etb_node where
  "lone_node = \<lparr>nd_adapter = \<lambda>_ _. Spawn_failed, nd_time = 0,
     nd_program_file = File_bytes (''q.'' @ [CHR 0x0A] @ ''p :- q.''), nd_prover = None,
     nd_network = \<lambda>_ _ _ _. Connect_failed, nd_writable = True\<rparr>"

lemma lone_node_simps [simp]:
  "nd_adapter lone_node = (\<lambda>_ _. Spawn_failed)" "nd_time lone_node = 0" "nd_prover lone_node = None"
  "\<not> received lone_node b"
  by (simp_all add: lone_node_def received_def)

lemma lone_parse:
  "etb_parse_file (nd_program_file lone_node) = Inr (e_program chain_engine)"
  "etb_parse_atom_text ''p'' = Inr (nullary ''p'')"
proof -
  have "etb_parse_file (File_bytes (''q.'' @ [CHR 0x0A] @ ''p :- q.'')) = Inr (e_program chain_engine)"
    by code_simp
  then show "etb_parse_file (nd_program_file lone_node) = Inr (e_program chain_engine)"
    by (simp add: lone_node_def)
  show "etb_parse_atom_text ''p'' = Inr (nullary ''p'')" by code_simp
qed

lemma chain_run_again:
  assumes "etb_engine_run_fixpoint adapter chain_engine = Inr e" and "fixpoint_pass adapter e = Inr (e, False)"
  shows "etb_engine_run_fixpoint adapter e = Inr e" "e_capabilities e = []" "engine_ok e"
proof -
  have g: "grows chain_engine e" "engine_ok e"
    using run_fixpoint_step [OF chain_engine_ok assms(1)] run_step_ok by auto
  then show "e_capabilities e = []" "engine_ok e" by (simp_all add: grows_def chain_engine_def etb_engine_init_def)
  have p: "e_program e = e_program chain_engine" using g(1) by (simp add: grows_def)
  obtain strata where "etb_program_validate chain_engine = Inr strata" using chain_accepted by blast
  then have c: "program_accepted chain_engine"
    using validate_eq [of chain_engine] chain_engine_ok
    by (auto simp: engine_ok_def program_ok_def split: if_splits)
  have "program_accepted e"
    using c p \<open>e_capabilities e = []\<close>
    by (auto simp: program_accepted_def clause_accepted_def negation_supported_def chain_engine_def
        etb_engine_init_def unit_clause_def chain_clause_def)
  then obtain strata' where v: "etb_program_validate e = Inr strata'"
    using validate_eq [of e] g(2) by (auto simp: engine_ok_def program_ok_def)
  have "fixpoint_passes adapter 64 e = Inr e"
    using fixpoint_passes.simps(2) [of adapter 63 e] assms(2) by simp
  then show "etb_engine_run_fixpoint adapter e = Inr e"
    using v by (simp add: etb_engine_run_fixpoint_def del: fixpoint_passes.simps)
qed

text \<open>The certificate and the rendered trace of its answer.\<close>

definition chain_trace :: "string \<Rightarrow> string \<Rightarrow> etb_trace" where
  "chain_trace d0 d1 =
     [(head_node (unit_clause ''q'') 0 (nullary ''q'') [])\<lparr>n_id := 0, n_digest_hex := d0\<rparr>,
      (head_node chain_clause 1 (nullary ''p'') [0])\<lparr>n_id := 1, n_digest_hex := d1\<rparr>]"

lemma chain_certificate:
  assumes "trace_ok (chain_trace d0 d1)"
  shows "\<exists>c. etb_certificate_build (nullary ''p'') [nullary ''p''] (chain_trace d0 d1) = Inr c \<and>
    ct_answers c = [nullary ''p''] \<and> etb_certificate_read_bytes (ct_cbor c) = Inr (c\<lparr>ct_trace := []\<rparr>)"
proof -
  have text_p: "etb_atom_canonical_text (nullary ''p'') = Inr ''p''" by code_simp
  have p: "carried (nullary ''p'')"
  proof -
    have "printable_atom (nullary ''p'')" by code_simp
    then show ?thesis by (simp add: carried_def atom_text_def text_p c_text_def)
  qed
  have hash: "\<exists>b. d0 = etb_sha256_hex b" "\<exists>b. d1 = etb_sha256_hex b"
    using node_digest_hash [OF assms, of "hd (chain_trace d0 d1)"]
      node_digest_hash [OF assms, of "last (chain_trace d0 d1)"]
    by (simp_all add: chain_trace_def)
  let ?d = "map n_digest_hex (chain_trace d0 d1)"
  let ?root = "etb_sha256_hex (signed_bytes (nullary ''p'') [nullary ''p''] ?d)"
  have d: "?d = [d0, d1]" "length d0 = 64" "length d1 = 64" "c_text d0" "c_text d1" "c_text ?root"
    using hash by (auto simp: chain_trace_def sha.length_hash c_text_def sha.hash_no_nul)
  have "fits (certificate_bytes (nullary ''p'') [nullary ''p''] ?d ?root)"
    using length_write_text [of ?root] length_write_text [of d0] length_write_text [of d1] d(2,3)
    by (simp add: d(1) certificate_bytes_def signed_bytes_def fits_def atom_text_def text_p sha.length_hash
        etb_cbor_write_text_def etb_cbor_write_map_header_def etb_cbor_write_array_header_def
        etb_cbor_write_type_value_def Let_def)
  then have "etb_certificate_read_bytes (certificate_bytes (nullary ''p'') [nullary ''p''] ?d ?root) =
    Inr \<lparr>ct_query = nullary ''p'', ct_answers = [nullary ''p''], ct_trace = [], ct_root_digest = take 64 ?root,
         ct_cbor = certificate_bytes (nullary ''p'') [nullary ''p''] ?d ?root\<rparr>"
    using p d by (intro certificate_bytes_reads) (simp_all add: sizeof_etb_atom_def)
  then show ?thesis
    using certificate_build_eq [of "nullary ''p''" "[nullary ''p'']", OF _ assms] text_p
    by (simp add: Let_def sha.hash_take)
qed

lemma chain_rendered: "\<exists>rendered. etb_trace_render (chain_trace d0 d1) = Inr rendered \<and> c_text rendered"
proof -
  have "etb_atom_canonical_text (nullary ''p'') = Inr ''p''" "etb_atom_canonical_text (nullary ''q'') = Inr ''q''"
    "dec 0 = ''0''" "dec 1 = ''1''" "render_premises [0] = ''#0''"
    by code_simp+
  then show ?thesis
    by (simp add: etb_trace_render_def render_node_def chain_trace_def head_node_def unit_clause_def
        chain_clause_def c_text_def etb_trace_kind_name_def)
qed

lemma lone_execute:
  "\<exists>rendered c st'. etb_execute_query 1 lone_node sample_context ''p'' st =
       Some (Inr [\<lparr>bd_node_id = Some ''n'', bd_query_text = Some ''p'', bd_trace_text = Some rendered,
         bd_certificate = Some (ct_cbor c), bd_proof = []\<rparr>], st') \<and>
     c_text rendered \<and> ct_answers c = [nullary ''p''] \<and>
     etb_certificate_read_bytes (ct_cbor c) = Inr (c\<lparr>ct_trace := []\<rparr>) \<and> ns_registry st' = ns_registry st"
proof -
  let ?A = "\<lambda>_ _. Spawn_failed" and ?P = "e_program chain_engine"
  obtain e d0 d1 where r: "etb_engine_run_fixpoint ?A chain_engine = Inr e"
    and rels: "e_relations e = chain_relations 2" and idle: "fixpoint_pass ?A e = Inr (e, False)"
    and trace: "e_trace e = chain_trace d0 d1"
    using chain_run unfolding chain_trace_def by blast
  note e = chain_run_again [OF r idle]
  let ?f = "\<lparr>f_atom = nullary ''p'', f_trace_id = 1, f_from_capability = False\<rparr>"
  have q: "etb_engine_query ?A e (nullary ''p'') = Inr (e, [?f])" by (rule chain_query [OF rels e(2)])
  have load: "etb_engine_load_program (etb_engine_init 0) ?P = Inr chain_engine"
    by code_simp
  have text_p: "etb_atom_canonical_text (nullary ''p'') = Inr ''p''" by code_simp
  have tr: "trace_ok (e_trace e)" using e(3) by (simp add: engine_ok_def)
  obtain c where c: "etb_certificate_build (nullary ''p'') [nullary ''p''] (e_trace e) = Inr c"
      "ct_answers c = [nullary ''p'']" "etb_certificate_read_bytes (ct_cbor c) = Inr (c\<lparr>ct_trace := []\<rparr>)"
    using chain_certificate tr trace by auto
  obtain rendered where t: "etb_trace_render (e_trace e) = Inr rendered" "c_text rendered"
    using chain_rendered trace by auto
  have resolve: "etb_resolve_goal_dependencies (Suc 0) lone_node sample_context ?P (nullary ''p'') s =
      Some (Inr (), s\<lparr>ns_visited := [''p'']\<rparr>)" if "ns_engine s = e" "ns_visited s = []" for s
    using that q text_p
    by (simp add: of_res_def with_state_def query_run_engine_def etb_string_list_contains_def
        etb_string_list_add_def return_run_def bind_run_def update_run_def)
  have "etb_bundle_list_add_copy [] (Some n) (Some u) (Some v) w pb =
      Inr [\<lparr>bd_node_id = Some n, bd_query_text = Some u, bd_trace_text = Some v, bd_certificate = Some w,
        bd_proof = pb\<rparr>]" for n u v w pb
    by (simp add: etb_bundle_list_add_copy_def)
  then have "\<exists>st'. etb_execute_query 1 lone_node sample_context ''p'' st =
      Some (Inr [\<lparr>bd_node_id = Some (nc_node_id sample_context), bd_query_text = Some ''p'',
        bd_trace_text = Some rendered, bd_certificate = Some (ct_cbor c), bd_proof = []\<rparr>], st') \<and>
      ns_registry st' = ns_registry st"
    by (simp add: etb_execute_query_def bind_run_Inr of_res_Inr on_engine_Inr query_engine_Inr own_bundle_Inr
        with_state_def update_run_def lone_parse load r e(1) q t(1) c(1) resolve del: etb_resolve_goal_dependencies.simps)
  moreover have "nc_node_id sample_context = ''n''" by (simp add: sample_context_def)
  ultimately show ?thesis using c(2,3) t(2) by metis
qed

lemma etb_execute_query_provenance_witness:
  "\<exists>bundles st' e. etb_execute_query 1 lone_node sample_context ''p'' idle_state = Some (Inr bundles, st') \<and>
     explained (remote_claims lone_node) e \<and>
     list_ex (\<lambda>b. etb_bundle_matches b (nc_node_id sample_context) ''p'') bundles"
proof -
  obtain bundles st' where x: "etb_execute_query 1 lone_node sample_context ''p'' idle_state = Some (Inr bundles, st')"
    using lone_execute by blast
  have "program_ok (e_program chain_engine)" using chain_engine_ok by (simp add: engine_ok_def)
  moreover have "importable_replies lone_node" by (simp add: importable_replies_def)
  ultimately show ?thesis
    using etb_execute_query_provenance [OF x lone_parse(1) _ lone_parse(2)] x by (metis nullary_simps(5))
qed

end
