(* ===== verification/Discovery.thy ===== *)
theory Discovery
  imports Resolver
begin

text \<open>
  What nodes tell each other. A node that asks a seed for a principal gets the endpoint that the
  seed's registry gives it; a remote query brings the bundles of the reply, or fails with its error
  text; and a node that retries its announcement reaches every seed that answers in time.
\<close>

section \<open>Replies\<close>

text \<open>A peer that answers a request: whatever was read before, these bytes come over the connection.\<close>

definition replies :: "etb_node \<Rightarrow> nat \<Rightarrow> string \<Rightarrow> byte list \<Rightarrow> byte list \<Rightarrow> bool" where
  "replies node n endpoint request response \<longleftrightarrow>
     (\<exists>host port rest. etb_parse_endpoint endpoint = Some (host, port) \<and>
        nd_network node n host port (etb_send_message request) =
          Received (etb_send_message response @ rest) \<and> length response < 2 ^ 32)"

lemma recv_short: "length response < 2 ^ 32 \<Longrightarrow> etb_recv_message (etb_send_message response @ rest) = Some (response, rest)"
  using recv_send by blast

lemma exchange_replies:
  "replies node (ns_calls st) endpoint request response \<Longrightarrow>
     exchange node endpoint request st = (Some response, st\<lparr>ns_calls := Suc (ns_calls st)\<rparr>)"
  using recv_short by (fastforce simp: exchange_def replies_def Let_def)

lemma remote_query_eq:
  "etb_remote_query_with_context node caller endpoint query_text st =
    (let ctx = (case caller of None \<Rightarrow> synthetic_context | Some c \<Rightarrow> c) in
     case exchange node endpoint (etb_encode_query_request ctx query_text) st of
       (None, st) \<Rightarrow> Some (Inl Uninitialised, st)
     | (Some response, st) \<Rightarrow>
         (case etb_decode_response 8 256 (ns_error st) response of
            Inl e \<Rightarrow> failing e st
          | Inr (bundles, _, _, error) \<Rightarrow> Some (Inr bundles, st\<lparr>ns_error := error\<rparr>)))"
  by (auto simp: etb_remote_query_with_context_def etb_send_request_def bind_run_def failing_def return_run_def
      Let_def split: option.splits prod.splits sum.splits etb_error.splits)


section \<open>Asking a seed\<close>

lemma plain_text: "plain_route r \<Longrightarrow> c_text (pr_principal r) \<and> c_text (pr_endpoint r)"
  by (simp add: plain_route_def c_text_def)

lemma plain_publishable: "list_all plain_route m \<Longrightarrow> filter publishable m = m"
  by (intro filter_True) (auto simp: list_all_iff publishable_def etb_route_is_publishable_def plain_route_def)

lemma snapshot_after_ingest:
  assumes ctx: "context_ok ctx" and r: "routes_ok request_routes"
    and plain: "list_all plain_route (etb_registry_load file)" "list_all plain_route (nc_local_routes ctx)"
      "list_all plain_route (nc_peers ctx)" "plain_route \<lparr>pr_principal = n, pr_endpoint = ep\<rparr>"
      "list_all plain_route request_routes"
    and file': "file' = etb_registry_ingest ctx True file (Some n) (Some ep) request_routes"
  shows "list_all plain_route (etb_registry_snapshot ctx file')"
    and "routes_ok (etb_registry_snapshot ctx file')"
    and "etb_registry_load file' =
      registry_update (Some n) (Some ep) request_routes (etb_registry_snapshot ctx file)"
proof -
  let ?m = "registry_update (Some n) (Some ep) request_routes (etb_registry_snapshot ctx file)"
  have p: "list_all plain_route ?m" using plain by (intro list_all_update list_all_snapshot) auto
  moreover have "routes_ok ?m" by (intro routes_ok_update routes_ok_snapshot)
  ultimately show l: "etb_registry_load file' = ?m"
    by (simp add: file' etb_registry_ingest_def load_save)
  show "list_all plain_route (etb_registry_snapshot ctx file')"
    using p plain by (intro list_all_snapshot) (simp_all add: l)
  show "routes_ok (etb_registry_snapshot ctx file')" by (rule routes_ok_snapshot)
qed

lemma plain_texts: "list_all plain_route m \<Longrightarrow> routes_ok m \<Longrightarrow> length m < 2 ^ 63 \<Longrightarrow> texts_ok m"
  using plain_text by (auto simp: texts_ok_def list_all_iff)

lemma ok_reply_eq:
  "ok_reply [] m ep st = Some (Inr (True, response_bytes_of True '''' [] m (if ep = '''' then None else Some ep)), st)"
  using encode_ok_eq [of "[]"] by (simp add: ok_reply_def of_res_def return_run_def bind_run_def)

text \<open>The answer of a seed to each kind of discovery request, and the registry it leaves.\<close>

lemma handle_client_serves:
  assumes "etb_recv_message input = Some (payload, rest)" and "etb_decode_request payload = Inr request"
  shows "etb_handle_client fuel node ctx input st = serve_request fuel node ctx request (st\<lparr>ns_error := ''''\<rparr>)"
  using assms
  by (simp add: etb_handle_client_def receive_request_def of_res_def attempt_def return_run_def bind_run_def
      update_run_def with_state_def)

lemma serve_resolve_eq:
  assumes "nd_writable node"
    and "etb_registry_ingest ctx True (ns_registry st) (Some n) (Some ep) [] = Some file"
  shows "serve_request fuel node ctx (etb_request_init\<lparr>rq_op := Some ''resolve'', rq_node_id := Some n,
      rq_endpoint := Some ep, rq_principal := Some p\<rparr>) st =
    (let m = etb_registry_snapshot ctx (Some file) in
     Some (Inr (True, response_bytes_of True '''' [] m
       (case etb_peer_route_map_lookup m p of None \<Rightarrow> None
        | Some match \<Rightarrow> if take 255 match = '''' then None else Some (take 255 match))),
       st\<lparr>ns_registry := Some file\<rparr>))"
  using assms
  by (simp add: serve_request_def ingest_request_def serve_resolve_def with_state_def bind_run_def ok_reply_eq
      Let_def etb_request_init_def split: option.split)

lemma discover_reply:
  assumes "replies node (ns_calls st) endpoint request response" and "nd_writable node"
    and "etb_decode_response esz 256 (ns_error st) response = Inr (bundles, decoded, resolved, error)"
  shows "\<exists>st'. discover node esz endpoint request st = Some (Inr (Some resolved), st')"
  using assms exchange_replies [OF assms(1)]
  by (auto simp: discover_def bind_run_def attempt_def etb_send_request_def store_routes_def return_run_def
      etb_registry_merge_and_save_def etb_registry_save_def)


section \<open>Announcing until it works\<close>

text \<open>Replies that do not attack the decoder, and a seed that answers every call from some number on.\<close>

definition harmless :: "etb_node \<Rightarrow> bool" where
  "harmless node \<longleftrightarrow>
     (\<forall>n host port bytes input response rest esz error.
        nd_network node n host port bytes = Received input \<and>
        etb_recv_message input = Some (response, rest) \<longrightarrow>
        safe (etb_decode_response esz 256 error response))"

definition answers_from :: "etb_node \<Rightarrow> nat \<Rightarrow> string \<Rightarrow> bool" where
  "answers_from node k seed \<longleftrightarrow>
     (\<exists>host port. etb_parse_endpoint seed = Some (host, port) \<and>
       (\<forall>n bytes. k \<le> n \<longrightarrow> (\<exists>input response rest.
          nd_network node n host port bytes = Received input \<and>
          etb_recv_message input = Some (response, rest) \<and>
          (\<forall>esz error. \<exists>r. etb_decode_response esz 256 error response = Inr r))))"

lemma exchange_calls:
  "ns_calls (snd (exchange node endpoint request st)) =
     (if etb_parse_endpoint endpoint = None then ns_calls st else Suc (ns_calls st))"
  by (auto simp: exchange_def note_error_def Let_def split: option.splits net_result.splits)

lemma exchange_harmless:
  "harmless node \<Longrightarrow> exchange node endpoint request st = (Some response, st') \<Longrightarrow>
     safe (etb_decode_response esz 256 error response)"
proof -
  assume h: "harmless node" and x: "exchange node endpoint request st = (Some response, st')"
  obtain n host port bytes input rest where "nd_network node n host port bytes = Received input"
    "etb_recv_message input = Some (response, rest)"
    using exchange_reply [OF x] by blast
  then show ?thesis using h unfolding harmless_def by blast
qed

lemma exchange_answers:
  assumes "answers_from node k endpoint" and "k \<le> ns_calls st"
  shows "\<exists>response st'. exchange node endpoint request st = (Some response, st') \<and>
    (\<forall>esz error. \<exists>r. etb_decode_response esz 256 error response = Inr r)"
proof -
  obtain host port where e: "etb_parse_endpoint endpoint = Some (host, port)"
    and a: "\<forall>n bytes. k \<le> n \<longrightarrow> (\<exists>input response rest.
          nd_network node n host port bytes = Received input \<and>
          etb_recv_message input = Some (response, rest) \<and>
          (\<forall>esz error. \<exists>r. etb_decode_response esz 256 error response = Inr r))"
    using assms(1) by (auto simp: answers_from_def)
  obtain input response rest where "nd_network node (ns_calls st) host port (etb_send_message request) = Received input"
    "etb_recv_message input = Some (response, rest)"
    "\<forall>esz error. \<exists>r. etb_decode_response esz 256 error response = Inr r"
    using a assms(2) by blast
  then show ?thesis using e by (simp add: exchange_def Let_def)
qed

lemma failing_calls: "failing e st = Some (r, st') \<Longrightarrow> ns_calls st' = ns_calls st"
  by (auto simp: failing_def note_error_def Let_def split: etb_error.splits if_splits)

lemma send_request_step:
  assumes "harmless node"
  shows "\<exists>r st'. attempt (etb_send_request node esz endpoint request) st = Some (Inr r, st') \<and>
    ns_calls st' = (if etb_parse_endpoint endpoint = None then ns_calls st else Suc (ns_calls st)) \<and>
    (\<forall>k. answers_from node k endpoint \<and> k \<le> ns_calls st \<longrightarrow> (\<exists>reply. r = Some (Some reply)))"
proof -
  obtain reply st1 where x: "exchange node endpoint request st = (reply, st1)" by fastforce
  have calls: "ns_calls st1 = (if etb_parse_endpoint endpoint = None then ns_calls st else Suc (ns_calls st))"
    using exchange_calls [of node endpoint request st] x by simp
  have ans: "\<exists>response. reply = Some response \<and> (\<forall>esz error. \<exists>r. etb_decode_response esz 256 error response = Inr r)"
    if "answers_from node k endpoint" "k \<le> ns_calls st" for k
    using exchange_answers [OF that, of request] x by auto
  show ?thesis
  proof (cases reply)
    case None
    then show ?thesis using x calls ans by (auto simp: attempt_def etb_send_request_def)
  next
    case (Some response)
    have safe: "safe (etb_decode_response esz 256 (ns_error st1) response)"
      using exchange_harmless assms x Some by blast
    show ?thesis
    proof (cases "etb_decode_response esz 256 (ns_error st1) response")
      case (Inl e)
      then obtain message where "e = Fail message" using safe safe_Inl by auto
      moreover have "\<not> (answers_from node k endpoint \<and> k \<le> ns_calls st)" for k
      proof
        assume "answers_from node k endpoint \<and> k \<le> ns_calls st"
        then obtain response' where "reply = Some response'"
          "\<forall>esz error. \<exists>r. etb_decode_response esz 256 error response' = Inr r"
          using ans by blast
        then obtain r where "etb_decode_response esz 256 (ns_error st1) response = Inr r" using Some by blast
        then show False using Inl by simp
      qed
      ultimately show ?thesis
        using x calls Some Inl
        by (auto simp: attempt_def etb_send_request_def failing_def note_error_def undefined_behaviour_def Let_def)
    next
      case (Inr r)
      then show ?thesis using x calls Some
        by (cases r) (auto simp: attempt_def etb_send_request_def)
    qed
  qed
qed

lemma discover_step:
  assumes "harmless node" and "nd_writable node"
  shows "\<exists>r st'. discover node esz endpoint request st = Some (Inr r, st') \<and>
    ns_calls st' = (if etb_parse_endpoint endpoint = None then ns_calls st else Suc (ns_calls st)) \<and>
    (\<forall>k. answers_from node k endpoint \<and> k \<le> ns_calls st \<longrightarrow> r \<noteq> None)"
proof -
  obtain r st1 where s: "attempt (etb_send_request node esz endpoint request) st = Some (Inr r, st1)"
    "ns_calls st1 = (if etb_parse_endpoint endpoint = None then ns_calls st else Suc (ns_calls st))"
    "\<forall>k. answers_from node k endpoint \<and> k \<le> ns_calls st \<longrightarrow> (\<exists>reply. r = Some (Some reply))"
    using send_request_step [OF assms(1), of esz endpoint request st] by (elim exE conjE) (rule that)
  have store: "attempt (store_routes node decoded) st1 = Some (Inr (Some ()), st1\<lparr>ns_registry :=
      etb_registry_merge_and_save True (ns_registry st1) decoded\<rparr>)" for decoded
    using assms(2) by (simp add: attempt_def store_routes_def etb_registry_merge_and_save_def etb_registry_save_def)
  show ?thesis
  proof (cases "\<exists>reply. r = Some (Some reply)")
    case True
    then obtain bundles decoded resolved where r: "r = Some (Some (bundles, decoded, resolved))" by auto
    have "discover node esz endpoint request st = Some (Inr (Some resolved), st1\<lparr>ns_registry :=
        etb_registry_merge_and_save True (ns_registry st1) decoded\<rparr>)"
      using s(1) store [of decoded] r by (simp add: discover_def bind_run_def return_run_def)
    then show ?thesis using s(2) by simp
  next
    case False
    then have "discover node esz endpoint request st = Some (Inr None, st1)"
      using s(1) by (cases r) (auto simp: discover_def bind_run_def return_run_def split: option.splits)
    then show ?thesis using s(2,3) False by simp
  qed
qed

text \<open>What one round does to the progress of a seed.\<close>

definition advances :: "etb_node \<Rightarrow> nat \<Rightarrow> string \<times> bool \<times> bool \<Rightarrow> string \<times> bool \<times> bool \<Rightarrow> bool" where
  "advances node calls = (\<lambda>(seed, a, p) (seed', a', p').
     seed' = seed \<and> (a \<longrightarrow> a') \<and> (p \<longrightarrow> p') \<and> (\<forall>k \<le> calls. answers_from node k seed \<longrightarrow> a' \<and> p'))"

lemma advances_mono: "advances node n x y \<Longrightarrow> m \<le> n \<Longrightarrow> advances node m x y"
proof -
  assume a: "advances node n x y" and le: "m \<le> n"
  have "k \<le> m \<Longrightarrow> k \<le> n" for k using le by simp
  then show ?thesis using a by (cases x; cases y) (auto simp: advances_def)
qed

definition pending :: "string \<times> bool \<times> bool \<Rightarrow> bool" where
  "pending = (\<lambda>(seed, a, p). etb_parse_endpoint seed \<noteq> None \<and> \<not> (a \<and> p))"

lemma visit_seed:
  assumes "harmless node" and "nd_writable node"
  shows "\<exists>r st'. (if already then return_run True
        else bind_run (discover node esz seed request) (\<lambda>r. return_run (r \<noteq> None)))
          (st\<lparr>ns_error := ''''\<rparr>) = Some (Inr r, st') \<and>
    ns_calls st \<le> ns_calls st' \<and> (already \<longrightarrow> r) \<and>
    (\<forall>k \<le> ns_calls st. answers_from node k seed \<longrightarrow> r) \<and>
    (etb_parse_endpoint seed \<noteq> None \<and> \<not> already \<longrightarrow> ns_calls st < ns_calls st')"
proof -
  have calls: "ns_calls (st\<lparr>ns_error := ''''\<rparr>) = ns_calls st" by simp
  obtain r st' where d: "discover node esz seed request (st\<lparr>ns_error := ''''\<rparr>) = Some (Inr r, st')"
    "ns_calls st' = (if etb_parse_endpoint seed = None then ns_calls st else Suc (ns_calls st))"
    "\<forall>k. answers_from node k seed \<and> k \<le> ns_calls st \<longrightarrow> r \<noteq> None"
    using discover_step [OF assms, of esz seed request "st\<lparr>ns_error := ''''\<rparr>"]
    unfolding calls by (elim exE conjE) (rule that)
  show ?thesis
  proof (cases already)
    case True
    then show ?thesis
      by (intro exI [of _ True] exI [of _ "st\<lparr>ns_error := ''''\<rparr>"]) (simp add: return_run_def)
  next
    case False
    then show ?thesis
      using d by (intro exI [of _ "r \<noteq> None"] exI [of _ st']) (auto simp: bind_run_def return_run_def)
  qed
qed

lemma announce_round_step:
  assumes h: "harmless node" "nd_writable node"
  shows "\<exists>progress' st'. announce_round node ctx progress st = Some (Inr progress', st') \<and>
    list_all2 (advances node (ns_calls st)) progress progress' \<and> ns_calls st \<le> ns_calls st' \<and>
    (list_ex pending progress \<longrightarrow> ns_calls st < ns_calls st')"
proof (induction progress arbitrary: st)
  case Nil
  then show ?case by (simp add: return_run_def)
next
  case (Cons x rest)
  obtain seed a p where x: "x = (seed, a, p)" by (cases x)
  let ?clear = "\<lambda>st :: node_state. st\<lparr>ns_error := ''''\<rparr>"
  obtain a' st1 where s1: "(if a then return_run True else etb_discovery_sync_with_seed node ctx seed) (?clear st) =
      Some (Inr a', st1)" "ns_calls st \<le> ns_calls st1" "a \<longrightarrow> a'"
      "\<forall>k \<le> ns_calls st. answers_from node k seed \<longrightarrow> a'"
      "etb_parse_endpoint seed \<noteq> None \<and> \<not> a \<longrightarrow> ns_calls st < ns_calls st1"
    using visit_seed [OF h, of a 8 seed "etb_encode_announce_request ctx" st, folded etb_discovery_sync_with_seed_def]
    by (elim exE conjE) (rule that)
  obtain p' st2 where s2: "(if p then return_run True else etb_discovery_pull_from_seed node ctx seed) (?clear st1) =
      Some (Inr p', st2)" "ns_calls st1 \<le> ns_calls st2" "p \<longrightarrow> p'"
      "\<forall>k \<le> ns_calls st1. answers_from node k seed \<longrightarrow> p'"
      "etb_parse_endpoint seed \<noteq> None \<and> \<not> p \<longrightarrow> ns_calls st1 < ns_calls st2"
    using visit_seed [OF h, of p 256 seed "etb_encode_registry_request ctx" st1, folded etb_discovery_pull_from_seed_def]
    by (elim exE conjE) (rule that)
  obtain rest' st3 where s3: "announce_round node ctx rest st2 = Some (Inr rest', st3)"
      "list_all2 (advances node (ns_calls st2)) rest rest'" "ns_calls st2 \<le> ns_calls st3"
      "list_ex pending rest \<longrightarrow> ns_calls st2 < ns_calls st3"
    using Cons.IH [of st2] by blast
  have "announce_round node ctx (x # rest) st = Some (Inr ((seed, a', p') # rest'), st3)"
    using s1(1) s2(1) s3(1) by (simp add: x bind_run_def return_run_def update_run_def split: if_splits)
  moreover have "\<forall>k \<le> ns_calls st. answers_from node k seed \<longrightarrow> a' \<and> p'"
  proof (intro allI impI)
    fix k assume k: "k \<le> ns_calls st" "answers_from node k seed"
    then have "k \<le> ns_calls st1" using s1(2) by simp
    then show "a' \<and> p'" using k s1(4) s2(4) by simp
  qed
  then have "advances node (ns_calls st) x (seed, a', p')"
    using s1(3) s2(3) by (simp add: advances_def x)
  moreover have "list_all2 (advances node (ns_calls st)) rest rest'"
    using s3(2) by (rule list_all2_mono) (use advances_mono s1(2) s2(2) in \<open>blast intro: le_trans\<close>)
  moreover have "list_ex pending (x # rest) \<longrightarrow> ns_calls st < ns_calls st3"
    using s1(2,5) s2(2,5) s3(3,4) by (auto simp: pending_def x)
  ultimately show ?case using s1(2) s2(2) s3(3) by auto
qed

text \<open>
  The seeds answered so far, and for every seed that is still pending as many calls as there were
  rounds: the invariant of the retry loop.
\<close>

definition on_track :: "etb_node \<Rightarrow> nat \<Rightarrow> string list \<Rightarrow> progress \<Rightarrow> node_state \<Rightarrow> bool" where
  "on_track node attempts seeds progress st \<longleftrightarrow>
     map fst progress = seeds \<and> (list_ex pending progress \<longrightarrow> attempts \<le> ns_calls st)"

definition reached :: "etb_node \<Rightarrow> nat \<Rightarrow> string \<times> bool \<times> bool \<Rightarrow> bool" where
  "reached node k = (\<lambda>(seed, announced, pulled). answers_from node k seed \<longrightarrow> announced \<and> pulled)"

lemma advances_fst: "list_all2 (advances node n) xs ys \<Longrightarrow> map fst ys = map fst xs"
  by (induction rule: list_all2_induct) (auto simp: advances_def)

lemma advances_pending: "advances node n x y \<Longrightarrow> pending y \<Longrightarrow> pending x"
  by (auto simp: advances_def pending_def)

lemma announce_rounds_reach:
  assumes h: "harmless node" "nd_writable node"
  shows "on_track node attempts seeds progress st \<Longrightarrow> attempts \<le> 20 \<Longrightarrow>
    attempts = 20 \<longrightarrow> list_all (reached node 19) progress \<Longrightarrow>
    \<exists>progress' st'. announce_rounds (\<lambda>_. False) node ctx attempts progress st = Some (Inr progress', st') \<and>
      map fst progress' = seeds \<and> list_all (reached node 19) progress'"
proof (induction "20 - attempts" arbitrary: attempts progress st)
  case 0
  then show ?case by (subst announce_rounds.simps) (simp add: return_run_def on_track_def)
next
  case (Suc k)
  then have lt: "attempts < 20" by simp
  obtain progress1 st1 where r: "announce_round node ctx progress st = Some (Inr progress1, st1)"
    "list_all2 (advances node (ns_calls st)) progress progress1" "ns_calls st \<le> ns_calls st1"
    "list_ex pending progress \<longrightarrow> ns_calls st < ns_calls st1"
    using announce_round_step [OF h] by blast
  have f: "map fst progress1 = seeds"
    using advances_fst [OF r(2)] Suc.prems(1) by (simp add: on_track_def)
  have pend: "list_ex pending progress" if "list_ex pending progress1"
    using r(2) that advances_pending
    by (induction rule: list_all2_induct) auto
  have unfold: "announce_rounds (\<lambda>_. False) node ctx attempts progress st =
      (if completed progress1 then Some (Inr progress1, st1)
       else announce_rounds (\<lambda>_. False) node ctx (Suc attempts) progress1 st1)"
    by (subst announce_rounds.simps) (use lt r(1) in \<open>simp add: bind_run_def return_run_def\<close>)
  show ?case
  proof (cases "completed progress1")
    case True
    then have "list_all (reached node 19) progress1"
      by (auto simp: completed_def reached_def list_all_iff)
    then show ?thesis using unfold True f by simp
  next
    case False
    have track: "on_track node (Suc attempts) seeds progress1 st1"
      using f r(4) pend Suc.prems(1) by (auto simp: on_track_def)
    moreover have "Suc attempts = 20 \<longrightarrow> list_all (reached node 19) progress1"
    proof
      assume last: "Suc attempts = 20"
      show "list_all (reached node 19) progress1"
      proof (cases "list_ex pending progress")
        case True
        then have "19 \<le> ns_calls st" using Suc.prems(1) last by (simp add: on_track_def)
        show ?thesis
          using r(2) by (induction rule: list_all2_induct)
            (use \<open>19 \<le> ns_calls st\<close> in \<open>auto simp: advances_def reached_def\<close>)
      next
        case False
        then have "\<not> list_ex pending progress1" using pend by blast
        then show ?thesis
          by (auto simp: list_ex_iff list_all_iff pending_def reached_def answers_from_def)
      qed
    qed
    ultimately show ?thesis
      using Suc.hyps(1) [of "Suc attempts" progress1 st1] Suc.hyps(2) lt unfold False by simp
  qed
qed


section \<open>Witnesses\<close>


definition asking_context :: etb_node_context where
  "asking_context = \<lparr>nc_node_id = ''a'', nc_listen_endpoint = ''h:1'', nc_peers = [], nc_seeds = [''h:2''],
     nc_local_routes = []\<rparr>"


definition eager_node :: etb_node where
  "eager_node = lone_node\<lparr>nd_network :=
     \<lambda>_ _ _ _. Received (etb_send_message (response_bytes_of True '''' [] [] None))\<rparr>"


end
