(* ===== verification/Serve.thy ===== *)
theory Serve
  imports Discovery
begin

text \<open>
  The life of a node, \<open>etb_node_serve\<close> of \<open>src/runtime/distributed.c\<close>: the start, and the loop that
  accepts connections until a signal asks it to stop. The loop and the signal are two actors that
  share a flag and a descriptor, so the node is a step relation: any number of signals, returns of
  \<open>accept\<close> and of \<open>fork\<close>, in any order.

  A connection that was accepted is handed to a child process, which runs \<open>etb_handle_client\<close> of
  Node on what comes over it; the state records the connections handed over and those lost.
\<close>

section \<open>The start\<close>

text \<open>What comes of the sockets: the address of the endpoint resolves, and one of the results can be bound.\<close>

datatype listen_result = Listen_unresolved | Listen_unbound | Listening

definition etb_listen_endpoint :: "(string \<Rightarrow> string \<Rightarrow> listen_result) \<Rightarrow> string \<Rightarrow> unit res" where
  "etb_listen_endpoint sockets endpoint =
     (case etb_parse_endpoint endpoint of
        None \<Rightarrow> Inl (Fail (''invalid endpoint '' @ [CHR 0x27] @ endpoint @ [CHR 0x27]))
      | Some (host, port) \<Rightarrow>
          (case sockets host port of
             Listen_unresolved \<Rightarrow> Inl (Fail (''getaddrinfo failed for '' @ endpoint))
           | Listen_unbound \<Rightarrow> Inl (Fail (''failed to listen on '' @ endpoint))
           | Listening \<Rightarrow> Inr ()))"

text \<open>
  The flag the signal sets, whether the signal handler knows the listening socket, whether that
  socket is open, the announcing child if there is one and whether it was told to stop, the
  connections, and the result once the loop is left.
\<close>

datatype announcer = No_announcer | Announcing | Told_to_stop

record 'c serve_state =
  sv_shutdown :: bool
  sv_signal_fd :: bool
  sv_open :: bool
  sv_announcer :: announcer
  sv_clients :: "'c list"
  sv_lost :: "'c list"
  sv_result :: "unit res option"

definition etb_node_start ::
    "(string \<Rightarrow> string \<Rightarrow> listen_result) \<Rightarrow> bool \<Rightarrow> etb_node \<Rightarrow> string \<Rightarrow> string \<Rightarrow>
     etb_peer_route_map \<Rightarrow> string list \<Rightarrow> (etb_node_context \<times> string \<times> 'c serve_state) res" where
  "etb_node_start sockets forked node node_id listen_endpoint peers seeds =
     bind_res (node_start node node_id listen_endpoint peers seeds) (\<lambda>(nctx, registry).
     bind_res (etb_listen_endpoint sockets listen_endpoint) (\<lambda>_.
       Inr (nctx, registry,
         \<lparr>sv_shutdown = False, sv_signal_fd = True, sv_open = True,
          sv_announcer = (if seeds \<noteq> [] \<and> forked then Announcing else No_announcer),
          sv_clients = [], sv_lost = [], sv_result = None\<rparr>)))"

section \<open>The loop\<close>

definition etb_handle_shutdown_signal :: "'c serve_state \<Rightarrow> 'c serve_state" where
  "etb_handle_shutdown_signal st =
     (let st = st\<lparr>sv_shutdown := True\<rparr>
      in if sv_signal_fd st then st\<lparr>sv_open := False, sv_signal_fd := False\<rparr> else st)"

definition stop_announcer :: "announcer \<Rightarrow> announcer" where
  "stop_announcer a = (if a = Announcing then Told_to_stop else a)"

definition leave_loop :: "'c serve_state \<Rightarrow> 'c serve_state" where
  "leave_loop st = st\<lparr>sv_announcer := stop_announcer (sv_announcer st), sv_signal_fd := False,
     sv_open := False, sv_result := Some (Inr ())\<rparr>"

definition fail_loop :: "'c serve_state \<Rightarrow> 'c serve_state" where
  "fail_loop st = st\<lparr>sv_announcer := stop_announcer (sv_announcer st), sv_open := False,
     sv_result := Some (Inl (Fail ''accept failed''))\<rparr>"

text \<open>
  What \<open>accept\<close> and \<open>fork\<close> return. On a descriptor that was closed, \<open>accept\<close> fails with \<open>EBADF\<close>,
  or with \<open>EINVAL\<close> when it was closed under it; it may be interrupted by a signal at any time.
\<close>

datatype 'c accept_result =
  Accepted 'c | Accepted_fork_failed 'c | Interrupted | Not_listening | Accept_error

definition accept_possible :: "'c serve_state \<Rightarrow> 'c accept_result \<Rightarrow> bool" where
  "accept_possible st r =
     (case r of Interrupted \<Rightarrow> True | Not_listening \<Rightarrow> \<not> sv_open st | _ \<Rightarrow> sv_open st)"

fun accept_returns :: "'c accept_result \<Rightarrow> 'c serve_state \<Rightarrow> 'c serve_state" where
  "accept_returns (Accepted c) st = st\<lparr>sv_clients := sv_clients st @ [c]\<rparr>"
| "accept_returns (Accepted_fork_failed c) st = st\<lparr>sv_lost := sv_lost st @ [c]\<rparr>"
| "accept_returns Interrupted st = (if sv_shutdown st then leave_loop st else st)"
| "accept_returns Not_listening st = (if sv_shutdown st then leave_loop st else fail_loop st)"
| "accept_returns Accept_error st = fail_loop st"

inductive serve_step :: "'c serve_state \<Rightarrow> 'c serve_state \<Rightarrow> bool" where
  signal: "sv_result st = None \<Longrightarrow> serve_step st (etb_handle_shutdown_signal st)"
| accept: "sv_result st = None \<Longrightarrow> accept_possible st r \<Longrightarrow> serve_step st (accept_returns r st)"

inductive_cases serve_stepE: "serve_step st st'"

inductive serve_run :: "'c serve_state \<Rightarrow> 'c serve_state \<Rightarrow> bool" where
  start: "serve_run st st"
| next_step: "serve_run st st' \<Longrightarrow> serve_step st' st'' \<Longrightarrow> serve_run st st''"

section \<open>Its invariant\<close>

definition serve_ok :: "'c serve_state \<Rightarrow> bool" where
  "serve_ok st \<longleftrightarrow>
     (case sv_result st of
        None \<Rightarrow> sv_open st = (\<not> sv_shutdown st) \<and> sv_signal_fd st = sv_open st \<and> sv_announcer st \<noteq> Told_to_stop
      | Some r \<Rightarrow> \<not> sv_open st \<and> sv_announcer st \<noteq> Announcing \<and>
          r = (if sv_shutdown st then Inr () else Inl (Fail ''accept failed'')))"

lemmas loop_defs = leave_loop_def fail_loop_def stop_announcer_def etb_handle_shutdown_signal_def Let_def

lemma serve_step_ok: "serve_step st st' \<Longrightarrow> serve_ok st \<Longrightarrow> serve_ok st'"
proof (induction rule: serve_step.induct)
  case (signal st)
  then show ?case by (simp add: serve_ok_def loop_defs)
next
  case (accept st r)
  then show ?case by (cases r) (simp_all add: serve_ok_def loop_defs accept_possible_def)
qed

lemma serve_run_ok: "serve_run st st' \<Longrightarrow> serve_ok st \<Longrightarrow> serve_ok st'"
  by (induction rule: serve_run.induct) (auto intro: serve_step_ok)

lemma node_start_ok:
  assumes "etb_node_start sockets forked node node_id listen_endpoint peers seeds = Inr (nctx, registry, st)"
  shows "serve_ok st \<and> sv_result st = None \<and> sv_clients st = []"
  using assms by (auto simp: etb_node_start_def serve_ok_def split: if_splits prod.splits)

text \<open>Clients are only added, and only while the node was not told to stop.\<close>

lemma serve_step_clients:
  assumes "serve_step st st'" and "serve_ok st"
  shows "\<exists>new. sv_clients st' = sv_clients st @ new \<and> (sv_shutdown st \<longrightarrow> new = [] \<and> sv_shutdown st')"
  using assms
proof (induction rule: serve_step.induct)
  case (signal st)
  then show ?case by (simp add: loop_defs)
next
  case (accept st r)
  then show ?case by (cases r) (simp_all add: loop_defs serve_ok_def accept_possible_def)
qed

lemma serve_run_clients:
  "serve_run st st' \<Longrightarrow> serve_ok st \<Longrightarrow>
     \<exists>new. sv_clients st' = sv_clients st @ new \<and> (sv_shutdown st \<longrightarrow> new = [] \<and> sv_shutdown st')"
proof (induction rule: serve_run.induct)
  case (next_step st st' st'')
  then obtain new where new: "sv_clients st' = sv_clients st @ new"
      "sv_shutdown st \<longrightarrow> new = [] \<and> sv_shutdown st'" by blast
  obtain more where "sv_clients st'' = sv_clients st' @ more"
      "sv_shutdown st' \<longrightarrow> more = [] \<and> sv_shutdown st''"
    using serve_step_clients [OF next_step.hyps(2) serve_run_ok [OF next_step.hyps(1) next_step.prems]] by blast
  then show ?case using new by auto
qed simp

lemma told_step:
  assumes "serve_step st st'" and "serve_ok st" and "sv_shutdown st" and "sv_result st = None"
  shows "st' = st \<or> st' = leave_loop st"
  using assms
proof (induction rule: serve_step.induct)
  case (signal st)
  then show ?case by (cases st) (simp add: serve_ok_def loop_defs)
next
  case (accept st r)
  then show ?case by (cases r) (simp_all add: serve_ok_def accept_possible_def)
qed

lemma left_final: "\<not> serve_step (leave_loop st) st'"
  by (auto elim: serve_stepE simp: leave_loop_def)

lemma told_run:
  "serve_run st st' \<Longrightarrow> serve_ok st \<Longrightarrow> sv_shutdown st \<Longrightarrow> sv_result st = None \<Longrightarrow>
     st' = st \<or> st' = leave_loop st"
  by (induction rule: serve_run.induct) (use told_step left_final in blast)+

text \<open>
  C22. The life of a node, from a successful start through any run of its loop. It returns success
  exactly when it was told to stop and failure exactly when \<open>accept\<close> failed before that; when it has
  returned, its socket is closed and its announcing child is told to stop; while it runs, the socket
  is open until the signal comes, so that no client is turned away before it.
\<close>

theorem node_serves_until_told:
  assumes start: "etb_node_start sockets forked node node_id listen_endpoint peers seeds = Inr (nctx, registry, st0)"
    and run: "serve_run st0 st"
  shows "case sv_result st of
      None \<Rightarrow> sv_open st = (\<not> sv_shutdown st)
    | Some r \<Rightarrow> \<not> sv_open st \<and> sv_announcer st \<noteq> Announcing \<and>
        r = (if sv_shutdown st then Inr () else Inl (Fail ''accept failed''))"
  using serve_run_ok [OF run] node_start_ok [OF start] by (auto simp: serve_ok_def split: option.splits)


section \<open>Witnesses\<close>

text \<open>A node without seeds that accepts one client and is then told to stop.\<close>

definition lone_context :: etb_node_context where
  "lone_context = \<lparr>nc_node_id = ''n'', nc_listen_endpoint = ''h:1'', nc_peers = [], nc_seeds = [],
     nc_local_routes = [\<lparr>pr_principal = ''n'', pr_endpoint = ''h:1''\<rparr>]\<rparr>"

definition lone_start :: "nat serve_state" where
  "lone_start = \<lparr>sv_shutdown = False, sv_signal_fd = True, sv_open = True, sv_announcer = No_announcer,
     sv_clients = [], sv_lost = [], sv_result = None\<rparr>"

definition lone_told :: "nat serve_state" where
  "lone_told = etb_handle_shutdown_signal (accept_returns (Accepted 7) lone_start)"

lemma lone_node_start:
  "\<exists>registry. etb_node_start (\<lambda>_ _. Listening) True lone_node ''n'' ''h:1'' [] [] =
     Inr (lone_context, registry, lone_start)"
proof -
  have "etb_parse_endpoint ''h:1'' = Some (''h'', ''1'')" by code_simp
  moreover have "nd_writable lone_node" by (simp add: lone_node_def)
  moreover have "etb_collect_local_routes (nd_program_file lone_node) ''h:1'' ''n'' = Inr (nc_local_routes lone_context)"
    unfolding lone_node_def etb_node.simps by code_simp
  ultimately show ?thesis
    by (simp add: etb_node_start_def node_start_def etb_listen_endpoint_def etb_registry_save_def
        lone_start_def lone_context_def)
qed

lemma lone_told_run: "serve_run lone_start lone_told"
proof -
  have "serve_step lone_start (accept_returns (Accepted 7) lone_start)"
    by (rule serve_step.accept) (simp_all add: lone_start_def accept_possible_def)
  moreover have "serve_step (accept_returns (Accepted 7) lone_start) lone_told"
    unfolding lone_told_def by (rule serve_step.signal) (simp add: lone_start_def)
  ultimately show ?thesis by (blast intro: serve_run.intros)
qed

lemma lone_told_simps:
  "sv_shutdown lone_told" "sv_result lone_told = None" "sv_clients lone_told = [7]"
  by (simp_all add: lone_told_def lone_start_def loop_defs)

lemma node_serves_until_told_witness: "sv_open lone_told = False"
proof -
  obtain registry where "etb_node_start (\<lambda>_ _. Listening) True lone_node ''n'' ''h:1'' [] [] =
      Inr (lone_context, registry, lone_start)" using lone_node_start by blast
  from node_serves_until_told [OF this lone_told_run] show ?thesis by (simp add: lone_told_simps)
qed


end
