(* ===== verification/Cli.thy ===== *)
theory Cli
  imports Serve
begin

text \<open>
  The command-line tools, \<open>src/cli/etbd.c\<close> and \<open>src/cli/etbctl.c\<close>: their options, what they run and
  what they print. A tool maps its arguments to the text on its standard output and exit status 0, or
  to the text on its standard error and exit status 1. The files, the prover and the clock are
  arguments (\<open>etbd_world\<close>); an array of \<open>etbd\<close> that is written out of its bounds shows as such.

  \<open>etbctl_shows_answer\<close> joins both ends: what \<open>etbctl\<close> prints is the certificate that the node at
  the other end computed.
\<close>

section \<open>The surroundings of etbd\<close>

datatype prover_run = Launch_failed | Run_failed | Run_succeeded

record etbd_world =
  ew_adapter :: adapter
  ew_time :: u64
  ew_read :: "string \<Rightarrow> file_read"
  ew_write :: "string \<Rightarrow> byte list \<Rightarrow> file_write"
  ew_prover :: "string \<Rightarrow> string \<Rightarrow> string \<Rightarrow> string \<Rightarrow> prover_run"

definition quote :: "string \<Rightarrow> string" where
  "quote str = [CHR 0x27] @ str @ [CHR 0x27]"

definition run_prover :: "etbd_world \<Rightarrow> string \<Rightarrow> string \<Rightarrow> string \<Rightarrow> string \<Rightarrow> unit res" where
  "run_prover w prover_path command cert_path proof_path =
     (case ew_prover w prover_path command cert_path proof_path of
        Launch_failed \<Rightarrow> Inl (Fail (''failed to launch prover '' @ prover_path))
      | Run_failed \<Rightarrow> Inl (Fail (''prover command '' @ quote command @ '' failed''))
      | Run_succeeded \<Rightarrow> Inr ())"

text \<open>\<open>PRINCIPAL=HOST:PORT\<close>, split at the first \<open>=\<close>.\<close>

definition add_peer_spec :: "etb_peer_route_map \<Rightarrow> string \<Rightarrow> etb_peer_route_map option" where
  "add_peer_spec peers spec =
     (let name = takeWhile (\<lambda>c. c \<noteq> CHR ''='') spec; endpoint = drop (length name + 1) spec
      in if CHR ''='' \<notin> set spec \<or> name = '''' \<or> endpoint = '''' then None
         else Some (etb_peer_route_map_add peers name endpoint))"

text \<open>A line on the standard error; the texts of failures come from an array of 256 bytes.\<close>

definition tool_error :: "string \<Rightarrow> string \<Rightarrow> 'a res" where
  "tool_error tool message = Inl (Fail (tool @ '': '' @ message @ [newline]))"

definition reported :: "string \<Rightarrow> 'a res \<Rightarrow> 'a res" where
  "reported tool r =
     (case r of
        Inl (Fail message) \<Rightarrow> tool_error tool (take 255 message)
      | _ \<Rightarrow> r)"

definition default_prover :: string where
  "default_prover = ''./adapters/zk-trace-check/target/debug/zk-trace-check''"

section \<open>The options of a local run\<close>

record local_options =
  lo_imports :: "string list"
  lo_cert_out :: "string option"
  lo_proof_out :: "string option"
  lo_prover :: string
  lo_verify :: bool

definition local_defaults :: local_options where
  "local_defaults = \<lparr>lo_imports = [], lo_cert_out = None, lo_proof_out = None,
     lo_prover = default_prover, lo_verify = False\<rparr>"

text \<open>The array \<open>import_paths\<close> has 32 elements, and nothing checks the index.\<close>

definition local_setting :: "string \<Rightarrow> string \<Rightarrow> local_options \<Rightarrow> local_options res option" where
  "local_setting arg v opts =
     (if arg = ''--import-cert'' then
        Some (if length (lo_imports opts) < 32 then Inr (opts\<lparr>lo_imports := lo_imports opts @ [v]\<rparr>)
              else Inl Out_of_bounds)
      else if arg = ''--cert-out'' then Some (Inr (opts\<lparr>lo_cert_out := Some v\<rparr>))
      else if arg = ''--proof-out'' then Some (Inr (opts\<lparr>lo_proof_out := Some v\<rparr>))
      else if arg = ''--prover'' then Some (Inr (opts\<lparr>lo_prover := v\<rparr>))
      else None)"

fun local_args :: "local_options \<Rightarrow> string list \<Rightarrow> local_options res" where
  "local_args opts [] = Inr opts"
| "local_args opts (arg # rest) =
     (case (case rest of [] \<Rightarrow> None | v # _ \<Rightarrow> local_setting arg v opts) of
        Some r \<Rightarrow> bind_res r (\<lambda>opts. local_args opts (tl rest))
      | None \<Rightarrow>
          if arg = ''--verify-proof'' then local_args (opts\<lparr>lo_verify := True\<rparr>) rest
          else tool_error ''etbd'' (''unknown or incomplete option '' @ quote arg))"

section \<open>A local run\<close>

text \<open>One line for each answer; an answer that cannot be printed is passed over.\<close>

fun answer_lines :: "nat \<Rightarrow> etb_atom list \<Rightarrow> string res" where
  "answer_lines index [] = Inr ''''"
| "answer_lines index (answer # answers) =
     (case etb_atom_canonical_text answer of
        Inl e \<Rightarrow> if undefined_behaviour e then Inl e else answer_lines (index + 1) answers
      | Inr txt \<Rightarrow> bind_res (answer_lines (index + 1) answers) (\<lambda>rest.
          Inr (''answer '' @ dec (index + 1) @ '': '' @ txt @ [newline] @ rest)))"

definition optional_line :: "string \<Rightarrow> string option \<Rightarrow> string" where
  "optional_line name v = (case v of None \<Rightarrow> '''' | Some path \<Rightarrow> name @ ''='' @ path @ [newline])"

definition report :: "etb_certificate \<Rightarrow> string res" where
  "report certificate =
     bind_res (answer_lines 0 (ct_answers certificate)) (\<lambda>answers.
       Inr (''root='' @ ct_root_digest certificate @ [newline] @ answers))"

text \<open>The prover runs on the path of the certificate; \<open>verify\<close> runs only when a proof is asked for.\<close>

definition local_proof :: "etbd_world \<Rightarrow> local_options \<Rightarrow> unit res" where
  "local_proof w opts =
     (case (lo_cert_out opts, lo_proof_out opts) of
        (Some cert_out, Some proof_out) \<Rightarrow>
          bind_res (run_prover w (lo_prover opts) ''prove'' cert_out proof_out) (\<lambda>_.
            if lo_verify opts then run_prover w (lo_prover opts) ''verify'' cert_out proof_out else Inr ())
      | _ \<Rightarrow> Inr ())"

definition etbd_local :: "etbd_world \<Rightarrow> string \<Rightarrow> string list \<Rightarrow> string res" where
  "etbd_local w program_name args =
     (case args of
        program_path # query_text # rest \<Rightarrow>
          bind_res (local_args local_defaults rest) (\<lambda>opts.
          if lo_proof_out opts \<noteq> None \<and> lo_cert_out opts = None
          then tool_error ''etbd'' ''--proof-out requires --cert-out''
          else
          bind_res (reported ''etbd'' (etb_daemon_run_local_with_imports (ew_adapter w) (ew_time w)
              (ew_read w program_path) query_text (map (ew_read w) (lo_imports opts)))) (\<lambda>certificate.
          bind_res (reported ''etbd'' (case lo_cert_out opts of None \<Rightarrow> Inr ()
              | Some cert_out \<Rightarrow> etb_certificate_write_file certificate (ew_write w cert_out))) (\<lambda>_.
          bind_res (reported ''etbd'' (local_proof w opts)) (\<lambda>_.
          bind_res (report certificate) (\<lambda>shown.
            Inr (shown @ optional_line ''certificate'' (lo_cert_out opts) @
                 optional_line ''proof'' (lo_proof_out opts)))))))
      | _ \<Rightarrow> Inl (Fail (''usage: '' @ program_name @ '' PROGRAM QUERY [--import-cert FILE ...] [--cert-out FILE] '' @
               ''[--proof-out FILE] [--prover PATH] [--verify-proof]'' @ [newline])))"

section \<open>The options of a local run are understood\<close>

datatype local_option = Import_cert string | Cert_out string | Proof_out string | Prover string | Verify_proof

fun option_args :: "local_option \<Rightarrow> string list" where
  "option_args (Import_cert v) = [''--import-cert'', v]"
| "option_args (Cert_out v) = [''--cert-out'', v]"
| "option_args (Proof_out v) = [''--proof-out'', v]"
| "option_args (Prover v) = [''--prover'', v]"
| "option_args Verify_proof = [''--verify-proof'']"

fun apply_option :: "local_option \<Rightarrow> local_options \<Rightarrow> local_options" where
  "apply_option (Import_cert v) o1 = o1\<lparr>lo_imports := lo_imports o1 @ [v]\<rparr>"
| "apply_option (Cert_out v) o1 = o1\<lparr>lo_cert_out := Some v\<rparr>"
| "apply_option (Proof_out v) o1 = o1\<lparr>lo_proof_out := Some v\<rparr>"
| "apply_option (Prover v) o1 = o1\<lparr>lo_prover := v\<rparr>"
| "apply_option Verify_proof o1 = o1\<lparr>lo_verify := True\<rparr>"

fun imports_of :: "local_option list \<Rightarrow> string list" where
  "imports_of [] = []"
| "imports_of (Import_cert v # os) = v # imports_of os"
| "imports_of (_ # os) = imports_of os"

lemma verify_no_setting: "local_setting ''--verify-proof'' v opts = None"
  by (simp add: local_setting_def)

lemma local_args_step:
  "local_args opts (option_args o1 @ rest) =
     (case o1 of
        Import_cert v \<Rightarrow> if length (lo_imports opts) < 32 then local_args (apply_option o1 opts) rest
                        else Inl Out_of_bounds
      | _ \<Rightarrow> local_args (apply_option o1 opts) rest)"
  by (cases o1; cases rest) (simp_all add: local_setting_def)

lemma local_args_options:
  "local_args opts (concat (map option_args os)) =
     (if length (lo_imports opts) + length (imports_of os) \<le> 32 \<or> imports_of os = []
      then Inr (fold apply_option os opts) else Inl Out_of_bounds)"
proof (induction os arbitrary: opts)
  case (Cons o1 os)
  show ?case
    unfolding list.map concat.simps local_args_step
    by (cases o1) (auto simp: Cons.IH)
qed simp

text \<open>
  C38. The options of a local run, given in any order and number: up to 32 imported certificates they
  are all taken in, in order, and of the other options the last one counts; the thirty-third writes
  behind the end of the array.
\<close>

theorem etbd_options_bounded:
  "local_args local_defaults (concat (map option_args os)) =
     (if length (imports_of os) \<le> 32 then Inr (fold apply_option os local_defaults) else Inl Out_of_bounds)"
  using local_args_options [of local_defaults os] by (auto simp: local_defaults_def)

section \<open>The options of a node\<close>

record serve_options =
  so_node_id :: string
  so_listen :: "string option"
  so_peers :: etb_peer_route_map
  so_seeds :: "string list"
  so_prover :: string

definition serve_defaults :: serve_options where
  "serve_defaults = \<lparr>so_node_id = ''node'', so_listen = None, so_peers = [], so_seeds = [],
     so_prover = default_prover\<rparr>"

definition serve_setting :: "string \<Rightarrow> string \<Rightarrow> serve_options \<Rightarrow> serve_options res option" where
  "serve_setting arg v opts =
     (if arg = ''--node-id'' then Some (Inr (opts\<lparr>so_node_id := v\<rparr>))
      else if arg = ''--listen'' then Some (Inr (opts\<lparr>so_listen := Some v\<rparr>))
      else if arg = ''--peer'' then
        Some (case add_peer_spec (so_peers opts) v of
                None \<Rightarrow> tool_error ''etbd'' (''invalid --peer '' @ quote v)
              | Some peers \<Rightarrow> Inr (opts\<lparr>so_peers := peers\<rparr>))
      else if arg = ''--seed'' then Some (Inr (opts\<lparr>so_seeds := etb_endpoint_list_add (so_seeds opts) v\<rparr>))
      else if arg = ''--prover'' then Some (Inr (opts\<lparr>so_prover := v\<rparr>))
      else None)"

fun serve_args :: "serve_options \<Rightarrow> string list \<Rightarrow> serve_options res" where
  "serve_args opts [] = Inr opts"
| "serve_args opts (arg # rest) =
     (case (case rest of [] \<Rightarrow> None | v # _ \<Rightarrow> serve_setting arg v opts) of
        Some r \<Rightarrow> bind_res r (\<lambda>opts. serve_args opts (tl rest))
      | None \<Rightarrow> tool_error ''etbd'' (''unknown or incomplete option '' @ quote arg))"

text \<open>
  A node is what \<open>etb_node_start\<close> of Serve makes of the options, and its life is \<open>serve_run\<close>. How the
  program and the prover at the two paths behave is an argument.
\<close>

definition etbd_serve ::
    "(string \<Rightarrow> string \<Rightarrow> listen_result) \<Rightarrow> bool \<Rightarrow> (string \<Rightarrow> string \<Rightarrow> etb_node) \<Rightarrow> string \<Rightarrow> string list \<Rightarrow>
     (etb_node_context \<times> string \<times> 'c serve_state) res" where
  "etbd_serve sockets forked node_of program_name args =
     (if length args < 4 then
        Inl (Fail (''usage: '' @ program_name @ '' serve PROGRAM --node-id ID --listen HOST:PORT '' @
          ''[--peer PRINCIPAL=HOST:PORT ...] [--seed HOST:PORT ...] [--prover PATH]'' @ [newline]))
      else
      bind_res (serve_args serve_defaults (drop 2 args)) (\<lambda>opts.
        case so_listen opts of
          None \<Rightarrow> tool_error ''etbd'' ''serve mode requires --listen HOST:PORT''
        | Some listen_endpoint \<Rightarrow>
            reported ''etbd'' (etb_node_start sockets forked (node_of (args ! 1) (so_prover opts))
              (so_node_id opts) listen_endpoint (so_peers opts) (so_seeds opts))))"

section \<open>The client\<close>

record ctl_options =
  co_cert_out :: "string option"
  co_proof_out :: "string option"
  co_bundle_dir :: "string option"
  co_prover :: string
  co_verify :: bool

definition ctl_defaults :: ctl_options where
  "ctl_defaults = \<lparr>co_cert_out = None, co_proof_out = None, co_bundle_dir = None,
     co_prover = default_prover, co_verify = False\<rparr>"

definition ctl_setting :: "string \<Rightarrow> string \<Rightarrow> ctl_options \<Rightarrow> ctl_options option" where
  "ctl_setting arg v opts =
     (if arg = ''--cert-out'' then Some (opts\<lparr>co_cert_out := Some v\<rparr>)
      else if arg = ''--proof-out'' then Some (opts\<lparr>co_proof_out := Some v\<rparr>)
      else if arg = ''--bundle-dir'' then Some (opts\<lparr>co_bundle_dir := Some v\<rparr>)
      else if arg = ''--prover'' then Some (opts\<lparr>co_prover := v\<rparr>)
      else None)"

fun ctl_args :: "ctl_options \<Rightarrow> string list \<Rightarrow> ctl_options res" where
  "ctl_args opts [] = Inr opts"
| "ctl_args opts (arg # rest) =
     (case (case rest of [] \<Rightarrow> None | v # _ \<Rightarrow> ctl_setting arg v opts) of
        Some opts \<Rightarrow> ctl_args opts (tl rest)
      | None \<Rightarrow>
          if arg = ''--verify-proof'' then ctl_args (opts\<lparr>co_verify := True\<rparr>) rest
          else tool_error ''etbctl'' (''unknown or incomplete option '' @ quote arg))"

text \<open>The files of a bundle directory, whose paths are cut to 511 characters; names are cut to 127.\<close>

definition sanitize_name :: "string \<Rightarrow> nat \<Rightarrow> string" where
  "sanitize_name input output_size = map safe_char (take (output_size - 1) input)"

definition two_digits :: "nat \<Rightarrow> string" where
  "two_digits n = (if n < 10 then ''0'' @ dec n else dec n)"

definition bundle_path :: "string \<Rightarrow> nat \<Rightarrow> string \<Rightarrow> string \<Rightarrow> string" where
  "bundle_path dir index node_name suffix =
     take 511 (dir @ ''/'' @ two_digits (index + 1) @ ''-'' @ node_name @ suffix)"

definition bundle_files :: "string \<Rightarrow> nat \<Rightarrow> etb_bundle \<Rightarrow> (string \<times> byte list) list res" where
  "bundle_files dir index bundle =
     (case bd_node_id bundle of
        None \<Rightarrow> Inl Null_deref
      | Some node_id \<Rightarrow>
          let name = sanitize_name node_id 128 in
          Inr ([(bundle_path dir index name ''.cert.cbor'', certificate_bytes_of bundle)] @
            (if bd_proof bundle = [] then [] else [(bundle_path dir index name ''.proof'', bd_proof bundle)]) @
            (case bd_trace_text bundle of None \<Rightarrow> []
             | Some txt \<Rightarrow> [(bundle_path dir index name ''.trace.txt'', bytes_of_string txt)])))"

text \<open>
  In a directory whose path has at most 300 characters, files of different bundles have different paths,
  whatever the nodes are called.
\<close>

lemma two_digits_inject: "two_digits (Suc i) @ CHR ''-'' # us = two_digits (Suc j) @ CHR ''-'' # vs \<Longrightarrow> i = j"
proof -
  assume eq: "two_digits (Suc i) @ CHR ''-'' # us = two_digits (Suc j) @ CHR ''-'' # vs"
  have "CHR ''-'' \<notin> set (dec n)" for n using dec_digits [of "CHR ''-''" n] by (auto simp: is_digit_def)
  then have plain: "CHR ''-'' \<notin> set (two_digits n)" for n by (simp add: two_digits_def)
  have "two_digits (Suc i) = two_digits (Suc j)" using eq plain by (simp add: split_at_inject)
  moreover have "dec_value (two_digits n) = n" for n
    using dec_value_dec [of n] by (simp add: two_digits_def dec_value_def digit_value_def)
  ultimately show "i = j" by (metis Suc_inject)
qed

lemma bundle_path_inject:
  assumes "length dir \<le> 300" and "i < 10 ^ 20" and "j < 10 ^ 20"
    and "length suffix \<le> 10" and "length suffix' \<le> 10"
    and eq: "bundle_path dir i (sanitize_name n 128) suffix = bundle_path dir j (sanitize_name n' 128) suffix'"
  shows "i = j"
proof -
  have digits: "length (two_digits (k + 1)) \<le> 22" if "k < 10 ^ 20" for k
    using length_dec_le [of "k + 1" 21] that by (simp add: two_digits_def)
  have whole: "bundle_path dir k (sanitize_name m 128) x =
      dir @ CHR ''/'' # two_digits (Suc k) @ CHR ''-'' # sanitize_name m 128 @ x"
    if "k < 10 ^ 20" "length x \<le> 10" for k m x
  proof -
    have "length (dir @ CHR ''/'' # two_digits (Suc k) @ CHR ''-'' # sanitize_name m 128 @ x) \<le> 511"
      using digits [OF that(1)] assms(1) that(2) by (simp add: sanitize_name_def)
    then have "take 511 (dir @ CHR ''/'' # two_digits (Suc k) @ CHR ''-'' # sanitize_name m 128 @ x) =
        dir @ CHR ''/'' # two_digits (Suc k) @ CHR ''-'' # sanitize_name m 128 @ x" by (rule take_all)
    then show ?thesis unfolding bundle_path_def by (simp only: append_Cons append_Nil Suc_eq_plus1)
  qed
  have "two_digits (Suc i) @ CHR ''-'' # sanitize_name n 128 @ suffix =
      two_digits (Suc j) @ CHR ''-'' # sanitize_name n' 128 @ suffix'"
    using eq unfolding whole [OF assms(2,4)] whole [OF assms(3,5)] by (simp only: append_same_eq same_append_eq list.inject)
  then show ?thesis by (rule two_digits_inject)
qed

text \<open>Whether every file could be written, in this order; the first failure stops.\<close>

fun write_bundles ::
    "(string \<Rightarrow> byte list \<Rightarrow> file_write) \<Rightarrow> string \<Rightarrow> nat \<Rightarrow> etb_bundle_list \<Rightarrow> bool res" where
  "write_bundles stream dir index [] = Inr True"
| "write_bundles stream dir index (b # bs) =
     bind_res (bundle_files dir index b) (\<lambda>files.
       if list_all (\<lambda>(path, bytes). stream path bytes = Output_written) files
       then write_bundles stream dir (index + 1) bs else Inr False)"

definition write_bundle_dir ::
    "(string \<Rightarrow> bool) \<Rightarrow> (string \<Rightarrow> byte list \<Rightarrow> file_write) \<Rightarrow> string \<Rightarrow> etb_bundle_list \<Rightarrow> bool res" where
  "write_bundle_dir ensure_directory stream dir bundles =
     (if ensure_directory dir then write_bundles stream dir 0 bundles else Inr False)"

text \<open>A failure is reported with the text in the error array, or with another text when that is empty.\<close>

definition ctl_step :: "string \<Rightarrow> 'a run \<Rightarrow> 'a run" where
  "ctl_step otherwise m = (\<lambda>st.
     case m st of
       Some (Inl (Fail message), st) \<Rightarrow>
         Some (tool_error ''etbctl'' (if message = '''' then otherwise else message), st)
     | r \<Rightarrow> r)"

definition ctl_write ::
    "(string \<Rightarrow> byte list \<Rightarrow> file_write) \<Rightarrow> string option \<Rightarrow> byte list \<Rightarrow> unit res" where
  "ctl_write stream target bytes =
     (case target of
        None \<Rightarrow> Inr ()
      | Some path \<Rightarrow> if stream path bytes = Output_written then Inr ()
                     else tool_error ''etbctl'' (''failed to write '' @ path))"

definition plain_run :: "'a res \<Rightarrow> 'a run" where
  "plain_run r = (\<lambda>st. Some (r, st))"

record ctl_world =
  cw_node :: etb_node
  cw_prover :: "string \<Rightarrow> etb_prover"
  cw_ensure_directory :: "string \<Rightarrow> bool"
  cw_write :: "string \<Rightarrow> byte list \<Rightarrow> file_write"

definition ctl_query :: "ctl_world \<Rightarrow> ctl_options \<Rightarrow> string \<Rightarrow> string \<Rightarrow> string run" where
  "ctl_query w opts endpoint query_text =
     bind_run (ctl_step '''' (etb_remote_query (cw_node w) endpoint query_text)) (\<lambda>bundles.
     bind_run (if co_verify opts
               then ctl_step '''' (each_run (\<lambda>b. of_res (etb_bundle_verify_with_prover (cw_prover w (co_prover opts)) b)) bundles)
               else return_run ()) (\<lambda>_.
     bind_run (ctl_step ''missing top-level bundle''
         (if bundles = [] then failing (Fail '''')
          else of_res (etb_certificate_read_bytes (certificate_bytes_of (last bundles))))) (\<lambda>certificate.
     bind_run (plain_run (ctl_write (cw_write w) (co_cert_out opts) (certificate_bytes_of (last bundles)))) (\<lambda>_.
     bind_run (plain_run (ctl_write (cw_write w) (co_proof_out opts) (bd_proof (last bundles)))) (\<lambda>_.
     bind_run (plain_run (case co_bundle_dir opts of
         None \<Rightarrow> Inr ()
       | Some dir \<Rightarrow> bind_res (write_bundle_dir (cw_ensure_directory w) (cw_write w) dir bundles) (\<lambda>ok.
           if ok then Inr () else tool_error ''etbctl'' (''failed to write bundle directory '' @ dir)))) (\<lambda>_.
     plain_run (bind_res (report certificate) (\<lambda>shown.
       Inr (shown @ ''bundles='' @ dec (length bundles) @ [newline] @
            optional_line ''certificate'' (co_cert_out opts) @ optional_line ''proof'' (co_proof_out opts) @
            optional_line ''bundle_dir'' (co_bundle_dir opts))))))))))"

definition ctl_usage :: "string \<Rightarrow> 'a res" where
  "ctl_usage program_name =
     Inl (Fail (''usage: '' @ program_name @ '' query HOST:PORT QUERY [--cert-out FILE] [--proof-out FILE] '' @
       ''[--bundle-dir DIR] [--verify-proof] [--prover PATH]'' @ [newline]))"

definition etbctl :: "ctl_world \<Rightarrow> string \<Rightarrow> string list \<Rightarrow> string run" where
  "etbctl w program_name args =
     (case args of
        command # endpoint # query_text # rest \<Rightarrow>
          if command \<noteq> ''query'' then plain_run (ctl_usage program_name)
          else bind_run (plain_run (ctl_args ctl_defaults rest)) (\<lambda>opts.
            if co_proof_out opts \<noteq> None \<and> co_cert_out opts = None
            then plain_run (tool_error ''etbctl'' ''--proof-out requires --cert-out'')
            else bind_run (update_run (\<lambda>st. st\<lparr>ns_error := ''''\<rparr>)) (\<lambda>_. ctl_query w opts endpoint query_text))
      | _ \<Rightarrow> plain_run (ctl_usage program_name))"

section \<open>From the node to the terminal\<close>

lemma execute_not_empty:
  assumes "etb_execute_query fuel node nctx query_text st = Some (Inr bundles, st')"
  shows "bundles \<noteq> []"
proof -
  obtain trace_text c s where "own_bundle node nctx query_text trace_text c s = Some (Inr bundles, st')"
    using assms
    by (auto simp: etb_execute_query_def bind_run_Inr of_res_Inr on_engine_Inr query_engine_Inr update_run_def
        with_state_def failing_def Let_def split: if_splits)
  then show ?thesis by (auto simp: own_bundle_Inr etb_bundle_list_add_copy_def split: if_splits)
qed

lemma serve_query_eq:
  assumes "nd_writable node"
    and ingest: "etb_registry_ingest nctx True (ns_registry st) (Some n) (Some ep) request_routes = Some file"
    and run: "etb_execute_query fuel node nctx query_text (st\<lparr>ns_registry := Some file\<rparr>) = Some (Inr bundles, st')"
    and b: "list_all wire_bundle bundles"
  shows "serve_request fuel node nctx (etb_request_init\<lparr>rq_op := Some ''query'', rq_node_id := Some n,
      rq_endpoint := Some ep, rq_query_text := Some query_text, rq_routes := request_routes\<rparr>) st =
    Some (Inr (True, response_bytes_of True '''' bundles (etb_registry_snapshot nctx (ns_registry st')) None), st')"
  using assms encode_ok_eq [OF b]
  by (simp add: serve_request_def ingest_request_def serve_query_def with_state_def bind_run_def ok_reply_def
      of_res_def return_run_def attempt_def etb_request_init_def)

text \<open>
  C7. What a client sees. A node that receives the query of \<open>etbctl\<close> and executes it answers with its
  bundles, and \<open>etbctl\<close>, when this answer comes back, prints the root digest and the answers of the
  certificate in the last of these bundles, and how many there are: between the engine of the node and
  the terminal of the client nothing is changed.
\<close>

theorem etbctl_shows_answer:
  fixes query_text st nctx
  defines "request \<equiv> etb_encode_query_request synthetic_context query_text"
    and "st1 \<equiv> st\<lparr>ns_error := '''', ns_registry := etb_registry_ingest nctx True (ns_registry st) (Some ''etbctl'') (Some '''') []\<rparr>"
  assumes q: "c_text query_text" "length request < 2 ^ 32" and w: "nd_writable node"
    and run: "etb_execute_query fuel node nctx query_text st1 = Some (Inr bundles, st2)"
    and sendable: "bundles_ok bundles" "texts_ok (etb_registry_snapshot nctx (ns_registry st2))"
    and c: "etb_certificate_read_bytes (certificate_bytes_of (last bundles)) = Inr certificate"
      "report certificate = Inr shown"
  shows "\<exists>payload.
    etb_handle_client fuel node nctx (etb_send_message request) st = Some (Inr (True, payload), st2) \<and>
    (\<forall>w endpoint program_name client. replies (cw_node w) (ns_calls client) endpoint request payload \<longrightarrow>
      (\<exists>client'. etbctl w program_name [''query'', endpoint, query_text] client =
         Some (Inr (shown @ ''bundles='' @ dec (length bundles) @ [newline]), client')))"
proof -
  let ?payload = "response_bytes_of True '''' bundles (etb_registry_snapshot nctx (ns_registry st2)) None"
  obtain content where f: "etb_registry_ingest nctx True (ns_registry st) (Some ''etbctl'') (Some '''') [] = Some content"
    by (simp add: etb_registry_ingest_def etb_registry_save_def)
  have b: "list_all wire_bundle bundles" using sendable(1) by (simp add: bundles_ok_def)
  have nil: "c_text ''''" "wire_context synthetic_context"
    by (simp_all add: c_text_def wire_context_def synthetic_context_def texts_ok_def routes_ok_def)
  have "fits request" using q(2) by (simp add: fits_def)
  then have d: "etb_decode_request request = Inr (etb_request_init\<lparr>rq_op := Some ''query'',
      rq_node_id := Some ''etbctl'', rq_endpoint := Some '''', rq_query_text := Some query_text, rq_routes := []\<rparr>)"
    using requests_decode [OF nil(2) q(1) nil(1)]
    by (simp add: request_def sender_request_def synthetic_context_def)
  have "etb_handle_client fuel node nctx (etb_send_message request) st = Some (Inr (True, ?payload), st2)"
    using handle_client_serves [OF _ d] recv_short [OF q(2), of "[]"]
      serve_query_eq [OF w, of nctx "st\<lparr>ns_error := ''''\<rparr>" "''etbctl''" "''''" "[]" content, OF _ _ b] f run
    by (simp add: st1_def)
  moreover have "\<exists>client'. etbctl w program_name [''query'', endpoint, query_text] client =
      Some (Inr (shown @ ''bundles='' @ dec (length bundles) @ [newline]), client')"
    if r: "replies (cw_node w) (ns_calls client) endpoint request ?payload" for w endpoint program_name client
  proof -
    have "fits ?payload" using r by (auto simp: replies_def fits_def)
    note decoded = decode_response_bytes [OF sendable _ nil(1) this, of 8 256 "''''"]
    have "etb_remote_query (cw_node w) endpoint query_text (client\<lparr>ns_error := ''''\<rparr>) =
        Some (Inr bundles, client\<lparr>ns_error := '''', ns_calls := Suc (ns_calls client)\<rparr>)"
      using decoded exchange_replies [of "cw_node w" "client\<lparr>ns_error := ''''\<rparr>" endpoint request ?payload] r
      by (simp add: etb_remote_query_def remote_query_eq request_def)
    then show ?thesis
      using c execute_not_empty [OF run]
      by (simp add: etbctl_def ctl_query_def bind_run_def plain_run_def update_run_def return_run_def ctl_step_def
          of_res_def ctl_write_def ctl_defaults_def optional_line_def)
  qed
  ultimately show ?thesis by blast
qed

section \<open>Witnesses\<close>

lemma lone_report: "ct_answers c = [nullary ''p''] \<Longrightarrow>
    report c = Inr (''root='' @ ct_root_digest c @ [newline] @ ''answer 1: p'' @ [newline])"
proof -
  have "etb_atom_canonical_text (nullary ''p'') = Inr ''p''" "dec (Suc 0) = ''1''" by code_simp+
  then show "ct_answers c = [nullary ''p''] \<Longrightarrow> ?thesis" by (simp add: report_def)
qed

lemma etbctl_shows_answer_witness:
  "\<exists>payload root st.
    etb_handle_client 1 lone_node sample_context
      (etb_send_message (etb_encode_query_request synthetic_context ''p'')) idle_state = Some (Inr (True, payload), st) \<and>
    (\<forall>w client. replies (cw_node w) (ns_calls client) ''h:1'' (etb_encode_query_request synthetic_context ''p'') payload \<longrightarrow>
      (\<exists>client'. etbctl w ''etbctl'' [''query'', ''h:1'', ''p''] client =
         Some (Inr ((''root='' @ root @ [newline] @ ''answer 1: p'' @ [newline]) @ ''bundles='' @ dec 1 @ [newline]), client')))"
proof -
  let ?st1 = "idle_state\<lparr>ns_error := '''',
    ns_registry := etb_registry_ingest sample_context True (ns_registry idle_state) (Some ''etbctl'') (Some '''') []\<rparr>"
  obtain rendered c st2 where x: "etb_execute_query 1 lone_node sample_context ''p'' ?st1 =
       Some (Inr [\<lparr>bd_node_id = Some ''n'', bd_query_text = Some ''p'', bd_trace_text = Some rendered,
         bd_certificate = Some (ct_cbor c), bd_proof = []\<rparr>], st2)"
      "c_text rendered" "ct_answers c = [nullary ''p'']"
      "etb_certificate_read_bytes (ct_cbor c) = Inr (c\<lparr>ct_trace := []\<rparr>)" "ns_registry st2 = ns_registry ?st1"
    using lone_execute [of ?st1] by blast
  let ?b = "[\<lparr>bd_node_id = Some ''n'', bd_query_text = Some ''p'', bd_trace_text = Some rendered,
         bd_certificate = Some (ct_cbor c), bd_proof = []\<rparr>]"
  have "etb_registry_snapshot sample_context
      (etb_registry_ingest sample_context True None (Some ''etbctl'') (Some '''') []) =
      [\<lparr>pr_principal = ''n'', pr_endpoint = ''h:0''\<rparr>, \<lparr>pr_principal = ''bank'', pr_endpoint = ''h:9''\<rparr>]"
    by code_simp
  then have m: "texts_ok (etb_registry_snapshot sample_context (ns_registry st2))"
    by (simp add: x(5) idle_state_def texts_ok_def routes_ok_def c_text_def)
  have b: "bundles_ok ?b"
    using x(2) by (simp add: bundles_ok_def wire_bundle_def c_text_def)
  have q: "c_text ''p''" "length (etb_encode_query_request synthetic_context ''p'') < 2 ^ 32"
    by (simp_all add: c_text_def etb_encode_query_request_def synthetic_context_def write_pairs_def
        etb_encode_routes_def etb_cbor_write_text_def etb_cbor_write_map_header_def etb_cbor_write_array_header_def
        etb_cbor_write_type_value_def Let_def)
  have w: "nd_writable lone_node" by (simp add: lone_node_def)
  have c: "etb_certificate_read_bytes (certificate_bytes_of (last ?b)) = Inr (c\<lparr>ct_trace := []\<rparr>)"
    using x(4) by (simp add: certificate_bytes_of_def)
  have s: "report (c\<lparr>ct_trace := []\<rparr>) = Inr (''root='' @ ct_root_digest c @ [newline] @ ''answer 1: p'' @ [newline])"
    using lone_report [of "c\<lparr>ct_trace := []\<rparr>"] x(3) by simp
  from etbctl_shows_answer [OF q w x(1) b m c s] obtain payload where p:
    "etb_handle_client 1 lone_node sample_context
      (etb_send_message (etb_encode_query_request synthetic_context ''p'')) idle_state = Some (Inr (True, payload), st2)"
    "\<forall>w endpoint program_name client. replies (cw_node w) (ns_calls client) endpoint
        (etb_encode_query_request synthetic_context ''p'') payload \<longrightarrow>
      (\<exists>client'. etbctl w program_name [''query'', endpoint, ''p''] client =
         Some (Inr ((''root='' @ ct_root_digest c @ [newline] @ ''answer 1: p'' @ [newline]) @
           ''bundles='' @ dec (length ?b) @ [newline]), client'))"
    by blast
  have "length ?b = 1" by simp
  then show ?thesis using p by metis
qed

end
