(* ===== verification/Telemetry.thy ===== *)
theory Telemetry
  imports Sha256
begin

text \<open>
  The event lines of \<open>src/runtime/telemetry.c\<close>: JSON objects printed into an array on the stack and
  appended to a file. The array is the list of its cells, \<open>None\<close> where nothing was written yet;
  taking the length of a text that meets such a cell, or no terminator at all, is undefined
  behaviour. The time and the file are left to the caller.

  \<open>telemetry_line_exact\<close> shows the line of an event that fits its array, \<open>json_text_round_trip\<close>
  that the escapes are read back, and \<open>telemetry_overread\<close> what happens to a longer one.
\<close>

section \<open>The buffer\<close>

record json_buffer =
  jb_cells :: "char option list"
  jb_used :: nat
  jb_first :: bool

definition put :: "char \<Rightarrow> json_buffer \<Rightarrow> json_buffer" where
  "put ch b = b\<lparr>jb_cells := (jb_cells b)[jb_used b := Some ch], jb_used := Suc (jb_used b)\<rparr>"

definition terminate_text :: "json_buffer \<Rightarrow> json_buffer" where
  "terminate_text b = b\<lparr>jb_cells := (jb_cells b)[jb_used b := Some (CHR 0x00)]\<rparr>"

definition etb_json_append_char :: "char \<Rightarrow> json_buffer \<Rightarrow> bool \<times> json_buffer" where
  "etb_json_append_char ch b =
     (if jb_used b + 1 \<ge> length (jb_cells b) then (False, b) else (True, terminate_text (put ch b)))"

definition json_escape :: "char \<Rightarrow> string" where
  "json_escape ch =
     (if ch = CHR 0x5C then [CHR 0x5C, CHR 0x5C]
      else if ch = CHR 0x22 then [CHR 0x5C, CHR 0x22]
      else if ch = CHR 0x0A then [CHR 0x5C, CHR 0x6E]
      else if ch = CHR 0x0D then [CHR 0x5C, CHR 0x72]
      else if ch = CHR 0x09 then [CHR 0x5C, CHR 0x74]
      else if (of_char ch :: nat) < 0x20 then
        [CHR 0x5C, CHR 0x75, CHR 0x30, CHR 0x30, hex_lut ! ((of_char ch :: nat) div 16),
         hex_lut ! ((of_char ch :: nat) mod 16)]
      else [ch])"

fun etb_json_append_text :: "string \<Rightarrow> json_buffer \<Rightarrow> bool \<times> json_buffer" where
  "etb_json_append_text [] b = (True, terminate_text b)"
| "etb_json_append_text (ch # str) b =
     (if jb_used b + length (json_escape ch) \<ge> length (jb_cells b) then (False, b)
      else etb_json_append_text str (foldl (\<lambda>b c. put c b) b (json_escape ch)))"

text \<open>A chain of appends joined by \<open>||\<close>: the first that fails ends it.\<close>

fun and_then :: "(json_buffer \<Rightarrow> bool \<times> json_buffer) list \<Rightarrow> json_buffer \<Rightarrow> bool \<times> json_buffer" where
  "and_then [] b = (True, b)"
| "and_then (f # fs) b = (case f b of (ok, b) \<Rightarrow> if ok then and_then fs b else (False, b))"

definition etb_json_append_field_separator :: "json_buffer \<Rightarrow> bool \<times> json_buffer" where
  "etb_json_append_field_separator b =
     (case (if jb_first b then (True, b) else etb_json_append_char (CHR 0x2C) b) of
        (ok, b) \<Rightarrow> if ok then (True, b\<lparr>jb_first := False\<rparr>) else (False, b))"

definition etb_json_append_string_field ::
    "string \<Rightarrow> string option \<Rightarrow> json_buffer \<Rightarrow> bool \<times> json_buffer" where
  "etb_json_append_string_field key value b =
     (case value of
        None \<Rightarrow> (True, b)
      | Some value \<Rightarrow>
          and_then [etb_json_append_field_separator, etb_json_append_char (CHR 0x22),
            etb_json_append_text key, etb_json_append_char (CHR 0x22), etb_json_append_char (CHR 0x3A),
            etb_json_append_char (CHR 0x22), etb_json_append_text value,
            etb_json_append_char (CHR 0x22)] b)"

text \<open>\<open>snprintf\<close> to the rest of the array: what fits, and a terminator.\<close>

definition print_rest :: "string \<Rightarrow> json_buffer \<Rightarrow> bool \<times> json_buffer" where
  "print_rest str b =
     (let room = length (jb_cells b) - jb_used b;
          written = foldl (\<lambda>b c. put c b) b (take (room - 1) str);
          cells = jb_cells (terminate_text written)
      in if room = 0 then (False, b)
         else if length str < room then (True, b\<lparr>jb_cells := cells, jb_used := jb_used b + length str\<rparr>)
         else (False, b\<lparr>jb_cells := cells\<rparr>))"

definition etb_json_append_bool_field :: "string \<Rightarrow> bool \<Rightarrow> json_buffer \<Rightarrow> bool \<times> json_buffer" where
  "etb_json_append_bool_field key value =
     and_then [etb_json_append_field_separator,
       print_rest ([CHR 0x22] @ key @ [CHR 0x22, CHR 0x3A] @ (if value then ''true'' else ''false''))]"

definition etb_json_append_unsigned_field :: "string \<Rightarrow> u64 \<Rightarrow> json_buffer \<Rightarrow> bool \<times> json_buffer" where
  "etb_json_append_unsigned_field key value =
     and_then [etb_json_append_field_separator,
       print_rest ([CHR 0x22] @ key @ [CHR 0x22, CHR 0x3A] @ dec (unat value))]"

text \<open>The length of the text in the array.\<close>

fun text_of_cells :: "char option list \<Rightarrow> string res" where
  "text_of_cells [] = Inl Out_of_bounds"
| "text_of_cells (None # cells) = Inl Uninitialised"
| "text_of_cells (Some ch # cells) =
     (if ch = CHR 0x00 then Inr '''' else bind_res (text_of_cells cells) (\<lambda>str. Inr (ch # str)))"

section \<open>The events\<close>

datatype json_field =
    Json_string string "string option" | Json_bool string bool | Json_unsigned string u64

fun append_field :: "json_field \<Rightarrow> json_buffer \<Rightarrow> bool \<times> json_buffer" where
  "append_field (Json_string key value) = etb_json_append_string_field key value"
| "append_field (Json_bool key value) = etb_json_append_bool_field key value"
| "append_field (Json_unsigned key value) = etb_json_append_unsigned_field key value"

definition empty_buffer :: "nat \<Rightarrow> json_buffer" where
  "empty_buffer capacity =
     \<lparr>jb_cells = (replicate capacity None)[0 := Some (CHR 0x00)], jb_used = 0, jb_first = True\<rparr>"

text \<open>The results of the appends are dropped; what the array holds at the end is written with a newline.\<close>

definition etb_telemetry_emit_common_prefix :: "nat \<Rightarrow> u64 \<Rightarrow> string \<Rightarrow> json_buffer" where
  "etb_telemetry_emit_common_prefix capacity now event_type =
     foldl (\<lambda>b f. snd (append_field f b))
       (snd (etb_json_append_char (CHR 0x7B) (empty_buffer capacity)))
       [Json_string ''type'' (Some event_type), Json_unsigned ''ts'' now]"

definition emit :: "nat \<Rightarrow> u64 \<Rightarrow> string \<Rightarrow> json_field list \<Rightarrow> string res" where
  "emit capacity now event_type parts =
     text_of_cells (jb_cells (snd (etb_json_append_char (CHR 0x7D)
       (foldl (\<lambda>b f. snd (append_field f b)) (etb_telemetry_emit_common_prefix capacity now event_type) parts))))"

definition etb_telemetry_write_line :: "string res \<Rightarrow> string res" where
  "etb_telemetry_write_line line = bind_res line (\<lambda>str. Inr (str @ [CHR 0x0A]))"

definition etb_telemetry_emit_node_started ::
    "u64 \<Rightarrow> string option \<Rightarrow> string option \<Rightarrow> string option \<Rightarrow> u64 \<Rightarrow> string res" where
  "etb_telemetry_emit_node_started now node_id endpoint program_path pid =
     etb_telemetry_write_line (emit 4096 now ''node_started''
       [Json_string ''nodeId'' node_id, Json_string ''endpoint'' endpoint,
        Json_string ''programPath'' program_path, Json_unsigned ''pid'' pid])"

definition etb_telemetry_emit_request_received ::
    "u64 \<Rightarrow> string option \<Rightarrow> string option \<Rightarrow> string option \<Rightarrow> string option \<Rightarrow> string option \<Rightarrow>
     string option \<Rightarrow> string option \<Rightarrow> string res" where
  "etb_telemetry_emit_request_received now to_node_id to_endpoint from_node_id from_endpoint op query_text p =
     etb_telemetry_write_line (emit 8192 now ''request_received''
       [Json_string ''toNodeId'' to_node_id, Json_string ''toEndpoint'' to_endpoint,
        Json_string ''fromNodeId'' from_node_id, Json_string ''fromEndpoint'' from_endpoint,
        Json_string ''op'' op, Json_string ''query'' query_text, Json_string ''principal'' p])"

definition etb_telemetry_emit_query_started :: "u64 \<Rightarrow> string option \<Rightarrow> string option \<Rightarrow> string res" where
  "etb_telemetry_emit_query_started now node_id query_text =
     etb_telemetry_write_line (emit 4096 now ''query_started''
       [Json_string ''nodeId'' node_id, Json_string ''query'' query_text])"

definition etb_telemetry_emit_query_finished ::
    "u64 \<Rightarrow> string option \<Rightarrow> string option \<Rightarrow> bool \<Rightarrow> u64 \<Rightarrow> u64 \<Rightarrow> string option \<Rightarrow> string res" where
  "etb_telemetry_emit_query_finished now node_id query_text success answer_count bundle_count error_text =
     etb_telemetry_write_line (emit 4096 now ''query_finished''
       [Json_string ''nodeId'' node_id, Json_string ''query'' query_text, Json_bool ''success'' success,
        Json_unsigned ''answerCount'' answer_count, Json_unsigned ''bundleCount'' bundle_count,
        Json_string ''error'' error_text])"

definition etb_telemetry_emit_bundle_imported ::
    "u64 \<Rightarrow> string option \<Rightarrow> string option \<Rightarrow> string option \<Rightarrow> string res" where
  "etb_telemetry_emit_bundle_imported now node_id source_node_id query_text =
     etb_telemetry_write_line (emit 4096 now ''bundle_imported''
       [Json_string ''nodeId'' node_id, Json_string ''sourceNodeId'' source_node_id,
        Json_string ''query'' query_text])"

definition etb_telemetry_emit_logic_invoke ::
    "u64 \<Rightarrow> string option \<Rightarrow> string option \<Rightarrow> string option \<Rightarrow> string option \<Rightarrow> string res" where
  "etb_telemetry_emit_logic_invoke now node_id goal_text target_principal target_endpoint =
     etb_telemetry_write_line (emit 8192 now ''logic_invoke''
       [Json_string ''nodeId'' node_id, Json_string ''goal'' goal_text,
        Json_string ''targetPrincipal'' target_principal, Json_string ''targetEndpoint'' target_endpoint])"

section \<open>Writing within the array\<close>

text \<open>The array holds a text, terminated or not, and nothing behind it was written.\<close>

definition tail_cells :: "bool \<Rightarrow> nat \<Rightarrow> char option list" where
  "tail_cells terminated n = (if terminated then Some (CHR 0x00) # replicate (n - 1) None else replicate n None)"

definition holds_text :: "nat \<Rightarrow> bool \<Rightarrow> json_buffer \<Rightarrow> string \<Rightarrow> bool" where
  "holds_text capacity terminated b str \<longleftrightarrow>
     length str < capacity \<and> jb_used b = length str \<and>
     jb_cells b = map Some str @ tail_cells terminated (capacity - length str)"

lemma tail_update: "0 < n \<Longrightarrow> (tail_cells t n)[0 := x] = x # replicate (n - 1) None"
  by (cases n) (simp_all add: tail_cells_def)

lemma tail_simps: "tail_cells False n = replicate n None"
  "tail_cells True n = Some (CHR 0x00) # replicate (n - 1) None"
  by (simp_all add: tail_cells_def)

lemma length_tail [simp]: "0 < n \<Longrightarrow> length (tail_cells t n) = n"
  by (simp add: tail_cells_def)

lemma holds_length: "holds_text capacity t b str \<Longrightarrow> length (jb_cells b) = capacity"
  by (simp add: holds_text_def)

lemma holds_put:
  assumes "holds_text capacity t b str" and "length str + 1 < capacity"
  shows "holds_text capacity False (put ch b) (str @ [ch])"
proof -
  have "(map Some str @ tail_cells t (capacity - length str))[length str := Some ch] =
      map Some str @ (tail_cells t (capacity - length str))[0 := Some ch]"
    by (simp add: list_update_append)
  then show ?thesis
    using assms by (simp add: holds_text_def put_def tail_update tail_simps)
qed

lemma holds_puts:
  "holds_text capacity t b str \<Longrightarrow> length str + length cs < capacity \<Longrightarrow>
     holds_text capacity (t \<and> cs = []) (foldl (\<lambda>b c. put c b) b cs) (str @ cs)"
proof (induction cs arbitrary: b str t)
  case Nil
  then show ?case by simp
next
  case (Cons c cs)
  then show ?case using Cons.IH [OF holds_put [of capacity t b str c]] by simp
qed

lemma holds_terminate: "holds_text capacity t b str \<Longrightarrow> holds_text capacity True (terminate_text b) str"
  by (auto simp: holds_text_def terminate_text_def list_update_append tail_update tail_simps)

lemma put_first [simp]: "jb_first (put c b) = jb_first b"
  by (simp add: put_def)

lemma puts_first [simp]: "jb_first (foldl (\<lambda>b c. put c b) b cs) = jb_first b"
  by (induction cs arbitrary: b) simp_all

lemma terminate_first [simp]: "jb_first (terminate_text b) = jb_first b"
  by (simp add: terminate_text_def)

text \<open>An append that succeeds whenever its text leaves room for the terminator.\<close>

definition appends :: "(json_buffer \<Rightarrow> bool \<times> json_buffer) \<Rightarrow> string \<Rightarrow> bool" where
  "appends f s \<longleftrightarrow>
     (\<forall>capacity b str. holds_text capacity True b str \<and> \<not> jb_first b \<and> length str + length s < capacity \<longrightarrow>
        (\<exists>b'. f b = (True, b') \<and> holds_text capacity True b' (str @ s) \<and> \<not> jb_first b'))"

lemma append_char_eq:
  assumes "holds_text capacity t b str" and "length str + 1 < capacity"
  shows "\<exists>b'. etb_json_append_char ch b = (True, b') \<and> holds_text capacity True b' (str @ [ch]) \<and> jb_first b' = jb_first b"
  using holds_terminate [OF holds_put [OF assms]] assms
  by (auto simp: etb_json_append_char_def holds_length [OF assms(1)] holds_text_def [of capacity t])

definition json_escapes :: "string \<Rightarrow> string" where
  "json_escapes s = concat (map json_escape s)"

lemma append_text_eq:
  "holds_text capacity t b str \<Longrightarrow> length str + length (json_escapes s) < capacity \<Longrightarrow>
     \<exists>b'. etb_json_append_text s b = (True, b') \<and> holds_text capacity True b' (str @ json_escapes s) \<and>
       jb_first b' = jb_first b"
proof (induction s arbitrary: b str t)
  case Nil
  then show ?case using holds_terminate by (simp add: json_escapes_def)
next
  case (Cons ch s)
  have fit: "length str + length (json_escape ch) + length (json_escapes s) < capacity"
    using Cons.prems(2) by (simp add: json_escapes_def)
  let ?b = "foldl (\<lambda>b c. put c b) b (json_escape ch)"
  have h: "holds_text capacity (t \<and> json_escape ch = []) ?b (str @ json_escape ch)"
    using holds_puts [OF Cons.prems(1)] fit by simp
  have "etb_json_append_text (ch # s) b = etb_json_append_text s ?b"
    using fit Cons.prems(1) holds_length [OF Cons.prems(1)] by (simp add: holds_text_def)
  then show ?case using Cons.IH [OF h] fit by (simp add: json_escapes_def)
qed

lemma print_rest_eq:
  assumes "holds_text capacity t b str" and "length str + length s < capacity"
  shows "\<exists>b'. print_rest s b = (True, b') \<and> holds_text capacity True b' (str @ s) \<and> jb_first b' = jb_first b"
proof -
  let ?w = "foldl (\<lambda>b c. put c b) b s"
  have used: "jb_used b = length str" and len: "length (jb_cells b) = capacity"
    using assms(1) holds_length by (auto simp: holds_text_def)
  have "holds_text capacity True (terminate_text ?w) (str @ s)"
    by (rule holds_terminate [OF holds_puts [OF assms]])
  moreover have "take (capacity - length str - 1) s = s" using assms(2) by simp
  ultimately show ?thesis
    using assms(2) by (simp add: print_rest_def Let_def used len holds_text_def)
qed

lemma appends_char: "appends (etb_json_append_char ch) [ch]"
  using append_char_eq by (fastforce simp: appends_def)

lemma appends_text: "appends (etb_json_append_text s) (json_escapes s)"
  using append_text_eq by (fastforce simp: appends_def)

lemma appends_print: "appends (print_rest s) s"
  using print_rest_eq by (fastforce simp: appends_def)

lemma appends_seq:
  "appends f s \<Longrightarrow> appends (and_then fs) u \<Longrightarrow> appends (and_then (f # fs)) (s @ u)"
  unfolding appends_def
proof (intro allI impI)
  fix capacity b str
  assume f: "\<forall>capacity b str. holds_text capacity True b str \<and> \<not> jb_first b \<and> length str + length s < capacity \<longrightarrow>
        (\<exists>b'. f b = (True, b') \<and> holds_text capacity True b' (str @ s) \<and> \<not> jb_first b')"
    and fs: "\<forall>capacity b str. holds_text capacity True b str \<and> \<not> jb_first b \<and> length str + length u < capacity \<longrightarrow>
        (\<exists>b'. and_then fs b = (True, b') \<and> holds_text capacity True b' (str @ u) \<and> \<not> jb_first b')"
    and b: "holds_text capacity True b str \<and> \<not> jb_first b \<and> length str + length (s @ u) < capacity"
  obtain b1 where b1: "f b = (True, b1)" "holds_text capacity True b1 (str @ s)" "\<not> jb_first b1"
    using f b by fastforce
  then obtain b2 where "and_then fs b1 = (True, b2)" "holds_text capacity True b2 (str @ s @ u)" "\<not> jb_first b2"
    using fs [rule_format, of capacity b1 "str @ s"] b by auto
  then show "\<exists>b'. and_then (f # fs) b = (True, b') \<and> holds_text capacity True b' (str @ s @ u) \<and> \<not> jb_first b'"
    using b1(1) by simp
qed

lemma and_then_append:
  "and_then (fs @ gs) b = (case and_then fs b of (ok, b) \<Rightarrow> if ok then and_then gs b else (False, b))"
  by (induction fs arbitrary: b) (auto split: prod.splits)

lemma appends_nil: "appends (and_then []) []"
  by (simp add: appends_def)

lemma appends_separator: "appends etb_json_append_field_separator [CHR 0x2C]"
  unfolding appends_def
proof (intro allI impI)
  fix capacity b str
  assume b: "holds_text capacity True b str \<and> \<not> jb_first b \<and> length str + length [CHR 0x2C] < capacity"
  then obtain b' where "etb_json_append_char (CHR 0x2C) b = (True, b')" "holds_text capacity True b' (str @ [CHR 0x2C])"
    using append_char_eq by fastforce
  then show "\<exists>b'. etb_json_append_field_separator b = (True, b') \<and> holds_text capacity True b' (str @ [CHR 0x2C]) \<and> \<not> jb_first b'"
    using b by (simp add: etb_json_append_field_separator_def holds_text_def)
qed

section \<open>The line of an event\<close>

definition quoted :: "string \<Rightarrow> string" where
  "quoted s = [CHR 0x22] @ s @ [CHR 0x22]"

fun field_text :: "json_field \<Rightarrow> string" where
  "field_text (Json_string key None) = ''''"
| "field_text (Json_string key (Some value)) =
     quoted (json_escapes key) @ [CHR 0x3A] @ quoted (json_escapes value)"
| "field_text (Json_bool key value) = quoted key @ [CHR 0x3A] @ (if value then ''true'' else ''false'')"
| "field_text (Json_unsigned key value) = quoted key @ [CHR 0x3A] @ dec (unat value)"

definition next_field_text :: "json_field \<Rightarrow> string" where
  "next_field_text f = (if field_text f = '''' then '''' else [CHR 0x2C] @ field_text f)"

definition json_head :: "u64 \<Rightarrow> string \<Rightarrow> string" where
  "json_head now event_type =
     [CHR 0x7B] @ field_text (Json_string ''type'' (Some event_type)) @ next_field_text (Json_unsigned ''ts'' now)"

definition json_line :: "u64 \<Rightarrow> string \<Rightarrow> json_field list \<Rightarrow> string" where
  "json_line now event_type parts =
     json_head now event_type @ concat (map next_field_text parts) @ [CHR 0x7D]"

lemma appends_string_body:
  "appends (and_then [etb_json_append_char (CHR 0x22), etb_json_append_text key, etb_json_append_char (CHR 0x22),
     etb_json_append_char (CHR 0x3A), etb_json_append_char (CHR 0x22), etb_json_append_text value,
     etb_json_append_char (CHR 0x22)]) (field_text (Json_string key (Some value)))"
proof -
  have "appends (and_then [etb_json_append_char (CHR 0x22), etb_json_append_text key, etb_json_append_char (CHR 0x22),
      etb_json_append_char (CHR 0x3A), etb_json_append_char (CHR 0x22), etb_json_append_text value,
      etb_json_append_char (CHR 0x22)])
    ([CHR 0x22] @ json_escapes key @ [CHR 0x22] @ [CHR 0x3A] @ [CHR 0x22] @ json_escapes value @ [CHR 0x22] @ [])"
    by (intro appends_seq appends_char appends_text appends_nil)
  then show ?thesis by (simp add: quoted_def)
qed

lemma appends_field: "appends (append_field f) (next_field_text f)"
proof (cases f)
  case (Json_string key v)
  show ?thesis
  proof (cases v)
    case None
    then show ?thesis
      by (simp add: Json_string appends_def next_field_text_def etb_json_append_string_field_def)
  next
    case (Some w)
    have "appends (append_field f) ([CHR 0x2C] @ field_text (Json_string key (Some w)))"
      using appends_seq [OF appends_separator appends_string_body [of key w]]
      by (simp add: Json_string Some etb_json_append_string_field_def [abs_def] del: field_text.simps and_then.simps)
    then show ?thesis by (simp add: Json_string Some next_field_text_def quoted_def)
  qed
next
  case (Json_bool key v)
  have "appends (append_field f) ([CHR 0x2C] @ ([CHR 0x22] @ key @ [CHR 0x22, CHR 0x3A] @
      (if v then ''true'' else ''false'')) @ [])"
    unfolding Json_bool append_field.simps etb_json_append_bool_field_def
    by (intro appends_seq appends_separator appends_print appends_nil)
  then show ?thesis by (simp add: Json_bool next_field_text_def quoted_def)
next
  case (Json_unsigned key v)
  have "appends (append_field f) ([CHR 0x2C] @ ([CHR 0x22] @ key @ [CHR 0x22, CHR 0x3A] @ dec (unat v)) @ [])"
    unfolding Json_unsigned append_field.simps etb_json_append_unsigned_field_def
    by (intro appends_seq appends_separator appends_print appends_nil)
  then show ?thesis by (simp add: Json_unsigned next_field_text_def quoted_def)
qed

lemma append_field_eq:
  assumes "holds_text capacity True b str" and "\<not> jb_first b" and "length str + length (next_field_text f) < capacity"
  shows "holds_text capacity True (snd (append_field f b)) (str @ next_field_text f) \<and> \<not> jb_first (snd (append_field f b))"
  using appends_field [of f, unfolded appends_def, rule_format, of capacity b str] assms by auto

lemma append_fields_eq:
  "holds_text capacity True b str \<Longrightarrow> \<not> jb_first b \<Longrightarrow>
     length str + length (concat (map next_field_text parts)) < capacity \<Longrightarrow>
     holds_text capacity True (foldl (\<lambda>b f. snd (append_field f b)) b parts)
       (str @ concat (map next_field_text parts)) \<and>
     \<not> jb_first (foldl (\<lambda>b f. snd (append_field f b)) b parts)"
proof (induction parts arbitrary: b str)
  case Nil
  then show ?case by simp
next
  case (Cons f parts)
  have h: "holds_text capacity True (snd (append_field f b)) (str @ next_field_text f) \<and>
      \<not> jb_first (snd (append_field f b))"
    using append_field_eq [OF Cons.prems(1,2)] Cons.prems(3) by simp
  have "length (str @ next_field_text f) + length (concat (map next_field_text parts)) < capacity"
    using Cons.prems(3) by simp
  then show ?case using Cons.IH [of "snd (append_field f b)" "str @ next_field_text f"] h by simp
qed

lemma empty_holds: "0 < capacity \<Longrightarrow> holds_text capacity True (empty_buffer capacity) ''''"
  by (cases capacity) (simp_all add: holds_text_def empty_buffer_def tail_simps)

lemma prefix_eq:
  assumes "length (json_head now event_type) < capacity"
  shows "holds_text capacity True (etb_telemetry_emit_common_prefix capacity now event_type) (json_head now event_type) \<and>
    \<not> jb_first (etb_telemetry_emit_common_prefix capacity now event_type)"
proof -
  let ?ty = "field_text (Json_string ''type'' (Some event_type))"
  have len: "0 < capacity" "1 < capacity" using assms by (simp_all add: json_head_def)
  have n: "length [CHR 0x7B] + length ?ty < capacity" using assms by (simp add: json_head_def)
  obtain b1 where b1: "etb_json_append_char (CHR 0x7B) (empty_buffer capacity) = (True, b1)"
    "holds_text capacity True b1 [CHR 0x7B]" "jb_first b1"
    using append_char_eq [OF empty_holds [OF len(1)]] len(2) by (fastforce simp: empty_buffer_def)
  let ?b2 = "b1\<lparr>jb_first := False\<rparr>"
  have h2: "holds_text capacity True ?b2 [CHR 0x7B]" using b1(2) by (simp add: holds_text_def)
  obtain b3 where b3: "and_then [etb_json_append_char (CHR 0x22), etb_json_append_text ''type'',
      etb_json_append_char (CHR 0x22), etb_json_append_char (CHR 0x3A), etb_json_append_char (CHR 0x22),
      etb_json_append_text event_type, etb_json_append_char (CHR 0x22)] ?b2 = (True, b3)"
    "holds_text capacity True b3 ([CHR 0x7B] @ ?ty)" "\<not> jb_first b3"
    using appends_string_body [of "''type''" event_type, unfolded appends_def, rule_format, OF conjI [OF h2 conjI [OF _ n]]]
    by auto
  have "append_field (Json_string ''type'' (Some event_type)) b1 = (True, b3)"
    using b1(3) b3(1) by (simp add: etb_json_append_string_field_def etb_json_append_field_separator_def)
  moreover have "holds_text capacity True (snd (append_field (Json_unsigned ''ts'' now) b3))
      (([CHR 0x7B] @ ?ty) @ next_field_text (Json_unsigned ''ts'' now)) \<and>
      \<not> jb_first (snd (append_field (Json_unsigned ''ts'' now) b3))"
    using assms by (intro append_field_eq b3) (simp add: json_head_def)
  ultimately show ?thesis
    using b1(1) by (simp add: etb_telemetry_emit_common_prefix_def json_head_def del: append_field.simps field_text.simps)
qed

lemma text_of_cells_eq:
  "CHR 0x00 \<notin> set str \<Longrightarrow> text_of_cells (map Some str @ Some (CHR 0x00) # cells) = Inr str"
  by (induction str) auto

lemma text_of_cells_open:
  "CHR 0x00 \<notin> set str \<Longrightarrow> text_of_cells (map Some str @ None # cells) = Inl Uninitialised"
  by (induction str) auto

lemma emit_eq:
  assumes "length (json_line now event_type parts) < capacity" and "CHR 0x00 \<notin> set (json_line now event_type parts)"
  shows "emit capacity now event_type parts = Inr (json_line now event_type parts)"
proof -
  let ?p = "json_head now event_type @ concat (map next_field_text parts)"
  let ?b = "foldl (\<lambda>b f. snd (append_field f b)) (etb_telemetry_emit_common_prefix capacity now event_type) parts"
  have "holds_text capacity True ?b ?p"
    using append_fields_eq [of capacity _ "json_head now event_type" parts] prefix_eq assms(1)
    by (simp add: json_line_def)
  then obtain b' where "etb_json_append_char (CHR 0x7D) ?b = (True, b')" "holds_text capacity True b' (?p @ [CHR 0x7D])"
    using append_char_eq assms(1) by (fastforce simp: json_line_def)
  then show ?thesis
    using text_of_cells_eq [OF assms(2)] by (simp add: emit_def holds_text_def json_line_def tail_simps)
qed

section \<open>Escapes\<close>

text \<open>Reading a JSON string up to its closing quote.\<close>

definition unhex :: "char \<Rightarrow> nat" where
  "unhex c = (if is_digit c then of_char c - 48 else of_char c - 87)"

definition json_unescape :: "char \<Rightarrow> char option" where
  "json_unescape c =
     (if c = CHR 0x6E then Some (CHR 0x0A) else if c = CHR 0x72 then Some (CHR 0x0D)
      else if c = CHR 0x74 then Some (CHR 0x09) else if c \<in> {CHR 0x22, CHR 0x5C} then Some c else None)"

fun json_read :: "string \<Rightarrow> (string \<times> string) option" where
  "json_read [] = None"
| "json_read (c # s) =
     (if c = CHR 0x22 then Some ('''', s)
      else if c \<noteq> CHR 0x5C then map_option (\<lambda>(t, r). (c # t, r)) (json_read s)
      else case s of
             [] \<Rightarrow> None
           | e # s \<Rightarrow>
               if e = CHR 0x75 then
                 (case s of
                    a # b # h # l # s \<Rightarrow>
                      map_option (\<lambda>(t, r). (char_of (unhex h * 16 + unhex l) # t, r)) (json_read s)
                  | _ \<Rightarrow> None)
               else
                 (case json_unescape e of
                    None \<Rightarrow> None
                  | Some x \<Rightarrow> map_option (\<lambda>(t, r). (x # t, r)) (json_read s)))"

lemma unhex_lut: "n < 16 \<Longrightarrow> unhex (hex_lut ! n) = n \<and> 0x20 \<le> (of_char (hex_lut ! n) :: nat)"
proof -
  have "\<forall>n \<in> set [0..<16]. unhex (hex_lut ! n) = n \<and> 0x20 \<le> (of_char (hex_lut ! n) :: nat)" by code_simp
  then show "n < 16 \<Longrightarrow> ?thesis" by simp
qed

lemma json_read_escape:
  "json_read (json_escape ch @ s) = map_option (\<lambda>(t, r). (ch # t, r)) (json_read s)"
proof -
  have "char_of (unhex (hex_lut ! ((of_char ch :: nat) div 16)) * 16 + unhex (hex_lut ! ((of_char ch :: nat) mod 16))) = ch"
    if "(of_char ch :: nat) < 0x20"
    using that unhex_lut [of "(of_char ch :: nat) div 16"] unhex_lut [of "(of_char ch :: nat) mod 16"] by simp
  then show ?thesis by (simp add: json_escape_def json_unescape_def)
qed

lemma json_escape_visible: "c \<in> set (json_escape ch) \<Longrightarrow> 0x20 \<le> (of_char c :: nat)"
  using unhex_lut [of "(of_char ch :: nat) div 16"] unhex_lut [of "(of_char ch :: nat) mod 16"]
  by (auto simp: json_escape_def split: if_splits)

lemma json_read_escapes: "json_read (json_escapes s @ CHR 0x22 # rest) = Some (s, rest)"
proof (induction s)
  case Nil
  then show ?case by (simp add: json_escapes_def)
next
  case (Cons ch s)
  have "json_escapes (ch # s) = json_escape ch @ json_escapes s" by (simp add: json_escapes_def)
  then show ?case using Cons json_read_escape by simp
qed

lemma json_escapes_visible: "c \<in> set (json_escapes s) \<Longrightarrow> 0x20 \<le> (of_char c :: nat)"
  using json_escape_visible by (auto simp: json_escapes_def)

definition visible :: "string \<Rightarrow> bool" where
  "visible s \<longleftrightarrow> list_all (\<lambda>c. 0x20 \<le> (of_char c :: nat)) s"

lemma visible_append [simp]: "visible (s @ t) \<longleftrightarrow> visible s \<and> visible t"
  by (auto simp: visible_def)

lemma visible_Cons [simp]: "visible (c # s) \<longleftrightarrow> 0x20 \<le> (of_char c :: nat) \<and> visible s"
  by (simp add: visible_def)

lemma visible_simps [simp]: "visible ''''" "visible (json_escapes s)" "visible (dec n)"
proof -
  show "visible (json_escapes s)" using json_escapes_visible by (auto simp: visible_def list_all_iff)
  show "visible (dec n)" using dec_digits [of _ n] by (fastforce simp: visible_def list_all_iff is_digit_def)
qed (simp add: visible_def)

text \<open>The keys that are printed as they are, which the program gives as constants.\<close>

fun plain_key :: "json_field \<Rightarrow> bool" where
  "plain_key (Json_string key v) \<longleftrightarrow> True"
| "plain_key (Json_bool key v) \<longleftrightarrow> visible key"
| "plain_key (Json_unsigned key v) \<longleftrightarrow> visible key"

lemma visible_field: "plain_key f \<Longrightarrow> visible (next_field_text f)"
  by (cases f rule: field_text.cases) (auto simp: next_field_text_def quoted_def)

lemma visible_line: "list_all plain_key parts \<Longrightarrow> visible (json_line now event_type parts)"
proof -
  assume p: "list_all plain_key parts"
  have "visible (concat (map next_field_text parts))"
    using p visible_field by (induction parts) auto
  moreover have "visible (json_head now event_type)"
    using visible_field [of "Json_unsigned ''ts'' now"]
    by (simp add: json_head_def quoted_def)
  ultimately show ?thesis by (simp add: json_line_def)
qed

lemma visible_no_nul: "visible s \<Longrightarrow> CHR 0x00 \<notin> set s"
  by (auto simp: visible_def list_all_iff)

text \<open>
  C37. One event, one line. An event whose line fits its array is written as that line and a newline:
  the braces, the type, the time and the fields that are present, in order. Whatever the texts in it,
  the line has no control character, so no text of a peer ends it early; and each text, as escaped,
  reads back as itself up to the quote that closes it.
\<close>

theorem telemetry_one_line:
  assumes "list_all plain_key parts" and "length (json_line now event_type parts) < capacity"
  shows "etb_telemetry_write_line (emit capacity now event_type parts) =
      Inr (json_line now event_type parts @ [CHR 0x0A]) \<and>
    list_all (\<lambda>c. 0x20 \<le> (of_char c :: nat)) (json_line now event_type parts) \<and>
    json_read (json_escapes s @ CHR 0x22 # rest) = Some (s, rest)"
  using emit_eq [OF assms(2) visible_no_nul [OF visible_line [OF assms(1)]]] visible_line [OF assms(1)]
    json_read_escapes
  by (simp add: etb_telemetry_write_line_def visible_def)

section \<open>Events that do not fit\<close>

text \<open>A text of ordinary characters that is cut: the array is full, without a terminator.\<close>

lemma append_text_full:
  "holds_text capacity t b str \<Longrightarrow> list_all (\<lambda>c. json_escape c = [c]) s \<Longrightarrow>
     length str + length s \<ge> capacity \<Longrightarrow> (t \<longrightarrow> length str + 1 < capacity) \<Longrightarrow>
     \<exists>b'. etb_json_append_text s b = (False, b') \<and> jb_first b' = jb_first b \<and>
       holds_text capacity False b' (str @ take (capacity - 1 - length str) s)"
proof (induction s arbitrary: b str t)
  case Nil
  then show ?case by (simp add: holds_text_def)
next
  case (Cons c s)
  show ?case
  proof (cases "length str + 1 < capacity")
    case True
    note h = holds_put [OF Cons.prems(1) True, of c]
    have "etb_json_append_text (c # s) b = etb_json_append_text s (put c b)"
      using True Cons.prems(1,2) holds_length [OF Cons.prems(1)] by (simp add: holds_text_def)
    moreover obtain b' where "etb_json_append_text s (put c b) = (False, b')" "jb_first b' = jb_first b"
      "holds_text capacity False b' ((str @ [c]) @ take (capacity - 1 - length (str @ [c])) s)"
      using Cons.IH [OF h] Cons.prems(2,3) by auto
    moreover have "take (capacity - 1 - length str) (c # s) = c # take (capacity - 1 - length (str @ [c])) s"
      using True by (simp add: take_Cons')
    ultimately show ?thesis by simp
  next
    case False
    then have t: "\<not> t" and "capacity - 1 - length str = 0" using Cons.prems(4) by auto
    moreover have "etb_json_append_text (c # s) b = (False, b)"
      using False Cons.prems(1,2) holds_length [OF Cons.prems(1)] by (simp add: holds_text_def)
    ultimately show ?thesis using Cons.prems(1) by simp
  qed
qed

text \<open>
  A long query makes the node read past the array. The event that the execution of a query
  begins with is printed to 4096 bytes; when the query, of ordinary characters, does not fit, the
  append stops in the middle of it, no terminator is written any more, and the length of the text is
  taken over cells that were never written.
\<close>

theorem telemetry_overread:
  fixes now node_id
  defines "before \<equiv> json_head now ''query_started'' @ next_field_text (Json_string ''nodeId'' (Some node_id)) @
      [CHR 0x2C] @ quoted ''query'' @ [CHR 0x3A, CHR 0x22]"
  assumes "list_all (\<lambda>c. json_escape c = [c]) query_text" and "CHR 0x00 \<notin> set query_text"
    and "length before + 1 < 4096" and "length before + length query_text \<ge> 4096"
  shows "etb_telemetry_emit_query_started now (Some node_id) (Some query_text) = Inl Uninitialised"
proof -
  let ?N = "Json_string ''nodeId'' (Some node_id)" and ?Q = "Json_string ''query'' (Some query_text)"
  let ?p = "json_head now ''query_started'' @ next_field_text ?N"
  let ?b0 = "etb_telemetry_emit_common_prefix 4096 now ''query_started''"
  have len: "length ?p + 1 < 4096" using assms(4) by (simp add: before_def)
  have h1: "holds_text 4096 True (snd (append_field ?N ?b0)) ?p \<and> \<not> jb_first (snd (append_field ?N ?b0))"
    using append_field_eq [of 4096 ?b0 "json_head now ''query_started''" ?N] prefix_eq [of now _ 4096] len by simp
  let ?open = "[CHR 0x2C] @ [CHR 0x22] @ json_escapes ''query'' @ [CHR 0x22] @ [CHR 0x3A] @ [CHR 0x22] @ []"
  have esc: "json_escapes ''query'' = ''query''" by code_simp
  have "appends (and_then [etb_json_append_field_separator, etb_json_append_char (CHR 0x22),
      etb_json_append_text ''query'', etb_json_append_char (CHR 0x22), etb_json_append_char (CHR 0x3A),
      etb_json_append_char (CHR 0x22)]) ?open"
    by (intro appends_seq appends_separator appends_char appends_text appends_nil)
  moreover have "length ?p + length ?open < 4096" using assms(4) by (simp add: before_def esc quoted_def)
  ultimately obtain b2 where b2: "and_then [etb_json_append_field_separator, etb_json_append_char (CHR 0x22),
      etb_json_append_text ''query'', etb_json_append_char (CHR 0x22), etb_json_append_char (CHR 0x3A),
      etb_json_append_char (CHR 0x22)] (snd (append_field ?N ?b0)) = (True, b2)"
    "holds_text 4096 True b2 (?p @ ?open)"
    using h1 unfolding appends_def by blast
  have before: "?p @ ?open = before" by (simp add: before_def esc quoted_def)
  obtain b3 where b3: "etb_json_append_text query_text b2 = (False, b3)"
    "holds_text 4096 False b3 (before @ take (4096 - 1 - length before) query_text)"
    using append_text_full [OF b2(2) [unfolded before] assms(2)] assms(4,5) by auto
  have "append_field ?Q b = and_then ([etb_json_append_field_separator, etb_json_append_char (CHR 0x22),
      etb_json_append_text ''query'', etb_json_append_char (CHR 0x22), etb_json_append_char (CHR 0x3A),
      etb_json_append_char (CHR 0x22)] @ [etb_json_append_text query_text, etb_json_append_char (CHR 0x22)]) b" for b
    by (simp only: append_field.simps etb_json_append_string_field_def option.case append.simps)
  then have "append_field ?Q (snd (append_field ?N ?b0)) = (False, b3)"
    using b2(1) b3(1) by (simp only: and_then_append prod.case if_True and_then.simps(2)) simp
  moreover let ?s = "before @ take (4096 - 1 - length before) query_text"
  have "length ?s = 4095" using assms(4,5) by simp
  then have cells: "jb_cells b3 = map Some ?s @ [None]" "jb_used b3 = 4095" "length (jb_cells b3) = 4096"
    using b3(2) by (simp_all add: holds_text_def tail_simps)
  then have "etb_json_append_char (CHR 0x7D) b3 = (False, b3)" by (simp add: etb_json_append_char_def)
  moreover have "CHR 0x00 \<notin> set ?s"
  proof -
    have "visible before"
      using visible_line [of "[]" now "''query_started''"] visible_field [of ?N]
      by (simp add: before_def json_line_def quoted_def)
    then show ?thesis using visible_no_nul assms(3) by (auto dest: in_set_takeD)
  qed
  ultimately show ?thesis
    using cells(1) text_of_cells_open [of ?s "[]"]
    by (simp add: etb_telemetry_emit_query_started_def etb_telemetry_write_line_def emit_def)
qed

section \<open>Witnesses\<close>

lemma telemetry_one_line_witness:
  "etb_telemetry_emit_query_started 7 (Some ''n'') (Some ''p'') =
     Inr (json_line 7 ''query_started'' [Json_string ''nodeId'' (Some ''n''), Json_string ''query'' (Some ''p'')] @
       [CHR 0x0A])"
proof -
  let ?parts = "[Json_string ''nodeId'' (Some ''n''), Json_string ''query'' (Some ''p'')]"
  have "length (json_line 7 ''query_started'' ?parts) < 100" by code_simp
  then have "length (json_line 7 ''query_started'' ?parts) < 4096" by simp
  then show ?thesis
    using telemetry_one_line [of ?parts 7 "''query_started''" 4096 "''''" "''''"]
    by (simp add: etb_telemetry_emit_query_started_def)
qed

lemma telemetry_overread_witness:
  "etb_telemetry_emit_query_started 7 (Some ''n'') (Some (replicate 5000 (CHR ''p''))) = Inl Uninitialised"
proof -
  have "json_escape (CHR ''p'') = [CHR ''p'']" by code_simp
  moreover have "length (json_head 7 ''query_started'' @ next_field_text (Json_string ''nodeId'' (Some ''n'')) @
      [CHR 0x2C] @ quoted ''query'' @ [CHR 0x3A, CHR 0x22]) < 100" by code_simp
  ultimately show ?thesis
    by (intro telemetry_overread) (simp_all add: list_all_iff)
qed

end
