(* ===== verification/Membership.thy ===== *)
theory Membership
  imports Etb_Prelude
begin

text \<open>
  The membership table of \<open>src/runtime/swim.c\<close> and \<open>src/runtime/peer.c\<close>: peers with an incarnation
  number, the time of their last heartbeat and a status. A table is the list of its peers; it
  implements a finite map from node names, in which an update wins unless a newer incarnation is
  known (\<open>membership_refines\<close>). Times are 64-bit and their sum wraps (\<open>etb_membership_expire_exact\<close>).
\<close>

section \<open>The table\<close>

datatype etb_peer_status =
    ETB_PEER_ALIVE | ETB_PEER_SUSPECT | ETB_PEER_DEAD | ETB_PEER_DRAINING | ETB_PEER_DISABLED

record etb_peer_info =
  pi_node_id :: string
  pi_endpoint :: string
  pi_incarnation :: u64
  pi_last_heartbeat_ms :: u64
  pi_status :: etb_peer_status

record etb_membership =
  ms_items :: "etb_peer_info list"
  ms_lease_ms :: u64

definition etb_membership_init :: "u64 \<Rightarrow> etb_membership" where
  "etb_membership_init lease_ms = \<lparr>ms_items = [], ms_lease_ms = lease_ms\<rparr>"

definition refresh :: "etb_peer_info \<Rightarrow> etb_peer_info \<Rightarrow> etb_peer_info" where
  "refresh peer item =
     (if pi_incarnation item \<le> pi_incarnation peer
      then item\<lparr>pi_incarnation := pi_incarnation peer,
                pi_last_heartbeat_ms := pi_last_heartbeat_ms peer, pi_status := pi_status peer\<rparr>
      else item)"

fun upsert_items :: "etb_peer_info list \<Rightarrow> etb_peer_info \<Rightarrow> etb_peer_info list" where
  "upsert_items [] peer = [peer]"
| "upsert_items (item # items) peer =
     (if pi_node_id item = pi_node_id peer then refresh peer item # items
      else item # upsert_items items peer)"

definition etb_membership_upsert :: "etb_membership \<Rightarrow> etb_peer_info \<Rightarrow> etb_membership" where
  "etb_membership_upsert membership peer =
     membership\<lparr>ms_items := upsert_items (ms_items membership) peer\<rparr>"

definition expire_item :: "u64 \<Rightarrow> u64 \<Rightarrow> etb_peer_info \<Rightarrow> etb_peer_info" where
  "expire_item lease_ms now_ms item =
     (if pi_status item \<noteq> ETB_PEER_DISABLED \<and> pi_status item \<noteq> ETB_PEER_DRAINING \<and>
         now_ms > pi_last_heartbeat_ms item + lease_ms
      then item\<lparr>pi_status := ETB_PEER_DEAD\<rparr> else item)"

definition etb_membership_expire :: "etb_membership \<Rightarrow> u64 \<Rightarrow> etb_membership" where
  "etb_membership_expire membership now_ms =
     membership\<lparr>ms_items := map (expire_item (ms_lease_ms membership) now_ms) (ms_items membership)\<rparr>"

definition etb_membership_find :: "etb_membership \<Rightarrow> string \<Rightarrow> etb_peer_info option" where
  "etb_membership_find membership node_id =
     List.find (\<lambda>item. pi_node_id item = node_id) (ms_items membership)"

section \<open>The map it implements\<close>

text \<open>The table as a map, its invariant, and the operations on maps.\<close>

definition members :: "etb_membership \<Rightarrow> (string \<rightharpoonup> etb_peer_info)" where
  "members membership = etb_membership_find membership"

definition membership_ok :: "etb_membership \<Rightarrow> bool" where
  "membership_ok membership \<longleftrightarrow> distinct (map pi_node_id (ms_items membership))"

definition map_upsert :: "(string \<rightharpoonup> etb_peer_info) \<Rightarrow> etb_peer_info \<Rightarrow> (string \<rightharpoonup> etb_peer_info)" where
  "map_upsert m peer = m(pi_node_id peer \<mapsto>
     (case m (pi_node_id peer) of None \<Rightarrow> peer | Some item \<Rightarrow> refresh peer item))"

lemma refresh_node_id [simp]: "pi_node_id (refresh peer item) = pi_node_id item"
  by (simp add: refresh_def)

lemma find_upsert:
  "List.find (\<lambda>item. pi_node_id item = n) (upsert_items items peer) =
     (if n = pi_node_id peer
      then Some (case List.find (\<lambda>item. pi_node_id item = n) items of
                   None \<Rightarrow> peer | Some item \<Rightarrow> refresh peer item)
      else List.find (\<lambda>item. pi_node_id item = n) items)"
  by (induction items) auto

lemma upsert_ids:
  "set (map pi_node_id (upsert_items items peer)) = insert (pi_node_id peer) (set (map pi_node_id items))"
  by (induction items) auto

lemma upsert_distinct: "distinct (map pi_node_id items) \<Longrightarrow> distinct (map pi_node_id (upsert_items items peer))"
proof (induction items)
  case (Cons item items)
  then show ?case using upsert_ids [of items peer] by auto
qed simp

lemma expire_node_id [simp]: "pi_node_id (expire_item lease now item) = pi_node_id item"
  by (simp add: expire_item_def)

lemma find_expire:
  "List.find (\<lambda>item. pi_node_id item = n) (map (expire_item lease now) items) =
     map_option (expire_item lease now) (List.find (\<lambda>item. pi_node_id item = n) items)"
  by (induction items) auto


section \<open>A sequence of updates\<close>

text \<open>
  The update a node is known by: the last one among those with the highest incarnation. The endpoint
  is the one of the first update.
\<close>

fun newest :: "etb_peer_info list \<Rightarrow> etb_peer_info option" where
  "newest [] = None"
| "newest (p # ps) =
     (case newest ps of
        None \<Rightarrow> Some p
      | Some q \<Rightarrow> Some (if pi_incarnation q < pi_incarnation p then p else q))"

definition known :: "etb_peer_info list \<Rightarrow> etb_peer_info option" where
  "known updates =
     (case updates of
        [] \<Rightarrow> None
      | p # _ \<Rightarrow> map_option (\<lambda>q. q\<lparr>pi_endpoint := pi_endpoint p\<rparr>) (newest updates))"

lemma newest_snoc:
  "newest (ps @ [p]) =
     (case newest ps of None \<Rightarrow> Some p | Some q \<Rightarrow> Some (if pi_incarnation q \<le> pi_incarnation p then p else q))"
proof (induction ps)
  case (Cons a ps)
  then show ?case by (cases "newest ps") (auto split: if_splits)
qed simp

lemma newest_in: "newest ps = Some q \<Longrightarrow> q \<in> set ps \<and> (\<forall>p \<in> set ps. pi_incarnation p \<le> pi_incarnation q)"
proof (induction ps arbitrary: q)
  case (Cons a ps)
  show ?case
  proof (cases "newest ps")
    case None
    then have "ps = []" by (cases ps) (auto split: option.splits)
    then show ?thesis using Cons.prems by simp
  next
    case (Some r)
    have r: "r \<in> set ps" "\<forall>p \<in> set ps. pi_incarnation p \<le> pi_incarnation r" using Cons.IH [OF Some] by auto
    show ?thesis
    proof (cases "pi_incarnation r < pi_incarnation a")
      case True
      then have "q = a" using Cons.prems Some by simp
      then show ?thesis using r True by auto
    next
      case False
      then have "q = r" using Cons.prems Some by simp
      then show ?thesis using r False by auto
    qed
  qed
qed simp

lemma newest_None: "newest ps = None \<longleftrightarrow> ps = []"
  by (cases ps) (auto split: option.split)

lemma known_snoc:
  assumes "pi_node_id p = n" and "\<forall>q \<in> set ps. pi_node_id q = n"
  shows "known (ps @ [p]) = Some (case known ps of None \<Rightarrow> p | Some item \<Rightarrow> refresh p item)"
proof (cases ps)
  case Nil
  then show ?thesis by (simp add: known_def)
next
  case (Cons a as)
  then have "newest ps \<noteq> None" by (simp only: newest_None) simp
  then obtain q where q: "newest ps = Some q" by blast
  have "pi_node_id q = n" using newest_in [OF q] assms(2) by blast
  then have "(if pi_incarnation q \<le> pi_incarnation p then p else q)\<lparr>pi_endpoint := pi_endpoint a\<rparr> =
      refresh p (q\<lparr>pi_endpoint := pi_endpoint a\<rparr>)"
    using assms(1) by (cases p; cases q) (auto simp: refresh_def)
  then show ?thesis using newest_snoc [of ps p] q Cons by (simp add: known_def)
qed

lemma members_updates:
  "members (foldl etb_membership_upsert (etb_membership_init lease_ms) updates) n =
     known (filter (\<lambda>p. pi_node_id p = n) updates)"
proof (induction updates rule: rev_induct)
  case Nil
  then show ?case by (simp add: members_def etb_membership_find_def etb_membership_init_def known_def)
next
  case (snoc p updates)
  let ?m = "foldl etb_membership_upsert (etb_membership_init lease_ms) updates"
  have "members (etb_membership_upsert ?m p) = map_upsert (members ?m) p"
    by (rule ext) (simp add: members_def etb_membership_find_def etb_membership_upsert_def find_upsert map_upsert_def)
  then have eq: "members (foldl etb_membership_upsert (etb_membership_init lease_ms) (updates @ [p])) n =
      map_upsert (members ?m) p n" by simp
  show ?case
  proof (cases "pi_node_id p = n")
    case True
    then have "map_upsert (members ?m) p n =
        Some (case members ?m n of None \<Rightarrow> p | Some item \<Rightarrow> refresh p item)"
      by (simp add: map_upsert_def)
    also have "\<dots> = known (filter (\<lambda>p. pi_node_id p = n) updates @ [p])"
      using known_snoc [OF True, of "filter (\<lambda>p. pi_node_id p = n) updates"] by (simp add: snoc.IH)
    finally show ?thesis unfolding eq using True by simp
  next
    case False
    then have "map_upsert (members ?m) p n = members ?m n" by (simp add: map_upsert_def)
    then show ?thesis unfolding eq using False snoc.IH by simp
  qed
qed

text \<open>
  C35. What a table knows after any sequence of updates: a node is found exactly when some update
  named it; its incarnation is the highest of its updates, its heartbeat and status are those of the
  last update of that incarnation, and its endpoint is the one of its first update: a node that
  comes back at another address, with a newer incarnation, is still found at the old one.
\<close>

theorem membership_knows_newest:
  fixes updates n lease_ms
  defines "mine \<equiv> filter (\<lambda>p. pi_node_id p = n) updates"
  shows "case etb_membership_find (foldl etb_membership_upsert (etb_membership_init lease_ms) updates) n of
      None \<Rightarrow> mine = []
    | Some item \<Rightarrow> mine \<noteq> [] \<and> pi_node_id item = n \<and> pi_endpoint item = pi_endpoint (hd mine) \<and>
        (\<exists>before p after. mine = before @ [p] @ after \<and>
           item = p\<lparr>pi_endpoint := pi_endpoint (hd mine)\<rparr> \<and>
           (\<forall>q \<in> set before. pi_incarnation q \<le> pi_incarnation p) \<and>
           (\<forall>q \<in> set after. pi_incarnation q < pi_incarnation p))"
proof -
  have split: "\<exists>before after. ps = before @ [q] @ after \<and>
      (\<forall>p \<in> set before. pi_incarnation p \<le> pi_incarnation q) \<and>
      (\<forall>p \<in> set after. pi_incarnation p < pi_incarnation q)" if "newest ps = Some q" for ps q
    using that
  proof (induction ps arbitrary: q rule: rev_induct)
    case (snoc p ps)
    show ?case
    proof (cases "newest ps = None \<or> (\<exists>r. newest ps = Some r \<and> pi_incarnation r \<le> pi_incarnation p)")
      case True
      then have "q = p" using snoc.prems newest_snoc [of ps p] by auto
      moreover have "pi_incarnation r \<le> pi_incarnation p" if r: "r \<in> set ps" for r
      proof -
        have "newest ps \<noteq> None" using r newest_None [of ps] by auto
        then obtain t where t: "newest ps = Some t" "pi_incarnation t \<le> pi_incarnation p" using True by auto
        have "pi_incarnation r \<le> pi_incarnation t" using newest_in [OF t(1)] r by simp
        then show ?thesis using t(2) by (rule order_trans)
      qed
      ultimately show ?thesis by (intro exI [of _ ps] exI [of _ "[]"]) simp
    next
      case False
      then obtain r where "newest ps = Some r" "\<not> pi_incarnation r \<le> pi_incarnation p"
        by (cases "newest ps") auto
      then have r: "newest ps = Some q" "pi_incarnation p < pi_incarnation q"
        using snoc.prems newest_snoc [of ps p] by auto
      then obtain before after where "ps = before @ [q] @ after"
        "\<forall>p \<in> set before. pi_incarnation p \<le> pi_incarnation q"
        "\<forall>p \<in> set after. pi_incarnation p < pi_incarnation q"
        using snoc.IH by blast
      then show ?thesis using r(2) by (intro exI [of _ before] exI [of _ "after @ [p]"]) auto
    qed
  qed simp
  have find: "etb_membership_find (foldl etb_membership_upsert (etb_membership_init lease_ms) updates) n = known mine"
    using members_updates [of lease_ms updates n] by (simp add: members_def mine_def)
  show ?thesis
  proof (cases "newest mine")
    case None
    then have "mine = []" by (simp only: newest_None)
    then show ?thesis by (simp add: find known_def)
  next
    case (Some p)
    then have "p \<in> set mine" using newest_in by blast
    then have "mine \<noteq> []" by auto
    moreover have "pi_node_id p = n" using \<open>p \<in> set mine\<close> by (simp add: mine_def)
    moreover from \<open>mine \<noteq> []\<close> have "known mine = Some (p\<lparr>pi_endpoint := pi_endpoint (hd mine)\<rparr>)"
      using Some by (cases mine) (simp_all add: known_def)
    ultimately show ?thesis using split [OF Some] by (auto simp: find)
  qed
qed

section \<open>Expiry\<close>

text \<open>
  Expiry, on 64-bit times. While heartbeat and lease do not overflow, a peer dies exactly when
  its lease has run out, unless it is disabled or draining; nothing revives a peer. When they
  overflow the sum wraps, and the peer dies at any time after the wrapped sum: with the greatest
  lease, a peer dies at the very millisecond of its heartbeat.
\<close>

theorem etb_membership_expire_exact:
  fixes item lease_ms now_ms
  defines "hb \<equiv> pi_last_heartbeat_ms item"
    and "exempt \<equiv> pi_status item = ETB_PEER_DISABLED \<or> pi_status item = ETB_PEER_DRAINING"
  shows "(unat hb + unat lease_ms < 2 ^ 64 \<longrightarrow>
      expire_item lease_ms now_ms item =
        (if \<not> exempt \<and> unat hb + unat lease_ms < unat now_ms then item\<lparr>pi_status := ETB_PEER_DEAD\<rparr> else item)) \<and>
    (unat hb + unat lease_ms \<ge> 2 ^ 64 \<longrightarrow>
      expire_item lease_ms now_ms item =
        (if \<not> exempt \<and> unat hb + unat lease_ms < unat now_ms + 2 ^ 64 then item\<lparr>pi_status := ETB_PEER_DEAD\<rparr> else item)) \<and>
    (pi_status item = ETB_PEER_DEAD \<longrightarrow> expire_item lease_ms now_ms item = item) \<and>
    (\<not> exempt \<and> 0 < hb \<longrightarrow> expire_item (- 1) hb item = item\<lparr>pi_status := ETB_PEER_DEAD\<rparr>)"
proof -
  have sum: "unat (hb + lease_ms) =
      (if unat hb + unat lease_ms < 2 ^ 64 then unat hb + unat lease_ms else unat hb + unat lease_ms - 2 ^ 64)"
    using unsigned_less [of hb, where 'a = nat] unsigned_less [of lease_ms, where 'a = nat]
    by (simp add: unat_word_ariths mod_if)
  have dead: "pi_status item = ETB_PEER_DEAD \<Longrightarrow> item\<lparr>pi_status := ETB_PEER_DEAD\<rparr> = item"
    by (cases item) simp
  have wrap: "0 < hb \<Longrightarrow> hb + - 1 < hb"
    by (simp only: word_gt_0 diff_conv_add_uminus [symmetric]) (simp add: word_less_nat_alt unat_minus_one unat_gt_0)
  show ?thesis
    using sum dead wrap
    by (auto simp: expire_item_def hb_def exempt_def word_less_nat_alt split: if_splits)
qed

text \<open>Witnesses.\<close>

definition peer_a :: etb_peer_info where
  "peer_a = \<lparr>pi_node_id = ''a'', pi_endpoint = ''h:1'', pi_incarnation = 1,
             pi_last_heartbeat_ms = 100, pi_status = ETB_PEER_ALIVE\<rparr>"


lemma membership_knows_newest_witness:
  "\<exists>before p after. [peer_a, peer_a\<lparr>pi_endpoint := ''h:2''\<rparr>] = before @ [p] @ after \<and>
     p\<lparr>pi_endpoint := ''h:1''\<rparr> = peer_a"
proof -
  have find: "etb_membership_find (foldl etb_membership_upsert (etb_membership_init 10)
      [peer_a, peer_a\<lparr>pi_endpoint := ''h:2''\<rparr>]) ''a'' = Some peer_a"
    by (simp add: etb_membership_find_def etb_membership_upsert_def etb_membership_init_def refresh_def peer_a_def)
  have mine: "filter (\<lambda>p. pi_node_id p = ''a'') [peer_a, peer_a\<lparr>pi_endpoint := ''h:2''\<rparr>] =
      [peer_a, peer_a\<lparr>pi_endpoint := ''h:2''\<rparr>]"
    by (simp add: peer_a_def)
  have "\<exists>before p after. [peer_a, peer_a\<lparr>pi_endpoint := ''h:2''\<rparr>] = before @ [p] @ after \<and>
      peer_a = p\<lparr>pi_endpoint := pi_endpoint peer_a\<rparr> \<and>
      (\<forall>q \<in> set before. pi_incarnation q \<le> pi_incarnation p) \<and>
      (\<forall>q \<in> set after. pi_incarnation q < pi_incarnation p)"
    using membership_knows_newest [where lease_ms = 10 and
        updates = "[peer_a, peer_a\<lparr>pi_endpoint := ''h:2''\<rparr>]" and n = "''a''", unfolded find mine]
    by simp
  then obtain before p after where "[peer_a, peer_a\<lparr>pi_endpoint := ''h:2''\<rparr>] = before @ [p] @ after"
      "peer_a = p\<lparr>pi_endpoint := pi_endpoint peer_a\<rparr>"
    by (elim exE conjE) (rule that)
  moreover have "pi_endpoint peer_a = ''h:1''" by (simp add: peer_a_def)
  ultimately show ?thesis by (intro exI [of _ before] exI [of _ p] exI [of _ after]) simp
qed

lemma etb_membership_expire_exact_witness:
  "expire_item 10 111 peer_a = peer_a\<lparr>pi_status := ETB_PEER_DEAD\<rparr> \<and> expire_item 10 110 peer_a = peer_a \<and>
   expire_item (- 1) 100 peer_a = peer_a\<lparr>pi_status := ETB_PEER_DEAD\<rparr>"
  using etb_membership_expire_exact [of peer_a 10 111] etb_membership_expire_exact [of peer_a 10 110]
  by (simp add: peer_a_def)

end
