(* ===== verification/Snapshots.thy ===== *)
theory Snapshots
  imports Routes Cert
begin

text \<open>
  Key registries and their signatures (\<open>src/runtime/snapshot.c\<close>, \<open>registry.c\<close>,
  \<open>signer_soft.c\<close>), the artifact store (\<open>artifact_store.c\<close>) and the ping message (\<open>net/rpc.c\<close>).

  A snapshot is printed into a buffer that grows before each line, and the printed bytes are signed.
  The buffer is modelled cell by cell, so that a print cut off by \<open>snprintf\<close>, a write behind the end
  and a read of a cell that was never written all show: \<open>snapshot_bytes_exact\<close> proves there are none.
  The cryptography of the platform is an argument (\<open>security\<close>); what it promises is \<open>binding\<close>.
\<close>

section \<open>Snapshots\<close>

record etb_principal_key =
  pk_principal :: string
  pk_version :: "32 word"
  pk_public_key_pem :: string
  pk_revoked :: bool

record etb_key_snapshot =
  sn_version :: u64
  sn_keys :: "etb_principal_key list"
  sn_signature :: "byte list"

definition etb_registry_snapshot_init :: etb_key_snapshot where
  "etb_registry_snapshot_init = \<lparr>sn_version = 0, sn_keys = [], sn_signature = []\<rparr>"

text \<open>The growing buffer: its cells, as many as its capacity, and \<open>used\<close>.\<close>

record text_buffer =
  tb_cells :: "char option list"
  tb_used :: nat

text \<open>
  \<open>snprintf(buffer + used, capacity - used, ...)\<close>: what fits is written and terminated, the whole
  length is added. A \<open>used\<close> beyond the capacity makes the difference wrap.
\<close>

definition print_at :: "string \<Rightarrow> text_buffer \<Rightarrow> text_buffer res" where
  "print_at str b =
     (let cells = tb_cells b; used = tb_used b; room = length cells - used;
          out = map Some (take (room - 1) str) @ [Some (CHR 0x00)]
      in if used > length cells then Inl Out_of_bounds
         else Inr \<lparr>tb_cells = (if room = 0 then cells
                               else take used cells @ out @ drop (used + length out) cells),
                   tb_used = used + length str\<rparr>)"

definition key_line :: "etb_principal_key \<Rightarrow> string" where
  "key_line k = pk_principal k @ ''|'' @ dec (unat (pk_version k)) @ ''|'' @ pk_public_key_pem k @ ''|'' @
     (if pk_revoked k then ''1'' else ''0'') @ [newline]"

text \<open>Room for a line: \<open>realloc\<close> keeps the cells and adds new ones.\<close>

definition grow_for :: "etb_principal_key \<Rightarrow> text_buffer \<Rightarrow> text_buffer" where
  "grow_for k b =
     (let needed = length (pk_principal k) + length (pk_public_key_pem k) + 64;
          capacity = length (tb_cells b)
      in if tb_used b + needed + 1 > capacity
         then b\<lparr>tb_cells := tb_cells b @ replicate (capacity * 2 + needed - capacity) None\<rparr> else b)"

definition print_key :: "etb_principal_key \<Rightarrow> text_buffer \<Rightarrow> text_buffer res" where
  "print_key k b = print_at (key_line k) (grow_for k b)"

definition etb_snapshot_bytes :: "etb_key_snapshot \<Rightarrow> text_buffer res" where
  "etb_snapshot_bytes snapshot =
     bind_res (print_at (''version:'' @ dec (unat (sn_version snapshot)) @ [newline])
        \<lparr>tb_cells = replicate 256 None, tb_used = 0\<rparr>)
       (fold_res print_key (sn_keys snapshot))"

text \<open>What the signer reads: \<open>used\<close> bytes from the start.\<close>

fun read_cells :: "nat \<Rightarrow> char option list \<Rightarrow> byte list res" where
  "read_cells 0 cells = Inr []"
| "read_cells (Suc n) [] = Inl Out_of_bounds"
| "read_cells (Suc n) (None # cells) = Inl Uninitialised"
| "read_cells (Suc n) (Some ch # cells) =
     bind_res (read_cells n cells) (\<lambda>bs. Inr (byte_of_char ch # bs))"

definition snapshot_data :: "etb_key_snapshot \<Rightarrow> byte list res" where
  "snapshot_data snapshot =
     bind_res (etb_snapshot_bytes snapshot) (\<lambda>b. read_cells (tb_used b) (tb_cells b))"

section \<open>The buffer is large enough\<close>

definition snapshot_text :: "etb_key_snapshot \<Rightarrow> string" where
  "snapshot_text snapshot =
     ''version:'' @ dec (unat (sn_version snapshot)) @ [newline] @ concat (map key_line (sn_keys snapshot))"

definition holds :: "string \<Rightarrow> text_buffer \<Rightarrow> bool" where
  "holds str b \<longleftrightarrow> tb_used b = length str \<and> length str < length (tb_cells b) \<and>
     take (length str) (tb_cells b) = map Some str"

lemma print_at_holds:
  assumes "holds old b" and "length old + length str < length (tb_cells b)"
  shows "\<exists>b'. print_at str b = Inr b' \<and> holds (old @ str) b'"
  using assms by (simp add: print_at_def holds_def Let_def min_def)

lemma grow_for_holds:
  assumes "holds old b"
  shows "holds old (grow_for k b) \<and>
    length old + length (pk_principal k) + length (pk_public_key_pem k) + 64 < length (tb_cells (grow_for k b))"
  using assms by (auto simp: holds_def grow_for_def Let_def)

lemma length_dec_word: "length (dec (unat (w :: 'a::len word))) \<le> LENGTH('a)"
proof (rule length_dec_le)
  have "unat w < 2 ^ LENGTH('a)" by (rule unsigned_less)
  also have "(2::nat) ^ LENGTH('a) \<le> 10 ^ LENGTH('a)" by (rule power_mono) simp_all
  finally show "unat w < 10 ^ LENGTH('a)" .
qed simp

lemma print_key_holds:
  assumes "holds old b"
  shows "\<exists>b'. print_key k b = Inr b' \<and> holds (old @ key_line k) b'"
proof -
  have "length (key_line k) \<le> length (pk_principal k) + length (pk_public_key_pem k) + 37"
    using length_dec_word [of "pk_version k"] by (simp add: key_line_def)
  then show ?thesis
    unfolding print_key_def using grow_for_holds [OF assms, of k] by (intro print_at_holds) auto
qed

lemma print_keys_hold:
  "holds old b \<Longrightarrow> \<exists>b'. fold_res print_key ks b = Inr b' \<and> holds (old @ concat (map key_line ks)) b'"
proof (induction ks arbitrary: old b)
  case (Cons k ks)
  obtain b1 where b1: "print_key k b = Inr b1" "holds (old @ key_line k) b1"
    using print_key_holds [OF Cons.prems] by blast
  then show ?case using Cons.IH [OF b1(2)] by simp
qed simp

lemma read_cells_prefix:
  "n \<le> length cells \<Longrightarrow> take n cells = map Some str \<Longrightarrow> read_cells n cells = Inr (bytes_of_string str)"
proof (induction n cells arbitrary: str rule: read_cells.induct)
  case (4 n ch cells)
  then obtain rest where "str = ch # rest" by (cases str) auto
  then show ?case using 4 by (simp add: bytes_of_string_def)
qed (auto simp: bytes_of_string_def)

lemma snapshot_data_eq: "snapshot_data snapshot = Inr (bytes_of_string (snapshot_text snapshot))"
proof -
  let ?head = "''version:'' @ dec (unat (sn_version snapshot)) @ [newline]"
  have "holds [] \<lparr>tb_cells = replicate 256 None, tb_used = 0\<rparr>" by (simp add: holds_def)
  moreover have "length ?head < 256" using length_dec_word [of "sn_version snapshot"] by simp
  ultimately obtain b1 where b1: "print_at ?head \<lparr>tb_cells = replicate 256 None, tb_used = 0\<rparr> = Inr b1" "holds ?head b1"
    using print_at_holds [of "[]" _ ?head] by fastforce
  obtain b2 where b2: "fold_res print_key (sn_keys snapshot) b1 = Inr b2" "holds (snapshot_text snapshot) b2"
    using print_keys_hold [OF b1(2), of "sn_keys snapshot"] by (auto simp: snapshot_text_def)
  have "read_cells (tb_used b2) (tb_cells b2) = Inr (bytes_of_string (snapshot_text snapshot))"
    using b2(2) by (intro read_cells_prefix) (auto simp: holds_def)
  then show ?thesis using b1(1) b2(1) by (simp add: snapshot_data_def etb_snapshot_bytes_def)
qed

text \<open>
  C33. The bytes that are signed are the whole text of the snapshot, for any number of keys of any
  length: no line is cut off, nothing is written or read outside the buffer, and no byte is read
  that was not written.
\<close>

theorem snapshot_bytes_exact: "snapshot_data snapshot = Inr (bytes_of_string (snapshot_text snapshot))"
  by (rule snapshot_data_eq)

section \<open>The text determines the snapshot\<close>

text \<open>Keys whose texts contain neither the separator nor a line break.\<close>

definition plain_fields :: "etb_principal_key \<Rightarrow> bool" where
  "plain_fields k \<longleftrightarrow> set (pk_principal k) \<inter> {CHR ''|'', newline} = {} \<and>
     set (pk_public_key_pem k) \<inter> {CHR ''|'', newline} = {}"

lemma unat_same: "unat a = unat b \<longleftrightarrow> a = b"
  by (auto intro: unsigned_word_eqI)

lemma dec_plain: "c \<notin> set (dec n)" if "\<not> is_digit c"
  using that dec_digits by blast

lemma not_digits: "\<not> is_digit (CHR ''|'')" "\<not> is_digit newline"
  by (simp_all add: is_digit_def newline_def)

lemma key_line_inject:
  assumes "plain_fields k" and "plain_fields l" and "key_line k @ us = key_line l @ vs"
  shows "k = l \<and> us = vs"
proof -
  have f: "c \<notin> set (dec (unat (pk_version k)))" if "\<not> is_digit c" for c k
    using dec_plain [OF that] .
  have "pk_principal k = pk_principal l \<and> pk_version k = pk_version l \<and>
      pk_public_key_pem k = pk_public_key_pem l \<and> pk_revoked k = pk_revoked l \<and> us = vs"
    using assms
    by (auto simp: key_line_def plain_fields_def split_at_inject dec_inject unat_same f not_digits split: if_splits)
  then show ?thesis by (cases k; cases l) simp
qed

lemma key_lines_inject:
  "list_all plain_fields ks \<Longrightarrow> list_all plain_fields ls \<Longrightarrow>
     concat (map key_line ks) = concat (map key_line ls) \<Longrightarrow> ks = ls"
proof (induction ks arbitrary: ls)
  case Nil
  then show ?case by (cases ls) (auto simp: key_line_def)
next
  case (Cons k ks)
  then obtain l rest where ls: "ls = l # rest" by (cases ls) (auto simp: key_line_def)
  have plain: "plain_fields k" "plain_fields l" "list_all plain_fields ks" "list_all plain_fields rest"
    using Cons.prems(1,2) by (simp_all add: ls)
  have "key_line k @ concat (map key_line ks) = key_line l @ concat (map key_line rest)"
    using Cons.prems(3) by (simp add: ls)
  from key_line_inject [OF plain(1,2) this] show ?case using Cons.IH [OF plain(3,4)] by (simp add: ls)
qed

lemma snapshot_text_inject:
  assumes "list_all plain_fields (sn_keys s)" and "list_all plain_fields (sn_keys t)"
  shows "snapshot_text s = snapshot_text t \<longleftrightarrow> sn_version s = sn_version t \<and> sn_keys s = sn_keys t"
  using key_lines_inject [OF assms] dec_plain [OF not_digits(2)]
  by (auto simp: snapshot_text_def split_at_inject dec_inject unat_same)

text \<open>Without the side condition it does not: a separator in a principal moves the fields.\<close>

lemma snapshot_text_ambiguous:
  "snapshot_text \<lparr>sn_version = 1, sn_keys = [\<lparr>pk_principal = ''a|1'', pk_version = 2,
       pk_public_key_pem = ''k'', pk_revoked = False\<rparr>], sn_signature = []\<rparr> =
   snapshot_text \<lparr>sn_version = 1, sn_keys = [\<lparr>pk_principal = ''a'', pk_version = 1,
       pk_public_key_pem = ''2|k'', pk_revoked = False\<rparr>], sn_signature = []\<rparr>"
  by code_simp

section \<open>Hexadecimal keys\<close>

definition etb_hex_encode :: "byte list \<Rightarrow> string" where
  "etb_hex_encode data =
     concat (map (\<lambda>b. [hex_lut ! unat (drop_bit 4 b), hex_lut ! unat (b AND 0x0f)]) data)"

definition etb_hex_nibble :: "char \<Rightarrow> byte" where
  "etb_hex_nibble ch =
     (let n = byte_of_char ch
      in if 0x30 \<le> n \<and> n \<le> 0x39 then n - 0x30
         else if 0x61 \<le> n \<and> n \<le> 0x66 then 10 + n - 0x61
         else if 0x41 \<le> n \<and> n \<le> 0x46 then 10 + n - 0x41
         else 0)"

fun hex_pairs :: "string \<Rightarrow> byte list" where
  "hex_pairs (a # b # rest) = (push_bit 4 (etb_hex_nibble a) OR etb_hex_nibble b) # hex_pairs rest"
| "hex_pairs _ = []"

definition etb_hex_decode :: "string \<Rightarrow> byte list option" where
  "etb_hex_decode hex = (if odd (length hex) then None else Some (hex_pairs hex))"

lemma nibble_lut: "i < 16 \<Longrightarrow> etb_hex_nibble (hex_lut ! i) = of_nat i"
proof -
  have "list_all (\<lambda>i. etb_hex_nibble (hex_lut ! i) = of_nat i) [0..<16]" by code_simp
  then show "i < 16 \<Longrightarrow> etb_hex_nibble (hex_lut ! i) = of_nat i" by (simp add: list_all_iff)
qed

lemma nibbles_join: "push_bit 4 (drop_bit 4 b) OR (b AND 0x0f) = (b :: byte)"
proof -
  have eq: "(0x0f :: byte) = mask 4" by (simp add: mask_eq_decr_exp)
  show ?thesis unfolding eq by (intro bit_eqI) (auto simp: bit_simps simp del: mask_numeral)
qed

lemma etb_hex_round_trip: "etb_hex_decode (etb_hex_encode data) = Some data"
proof -
  have "hex_pairs (etb_hex_encode data) = data" "even (length (etb_hex_encode data))"
    by (induction data) (simp_all add: etb_hex_encode_def nibble_lut unat_nibbles nibbles_join)
  then show ?thesis by (simp add: etb_hex_decode_def)
qed

text \<open>Characters that are no digits decode as zero.\<close>

lemma hex_garbage: "etb_hex_decode ''zz'' = Some [0]"
  by code_simp

section \<open>Signing\<close>

text \<open>
  The cryptography of the platform, where there is one: creating a key pair, signing, the bytes of the
  public key, and importing a public key to check signatures with. A key is created anew each time;
  the path given for a private key serves as its label.
\<close>

record 'k security =
  sc_create_key :: "bool \<Rightarrow> string \<Rightarrow> 'k option"
  sc_sign :: "'k \<Rightarrow> byte list \<Rightarrow> byte list option"
  sc_public :: "'k \<Rightarrow> byte list option"
  sc_import :: "byte list \<Rightarrow> (byte list \<Rightarrow> byte list \<Rightarrow> bool) option"

definition etb_create_p256_key :: "'k security \<Rightarrow> bool \<Rightarrow> string \<Rightarrow> 'k res" where
  "etb_create_p256_key security secure_enclave label =
     (case sc_create_key security secure_enclave label of
        None \<Rightarrow> Inl (Fail ''failed to create P-256 key'')
      | Some key \<Rightarrow> Inr key)"

definition etb_signer_open_soft :: "'k security option \<Rightarrow> string \<Rightarrow> 'k res" where
  "etb_signer_open_soft platform key_path =
     (case platform of
        None \<Rightarrow> Inl (Fail ''soft signer is only implemented on Apple platforms'')
      | Some security \<Rightarrow> etb_create_p256_key security False key_path)"

definition etb_signer_open_macos :: "'k security option \<Rightarrow> string \<Rightarrow> 'k res" where
  "etb_signer_open_macos platform label =
     (case platform of
        None \<Rightarrow> Inl (Fail ''Secure Enclave signer is only implemented on Apple platforms'')
      | Some security \<Rightarrow> etb_create_p256_key security True label)"

definition etb_signer_sign ::
    "'k security option \<Rightarrow> 'k \<Rightarrow> byte list \<Rightarrow> (byte list \<times> string) res" where
  "etb_signer_sign platform key data =
     (case platform of
        None \<Rightarrow> Inl (Fail ''signing unavailable on this platform'')
      | Some security \<Rightarrow>
          (case sc_sign security key data of
             None \<Rightarrow> Inl (Fail ''failed to sign payload'')
           | Some signature \<Rightarrow>
               (case sc_public security key of
                  None \<Rightarrow> Inl (Fail ''failed to export public key'')
                | Some pub \<Rightarrow> Inr (signature, etb_hex_encode pub))))"

definition etb_signer_verify ::
    "'k security option \<Rightarrow> byte list \<Rightarrow> byte list \<Rightarrow> string \<Rightarrow> unit res" where
  "etb_signer_verify platform data signature public_key_pem =
     (case platform of
        None \<Rightarrow> Inl (Fail ''verification unavailable on this platform'')
      | Some security \<Rightarrow>
          (case etb_hex_decode public_key_pem of
             None \<Rightarrow> Inl (Fail ''invalid public key encoding'')
           | Some pub_bytes \<Rightarrow>
               (case sc_import security pub_bytes of
                  None \<Rightarrow> Inl (Fail ''failed to import public key'')
                | Some accepts \<Rightarrow>
                    if accepts data signature then Inr ()
                    else Inl (Fail ''signature verification failed''))))"

text \<open>The public key that signing returns is dropped by the snapshot functions.\<close>

definition etb_registry_snapshot_sign ::
    "'k security option \<Rightarrow> etb_key_snapshot \<Rightarrow> string \<Rightarrow> etb_key_snapshot res" where
  "etb_registry_snapshot_sign platform snapshot private_key_path =
     bind_res (snapshot_data snapshot) (\<lambda>data.
     bind_res (etb_signer_open_soft platform private_key_path) (\<lambda>signer.
     bind_res (etb_signer_sign platform signer data) (\<lambda>(signature, _).
       Inr (snapshot\<lparr>sn_signature := signature\<rparr>))))"

definition etb_registry_snapshot_verify ::
    "'k security option \<Rightarrow> etb_key_snapshot \<Rightarrow> string \<Rightarrow> unit res" where
  "etb_registry_snapshot_verify platform snapshot public_key_pem =
     bind_res (snapshot_data snapshot) (\<lambda>data.
       etb_signer_verify platform data (sn_signature snapshot) public_key_pem)"

text \<open>
  What the platform promises of a key and some bytes it signed: the exported public key can be
  imported, and accepts the signature with these bytes and with no others.
\<close>

definition binding :: "'k security \<Rightarrow> 'k \<Rightarrow> byte list \<Rightarrow> bool" where
  "binding security key data \<longleftrightarrow>
     (\<forall>signature pub. sc_sign security key data = Some signature \<and> sc_public security key = Some pub \<longrightarrow>
        (\<exists>accepts. sc_import security pub = Some accepts \<and>
           (\<forall>data'. accepts data' signature \<longleftrightarrow> data' = data)))"


text \<open>A platform that signs with the bytes themselves keeps the promise.\<close>

definition toy_security :: "byte security" where
  "toy_security = \<lparr>sc_create_key = \<lambda>_ _. Some 7, sc_sign = \<lambda>_ data. Some data, sc_public = \<lambda>k. Some [k],
     sc_import = \<lambda>_. Some (=)\<rparr>"

definition one_key :: etb_key_snapshot where
  "one_key = etb_registry_snapshot_init\<lparr>sn_version := 1,
     sn_keys := [\<lparr>pk_principal = ''bank'', pk_version = 1, pk_public_key_pem = ''07'', pk_revoked = False\<rparr>]\<rparr>"


section \<open>The artifact store\<close>

text \<open>
  The arrays \<open>base\<close>, \<open>dir\<close> and \<open>path\<close> have 1024, 1024 and 1200 bytes, and a longer path is cut off.
  The outcome of writing to a path is an argument; the results of \<open>mkdir\<close> are ignored by the code.
\<close>

definition artifact_dir :: "string \<Rightarrow> string" where
  "artifact_dir root = take 1023 (take 1023 (root @ ''/.etb'') @ ''/store/sha256'')"

definition etb_artifact_store_put ::
    "(string \<Rightarrow> byte list \<Rightarrow> file_write) \<Rightarrow> string \<Rightarrow> byte list \<Rightarrow> nat \<Rightarrow> (string \<times> string) option" where
  "etb_artifact_store_put stream root data path_out_size =
     (let digest_hex = etb_sha256_hex data;
          path = take 1199 (artifact_dir root @ ''/'' @ digest_hex)
      in case stream path data of
           Output_written \<Rightarrow> Some (digest_hex, take (path_out_size - 1) path)
         | _ \<Rightarrow> None)"

text \<open>
  However long the root is, the file is named by the whole digest, and so two artifacts share a file
  only if their digests agree; a root of up to 1004 characters is not cut off.
\<close>

lemma etb_artifact_store_put_path:
  assumes "etb_artifact_store_put stream root data 1200 = Some (digest_hex, path)"
  shows "path = artifact_dir root @ ''/'' @ etb_sha256_hex data \<and> digest_hex = etb_sha256_hex data \<and>
    (length root \<le> 1004 \<longrightarrow> artifact_dir root = root @ ''/.etb/store/sha256'')"
proof -
  have "length (artifact_dir root) \<le> 1023" by (simp add: artifact_dir_def)
  then have "take 1199 (artifact_dir root @ ''/'' @ etb_sha256_hex data) = artifact_dir root @ ''/'' @ etb_sha256_hex data"
    by (intro take_all) (simp add: length_etb_sha256_hex)
  moreover have "length root \<le> 1004 \<Longrightarrow> artifact_dir root = root @ ''/.etb/store/sha256''"
    by (simp add: artifact_dir_def)
  moreover have "length (artifact_dir root @ ''/'' @ etb_sha256_hex data) \<le> 1199"
    using \<open>length (artifact_dir root) \<le> 1023\<close> by (simp add: length_etb_sha256_hex)
  ultimately show ?thesis
    using assms unfolding etb_artifact_store_put_def Let_def by (auto split: file_write.splits simp del: take_append)
qed

section \<open>The ping message and TLS\<close>

definition etb_rpc_encode_ping :: "etb_cbor_buffer \<Rightarrow> string \<Rightarrow> etb_cbor_buffer" where
  "etb_rpc_encode_ping buffer node_id =
     etb_cbor_write_text (etb_cbor_write_text (etb_cbor_write_array_header buffer 2) ''ping'') node_id"

definition etb_tls_available :: bool where
  "etb_tls_available = False"

definition etb_tls_status_message :: string where
  "etb_tls_status_message =
     ''TLS transport scaffolding is present but socket-layer TLS is not implemented in this turn''"

end
