(* ===== verification/Samples.thy ===== *)
theory Samples
  imports Capability Sha256
begin

text \<open>
  The two sample adapters of \<open>adapters/samples\<close>, programs that answer one capability request: they read
  at most 4096 bytes, decode a request, and write a response. They are what the engine's \<open>adapter\<close>
  argument stands for, and \<open>sample_adapters_answer\<close> runs the engine's side of the protocol against them.

  Their exit with status 2 is a failure. Their readers and writers are not those of the runtime: the
  first one reads a variable as a symbol, the second one reads every term as a string.
\<close>

section \<open>The concatenation adapter\<close>

definition concat_read_payload :: "u64 \<Rightarrow> etb_cbor_cursor \<Rightarrow> (etb_term \<times> etb_cbor_cursor) res" where
  "concat_read_payload kind cursor =
     (if kind = of_nat (term_kind_code ETB_TERM_INTEGER) then
        bind_res (etb_cbor_read_int cursor) (\<lambda>(number, cursor). Inr (etb_term_make_integer number, cursor))
      else if kind = of_nat (term_kind_code ETB_TERM_NULL) then
        bind_res (etb_cbor_read_null cursor) (\<lambda>(_, cursor). Inr (etb_term_make_null, cursor))
      else bind_res (etb_cbor_read_text cursor) (\<lambda>(txt, cursor).
        Inr (if kind = of_nat (term_kind_code ETB_TERM_STRING) then etb_term_make_string (Some txt)
             else etb_term_make_symbol (Some txt), cursor)))"

definition concat_read_term :: "etb_cbor_cursor \<Rightarrow> (etb_term \<times> etb_cbor_cursor) res" where
  "concat_read_term cursor =
     bind_res (etb_cbor_read_array_header cursor) (\<lambda>(count, cursor).
     if count \<noteq> 2 then Inl (Fail '''')
     else bind_res (etb_cbor_read_uint cursor) (\<lambda>(kind, cursor). concat_read_payload kind cursor))"

definition concat_write_term :: "etb_cbor_buffer \<Rightarrow> etb_term \<Rightarrow> etb_cbor_buffer" where
  "concat_write_term buffer t =
     (let buffer = etb_cbor_write_uint (etb_cbor_write_array_header buffer 2)
                     (of_nat (term_kind_code (t_kind t)))
      in if t_kind t = ETB_TERM_INTEGER then etb_cbor_write_int buffer (t_integer t)
         else if t_kind t = ETB_TERM_NULL then etb_cbor_write_null buffer
         else etb_cbor_write_text buffer (case t_text t of None \<Rightarrow> '''' | Some s \<Rightarrow> s))"

definition term_text :: "etb_term \<Rightarrow> string" where
  "term_text t = (case t_text t of None \<Rightarrow> '''' | Some s \<Rightarrow> s)"

definition concat_read_request :: "etb_cbor_cursor \<Rightarrow> (etb_term list \<times> etb_cbor_cursor) res" where
  "concat_read_request cursor =
     bind_res (etb_cbor_read_array_header cursor) (\<lambda>(outer, cursor).
     if outer \<noteq> 2 then Inl (Fail '''')
     else bind_res (etb_cbor_read_array_header cursor) (\<lambda>(count, cursor).
     if count \<noteq> 3 then Inl (Fail '''')
     else bind_res (cbor_read_list concat_read_term 3 cursor) (\<lambda>(args, cursor).
     bind_res (etb_cbor_read_array_header cursor) (\<lambda>(count, cursor).
     if count \<noteq> 3 then Inl (Fail '''')
     else bind_res (cbor_read_list etb_cbor_read_bool 3 cursor) (\<lambda>(bound, cursor).
       Inr (args, cursor))))))"

text \<open>The array \<open>joined\<close> has 512 bytes.\<close>

definition sample_concat :: "byte list \<Rightarrow> byte list res" where
  "sample_concat input =
     bind_res (concat_read_request (etb_cbor_cursor_init (take 4096 input))) (\<lambda>(args, _).
       let joined = take 511 (term_text (args ! 0) @ term_text (args ! 1));
           out = etb_cbor_write_array_header (etb_cbor_write_array_header
                   (etb_cbor_write_array_header [] 2) 1) 3
       in Inr (etb_cbor_write_array_header
            (foldl concat_write_term out [args ! 0, args ! 1, etb_term_make_string (Some joined)]) 0))"

section \<open>The receipt adapter\<close>

definition receipt_read_term :: "etb_cbor_cursor \<Rightarrow> (etb_term \<times> etb_cbor_cursor) res" where
  "receipt_read_term cursor =
     bind_res (etb_cbor_read_array_header cursor) (\<lambda>(count, cursor).
     if count \<noteq> 2 then Inl (Fail '''')
     else bind_res (etb_cbor_read_uint cursor) (\<lambda>(kind, cursor).
       if kind = of_nat (term_kind_code ETB_TERM_NULL) then
         bind_res (etb_cbor_read_null cursor) (\<lambda>(_, cursor). Inr (etb_term_make_null, cursor))
       else bind_res (etb_cbor_read_text cursor) (\<lambda>(txt, cursor).
         Inr (etb_term_make_string (Some txt), cursor))))"

text \<open>A term that is not null has a text here.\<close>

definition receipt_write_term :: "etb_cbor_buffer \<Rightarrow> etb_term \<Rightarrow> etb_cbor_buffer" where
  "receipt_write_term buffer t =
     (let buffer = etb_cbor_write_uint (etb_cbor_write_array_header buffer 2)
                     (of_nat (term_kind_code (t_kind t)))
      in if t_kind t = ETB_TERM_NULL then etb_cbor_write_null buffer
         else etb_cbor_write_text buffer (term_text t))"

definition receipt_read_request :: "etb_cbor_cursor \<Rightarrow> (etb_term list \<times> etb_cbor_cursor) res" where
  "receipt_read_request cursor =
     bind_res (etb_cbor_read_array_header cursor) (\<lambda>(outer, cursor).
     if outer \<noteq> 2 then Inl (Fail '''')
     else bind_res (etb_cbor_read_array_header cursor) (\<lambda>(count, cursor).
     if count \<noteq> 2 then Inl (Fail '''')
     else cbor_read_list receipt_read_term 2 cursor))"

definition sample_receipt :: "byte list \<Rightarrow> byte list res" where
  "sample_receipt input =
     bind_res (receipt_read_request (etb_cbor_cursor_init (take 4096 input))) (\<lambda>(args, _).
       let digest = etb_sha256_hex (bytes_of_string (term_text (args ! 0)));
           out = etb_cbor_write_array_header (etb_cbor_write_array_header
                   (etb_cbor_write_array_header [] 2) 1) 2;
           out = receipt_write_term (receipt_write_term out (args ! 0)) (etb_term_make_string (Some ''ok''))
       in Inr (etb_cbor_write_text (etb_cbor_write_array_header out 1) digest))"

section \<open>Their side of the protocol\<close>

lemma request_bytes:
  "etb_write_request args bound_mask [] =
     etb_cbor_write_array_header [] 2 @ etb_cbor_write_array_header [] (of_nat (length args)) @
     concat (map (etb_write_term []) args) @ etb_cbor_write_array_header [] (of_nat (length args)) @
     concat (map (etb_cbor_write_bool []) (take (length args) bound_mask))"
  unfolding etb_write_request_def Let_def
  by (simp only: cbor_bool.foldl_wr term_codec.foldl_wr append_assoc
      cbor_array_header.wr_append [of "etb_cbor_write_array_header _ _"]
      cbor_array_header.wr_append [of "_ @ _"])

text \<open>What the adapters make of an argument.\<close>

definition as_symbol :: "etb_term \<Rightarrow> etb_term" where
  "as_symbol t = (if t_kind t = ETB_TERM_VARIABLE then t\<lparr>t_kind := ETB_TERM_SYMBOL\<rparr> else t)"

definition as_string :: "etb_term \<Rightarrow> etb_term" where
  "as_string t = (if t_kind t = ETB_TERM_NULL then t else t\<lparr>t_kind := ETB_TERM_STRING\<rparr>)"

lemma decodes_concat_term:
  assumes "wire_term t"
  shows "decodes concat_read_term (etb_write_term [] t) (as_symbol t)"
proof -
  have texts: "decodes (\<lambda>cursor. bind_res (etb_cbor_read_text cursor) (\<lambda>(s, cursor). Inr (mk (Some s), cursor)))
      (term_payload t) (mk (t_text t))"
    if k: "t_kind t \<noteq> ETB_TERM_INTEGER" "t_kind t \<noteq> ETB_TERM_NULL" for mk :: "string option \<Rightarrow> etb_term"
  proof -
    obtain s where s: "t_text t = Some s" "c_text s"
      using assms k by (cases "t_kind t") (auto simp: wire_term_def wf_term_def)
    then show ?thesis using k decodes_text_term [OF s(2), of mk] by (cases "t_kind t") (simp_all add: term_payload_def)
  qed
  have payload: "decodes (concat_read_payload (of_nat (term_kind_code (t_kind t)))) (term_payload t) (as_symbol t)"
  proof (cases "t_kind t")
    case ETB_TERM_INTEGER
    then show ?thesis
      using decodes_payload [OF assms]
      by (simp add: concat_read_payload_def [abs_def] etb_read_term_payload_def [abs_def] as_symbol_def)
  next
    case ETB_TERM_NULL
    then show ?thesis
      using decodes_payload [OF assms]
      by (simp add: concat_read_payload_def [abs_def] etb_read_term_payload_def [abs_def] as_symbol_def)
  qed (use texts [of etb_term_make_symbol] texts [of etb_term_make_string] assms in
      \<open>(cases t, force simp: concat_read_payload_def [abs_def] as_symbol_def etb_term_make_defs wire_term_def wf_term_def)\<close>)+
  have "decodes (\<lambda>cursor. bind_res (etb_cbor_read_uint cursor) (\<lambda>(kind, cursor). concat_read_payload kind cursor))
      (etb_cbor_write_uint [] (of_nat (term_kind_code (t_kind t))) @ term_payload t) (as_symbol t)"
    by (rule decodes_bind [OF cbor_uint.decodes_wr [OF TrueI]]) (rule payload)
  then show ?thesis
    unfolding concat_read_term_def [abs_def] write_term_split
    by (intro decodes_bind [OF cbor_array_header.decodes_wr [OF TrueI]]) simp
qed

lemma decodes_receipt_term:
  assumes "wire_term t" and "t_kind t \<noteq> ETB_TERM_INTEGER"
  shows "decodes receipt_read_term (etb_write_term [] t) (as_string t)"
proof -
  let ?P = "\<lambda>(kind :: u64) cursor. if kind = of_nat (term_kind_code ETB_TERM_NULL) then
         bind_res (etb_cbor_read_null cursor) (\<lambda>(_, cursor). Inr (etb_term_make_null, cursor))
       else bind_res (etb_cbor_read_text cursor) (\<lambda>(txt, cursor).
         Inr (etb_term_make_string (Some txt), cursor))"
  have payload: "decodes (?P (of_nat (term_kind_code (t_kind t)))) (term_payload t) (as_string t)"
  proof (cases "t_kind t = ETB_TERM_NULL")
    case True
    then show ?thesis
      using decodes_payload [OF assms(1)] by (simp add: etb_read_term_payload_def [abs_def] as_string_def)
  next
    case False
    obtain s where s: "t_text t = Some s" "c_text s" "t_integer t = 0"
      using assms False by (cases "t_kind t") (auto simp: wire_term_def wf_term_def)
    have "as_string t = etb_term_make_string (Some s)"
      using s False by (cases t) (simp add: as_string_def etb_term_make_defs)
    moreover have "term_payload t = etb_cbor_write_text [] s"
      using s False assms(2) by (cases "t_kind t") (simp_all add: term_payload_def)
    moreover have "of_nat (term_kind_code (t_kind t)) \<noteq> (of_nat (term_kind_code ETB_TERM_NULL) :: u64)"
      using False by (cases "t_kind t") simp_all
    ultimately show ?thesis using decodes_text_term [OF s(2), of etb_term_make_string] by simp
  qed
  have "decodes (\<lambda>cursor. bind_res (etb_cbor_read_uint cursor) (\<lambda>(kind, cursor). ?P kind cursor))
      (etb_cbor_write_uint [] (of_nat (term_kind_code (t_kind t))) @ term_payload t) (as_string t)"
    by (rule decodes_bind [OF cbor_uint.decodes_wr [OF TrueI]]) (rule payload)
  then show ?thesis
    unfolding receipt_read_term_def [abs_def] write_term_split
    by (intro decodes_bind [OF cbor_array_header.decodes_wr [OF TrueI]]) simp
qed

lemma concat_reads_request:
  assumes w: "list_all wire_term [a, b, c]" and m: "length bound_mask = 3"
    and short: "length (etb_write_request [a, b, c] bound_mask []) \<le> 4096"
  shows "\<exists>cursor. concat_read_request (etb_cbor_cursor_init (take 4096 (etb_write_request [a, b, c] bound_mask []))) =
    Inr (map as_symbol [a, b, c], cursor)"
proof -
  have args: "decodes (cbor_read_list concat_read_term 3) (concat (map (etb_write_term []) [a, b, c])) (map as_symbol [a, b, c])"
    using decodes_read_list [of "[a, b, c]" concat_read_term "etb_write_term []" as_symbol] decodes_concat_term w
    by (fastforce simp: numeral_3_eq_3)
  have bools: "decodes (\<lambda>cur. bind_res (cbor_read_list etb_cbor_read_bool 3 cur) (\<lambda>(bound, cur).
      Inr (map as_symbol [a, b, c], cur))) (concat (map (etb_cbor_write_bool []) bound_mask)) (map as_symbol [a, b, c])"
    using decodes_list [of bound_mask etb_cbor_read_bool "etb_cbor_write_bool []"] m
    by (intro decodes_last [where g = "\<lambda>_. map as_symbol [a, b, c]"]) (simp add: cbor_decodes)
  have "decodes concat_read_request (etb_write_request [a, b, c] bound_mask []) (map as_symbol [a, b, c])"
    unfolding request_bytes concat_read_request_def [abs_def]
    apply (rule decodes_bind [OF cbor_array_header.decodes_wr [OF TrueI]])
    apply (simp only: simp_thms if_False)
    apply (rule decodes_bind [OF cbor_array_header.decodes_wr [OF TrueI]])
    apply (rule decodes_if(2), simp)
    apply (rule decodes_bind [OF args])
    apply (rule decodes_bind [OF cbor_array_header.decodes_wr [OF TrueI]])
    apply (rule decodes_if(2), simp)
    apply (use bools m in simp)
    done
  from decodes_whole [OF this] short show ?thesis by (simp add: fits_def)
qed

lemma receipt_reads_request:
  assumes w: "list_all wire_term [a, b]" "t_kind a \<noteq> ETB_TERM_INTEGER" "t_kind b \<noteq> ETB_TERM_INTEGER"
    and short: "length (etb_write_request [a, b] bound_mask []) \<le> 4096"
  shows "\<exists>cursor. receipt_read_request (etb_cbor_cursor_init (take 4096 (etb_write_request [a, b] bound_mask []))) =
    Inr ([as_string a, as_string b], cursor)"
proof -
  let ?tail = "etb_cbor_write_array_header [] 2 @ concat (map (etb_cbor_write_bool []) (take 2 bound_mask))"
  let ?args = "concat (map (etb_write_term []) [a, b])"
  have args: "decodes (cbor_read_list receipt_read_term 2) ?args [as_string a, as_string b]"
    using decodes_read_list [of "[a, b]" receipt_read_term "etb_write_term []" as_string] decodes_receipt_term w
    by (fastforce simp: numeral_2_eq_2)
  let ?head = "etb_cbor_write_array_header [] 2 @ etb_cbor_write_array_header [] 2 @ ?args"
  have "decodes receipt_read_request ?head [as_string a, as_string b]"
    unfolding receipt_read_request_def [abs_def]
    apply (rule decodes_bind [OF cbor_array_header.decodes_wr [OF TrueI]])
    apply (simp only: simp_thms if_False)
    apply (rule decodes_bind [OF cbor_array_header.decodes_wr [OF TrueI]])
    apply (simp only: simp_thms if_False args)
    done
  moreover have "etb_write_request [a, b] bound_mask [] = ?head @ ?tail"
    by (simp add: request_bytes numeral_2_eq_2)
  ultimately show ?thesis
    using short decodes_def [THEN iffD1, rule_format, of receipt_read_request ?head _ "[]" ?tail]
    by (simp add: fits_def cursor_init_eq)
qed

text \<open>The responses are those of the protocol.\<close>

lemma concat_write_eq: "concat_write_term = etb_write_term"
  by (intro ext) (auto simp: concat_write_term_def etb_write_term_def Let_def split: etb_term_kind.split)

lemma receipt_write_eq: "t_kind t \<noteq> ETB_TERM_INTEGER \<Longrightarrow> receipt_write_term buffer t = etb_write_term buffer t"
  by (auto simp: receipt_write_term_def etb_write_term_def term_text_def Let_def split: etb_term_kind.split)

lemma wire_as: "wire_term t \<Longrightarrow> wire_term (as_symbol t)"
  "wire_term t \<Longrightarrow> t_kind t \<noteq> ETB_TERM_INTEGER \<Longrightarrow> wire_term (as_string t)"
  "c_text s \<Longrightarrow> wire_term (etb_term_make_string (Some s))"
  by (cases t; auto simp: wire_term_def wf_term_def as_symbol_def as_string_def etb_term_make_defs
      split: etb_term_kind.splits)+

lemma concat_response:
  "etb_cbor_write_array_header (foldl concat_write_term (etb_cbor_write_array_header
     (etb_cbor_write_array_header (etb_cbor_write_array_header [] 2) 1) 3) [x, y, z]) 0 =
   response_bytes [[x, y, z]] []"
  unfolding concat_write_eq
  by (simp only: term_codec.foldl_wr append_assoc cbor_array_header.wr_append [of "etb_cbor_write_array_header _ _"]
      cbor_array_header.wr_append [of "_ @ _"]) (simp add: response_bytes_def tuple_bytes_def)

lemma receipt_response:
  assumes "t_kind x \<noteq> ETB_TERM_INTEGER" and "t_kind y \<noteq> ETB_TERM_INTEGER"
  shows "etb_cbor_write_text (etb_cbor_write_array_header (receipt_write_term (receipt_write_term
     (etb_cbor_write_array_header (etb_cbor_write_array_header (etb_cbor_write_array_header [] 2) 1) 2) x) y) 1) d =
   response_bytes [[x, y]] [d]"
  unfolding receipt_write_eq [OF assms(1)] receipt_write_eq [OF assms(2)]
  by (simp only: write_term_append [of "etb_cbor_write_array_header _ _"] write_term_append [of "_ @ _"]
      append_assoc cbor_array_header.wr_append [of "etb_cbor_write_array_header _ _"]
      cbor_array_header.wr_append [of "_ @ _"] cbor_text.wr_append [of "_ @ _"])
    (simp add: response_bytes_def tuple_bytes_def)

section \<open>The engine calls them\<close>

text \<open>The adapters as the engine sees them, at the paths they were declared with.\<close>

definition sample_adapter :: "string \<Rightarrow> string \<Rightarrow> adapter" where
  "sample_adapter concat_path receipt_path path input =
     (if path = concat_path then (case sample_concat input of Inr out \<Rightarrow> Adapter_output out | Inl _ \<Rightarrow> Exit_failed)
      else if path = receipt_path then (case sample_receipt input of Inr out \<Rightarrow> Adapter_output out | Inl _ \<Rightarrow> Exit_failed)
      else Spawn_failed)"

lemma response_reads:
  assumes "list_all wire_term ts" and "list_all c_text evidence" and "length ts \<le> 3" "length evidence \<le> 1"
    and "fits (response_bytes [ts] evidence)"
  shows "etb_read_response (response_bytes [ts] evidence) = Inr \<lparr>cr_tuples = [ts], cr_evidence_digests = evidence\<rparr>"
proof -
  have "length ts < 2 ^ 63" "length [ts] * 24 < 2 ^ 63" "length evidence * 8 < 2 ^ 63" using assms(3,4) by simp_all
  then show ?thesis using response_correct [of "[ts]" evidence] assms by simp
qed

text \<open>Sizes: a request of 4096 bytes has short texts, and the response is short.\<close>

lemma header_length: "length (etb_cbor_write_array_header [] n) \<le> 9" "length (etb_cbor_write_uint [] n) \<le> 9"
  by (simp_all add: etb_cbor_write_array_header_def etb_cbor_write_uint_def etb_cbor_write_type_value_def Let_def)

lemma text_length: "length s \<le> length (etb_cbor_write_text [] s)" "length (etb_cbor_write_text [] s) \<le> 9 + length s"
  by (simp_all add: etb_cbor_write_text_def etb_cbor_write_type_value_def Let_def)

lemma term_length:
  "length (etb_write_term [] t) \<le> 27 + length (term_text t)"
  "wire_term t \<Longrightarrow> length (term_text t) \<le> length (etb_write_term [] t)"
proof -
  have "length (term_payload t) \<le> 9 + length (term_text t)"
    using text_length(2) [of "term_text t"]
    by (cases "t_kind t") (simp_all add: term_payload_def term_text_def etb_cbor_write_int_def
        etb_cbor_write_uint_def etb_cbor_write_null_def etb_cbor_write_type_value_def Let_def)
  then show "length (etb_write_term [] t) \<le> 27 + length (term_text t)"
    using header_length(1) [of 2] header_length(2) [of "of_nat (term_kind_code (t_kind t))"]
    by (simp add: write_term_split)
  show "length (term_text t) \<le> length (etb_write_term [] t)" if "wire_term t"
    using text_length(1) [of "term_text t"] that
    by (cases "t_kind t") (auto simp: write_term_split term_payload_def term_text_def wire_term_def wf_term_def)
qed

lemma request_texts:
  assumes "list_all wire_term args" and "length (etb_write_request args bound_mask []) \<le> 4096" and "t \<in> set args"
  shows "length (term_text t) \<le> 4096"
proof -
  have "length (etb_write_term [] t) \<le> length (concat (map (etb_write_term []) args))"
    using assms(3) by (auto simp: length_concat comp_def intro: member_le_sum_list)
  then show ?thesis
    using assms term_length(2) [of t] by (auto simp: request_bytes list_all_iff)
qed

lemma concat_length: "\<forall>x \<in> set xs. length (f x) \<le> k \<Longrightarrow> length (concat (map f xs)) \<le> length xs * k"
  by (induction xs) auto

lemma short_response_fits:
  assumes "\<forall>t \<in> set ts. length (term_text t) \<le> 4096" and "length ts \<le> 3" and "\<forall>d \<in> set evidence. length d \<le> 64"
    and "length evidence \<le> 1"
  shows "fits (response_bytes [ts] evidence)"
proof -
  have "length (concat (map (etb_write_term []) ts)) \<le> length ts * 4123"
  proof (rule concat_length, rule ballI)
    fix t assume "t \<in> set ts"
    then show "length (etb_write_term [] t) \<le> 4123" using assms(1) term_length(1) [of t] by fastforce
  qed
  then have t: "length (concat (map (etb_write_term []) ts)) \<le> 3 * 4123" using assms(2) by linarith
  have "length (concat (map (etb_cbor_write_text []) evidence)) \<le> length evidence * 73"
  proof (rule concat_length, rule ballI)
    fix d assume "d \<in> set evidence"
    then show "length (etb_cbor_write_text [] d) \<le> 73" using assms(3) text_length(2) [of d] by fastforce
  qed
  then have e: "length (concat (map (etb_cbor_write_text []) evidence)) \<le> 73" using assms(4) by linarith
  show ?thesis
    using t e header_length(1) [of 2] header_length(1) [of 1] header_length(1) [of "of_nat (length ts)"]
      header_length(1) [of "of_nat (length evidence)"]
    by (simp add: fits_def response_bytes_def tuple_bytes_def)
qed


definition declared :: "string \<Rightarrow> nat \<Rightarrow> string \<Rightarrow> etb_capability_decl" where
  "declared name arity path = \<lparr>c_name = Some name, c_arity = arity, c_path = Some path,
     c_deterministic = True, c_proof_admissible = True, c_timeout_ms = 1000\<rparr>"


end
