(* ===== verification/Spec2Isabelle.thy ===== *)
theory Spec2Isabelle
  imports Symbol_Table Parser_Roundtrip Negation Cli Telemetry Membership Snapshots Samples
begin

text \<open>
  A verification development for etb3, a peer-to-peer evidential tool bus in C11: a Datalog engine with
  \<open>says\<close>, \<open>speaks_for\<close>, negation and predicates computed by external programs, whose derivations
  are exported as certificates and exchanged between nodes.

  \<^bold>\<open>The program.\<close> A node reads a program (\<open>src/core/parser.c\<close>) of clauses and capability declarations
  (\<open>core/ast.c\<close>, \<open>core/term.c\<close>), checks and stratifies it (\<open>engine/strata.c\<close>, \<open>engine/negation.c\<close>), and
  computes facts into tables (\<open>engine/tables.c\<close>, keyed by \<open>core/canon.c\<close>) by passes over its clauses
  (\<open>engine/eval.c\<close>): literals are matched by unification (\<open>engine/unify.c\<close>), a claim of another principal
  by a search over delegations (\<open>engine/delegation.c\<close>), a capability by running an adapter
  (\<open>runtime/capability.c\<close>). Each step appends a node to the trace (\<open>engine/trace.c\<close>), hashed with SHA-256
  (\<open>core/sha256.c\<close>). The answers of a query and the digests of the trace become a certificate in CBOR
  (\<open>engine/cert.c\<close>, \<open>core/cbor.c\<close>). \<open>runtime/daemon.c\<close> does this once, importing certificates of others;
  \<open>runtime/distributed.c\<close> does it for clients over the network: it resolves the \<open>says\<close> goals of a query by
  asking the nodes that the principals are routed to, with a registry file of routes that nodes exchange.
  \<open>cli/etbd.c\<close> and \<open>cli/etbctl.c\<close> are the programs a user runs.

  \<^bold>\<open>The theories.\<close> Each one models the file or files it names, function by function, under the names of
  the code; a part of a function has a name of its own.
  \<^item> \<open>Etb_Prelude\<close>: results (a value, a failure with the text of the error array, or undefined behaviour),
    loops over results, C strings, bytes and decimal numbers.
  \<^item> \<open>Ast\<close>, \<open>Canon\<close>, \<open>Symbol_Table\<close>, \<open>Parser\<close>: terms, atoms and programs; their text and keys; the interning
    table; the scanner and the parser. \<open>Parser_Roundtrip\<close>: parsing inverts printing.
  \<^item> \<open>Sha256\<close>: the hash, equal to FIPS 180-4. \<open>Cbor\<close>: the codec at its 64-bit width; its locale \<open>wire_codec\<close>
    is the contract of a writer with its reader, interpreted on each of them, and \<open>decodes\<close> composes
    readers for every format built on top.
  \<^item> \<open>Tables\<close>, \<open>Unify\<close>, \<open>Trace\<close>, \<open>Capability\<close>, \<open>Engine_State\<close>, \<open>Delegation\<close>, \<open>Strata\<close>, \<open>Eval\<close>: the engine.
    \<open>Eval_Invariant\<close>: its invariant \<open>engine_ok\<close>, that every operation keeps it, and that every trace node
    and fact is justified. \<open>Least_Model\<close>: a run that becomes stable computes the least model of a positive
    program, and queries are exact. \<open>Negation\<close>: what evaluating without strata does.
  \<^item> \<open>Cert\<close>, \<open>Daemon\<close>: certificates and the local run, with the provenance of what it certifies.
  \<^item> \<open>Routes\<close>, \<open>Wire\<close>: route maps, the registry file and its interleaved updates; frames, bundles, requests
    and responses, each with its round trip.
  \<^item> \<open>Node\<close>: requests to other nodes, the resolution of dependencies, query execution, client handling and
    announcing, as runs over the state of a process. \<open>Resolver\<close>: the resolver ends, and what it leaves
    (the locale \<open>resolver_invariant\<close> is proved once and interpreted for both). \<open>Discovery\<close>: what two nodes
    that run this code do together. \<open>Serve\<close>: the accept loop and its signals as a step relation.
  \<^item> \<open>Membership\<close> (\<open>runtime/swim.c\<close>, \<open>peer.c\<close>), \<open>Telemetry\<close> (\<open>runtime/telemetry.c\<close>), \<open>Snapshots\<close>
    (\<open>runtime/snapshot.c\<close>, \<open>registry.c\<close>, \<open>signer_soft.c\<close>, \<open>artifact_store.c\<close>, \<open>net/\<close>): the rest of the runtime.
  \<^item> \<open>Samples\<close>: the two sample adapters, run against the engine's side of their protocol. \<open>Cli\<close>: both
    programs, and the composition from the engine of a node to the terminal of its client.

  \<^bold>\<open>How the model corresponds to the code.\<close> A struct is a record and an enumeration a datatype; an array
  with its count is a list; machine integers that are computed with are words (\<open>u64\<close>), sizes of objects
  in memory are natural numbers. A function that returns \<open>bool\<close> and fills an argument is a function into
  \<open>'a res\<close>. Null pointers handed to string functions, accesses outside of arrays, signed overflow and
  reads of uninitialised memory are values of \<open>etb_error\<close>, so that theorems can exclude or exhibit them.
  Arrays of fixed size cut their texts as \<open>snprintf\<close> does. What comes from outside (the content of files,
  the clock, the adapters, the prover, the network, the platform's signatures) is an argument.

  \<^bold>\<open>Bounds.\<close> A run makes at most 64 passes, as the code does; the least-model theorem therefore speaks of
  runs whose last pass changes nothing. Validation makes \<open>key_count + 4\<close> passes, which is enough for
  every stratifiable program. The delegation search stops at depth 8. The recursion of the resolver over
  goals has fuel: one unit more than there are texts of goals for a program and a query always gives a
  result, because a text is visited once (\<open>etb_execute_query_terminates\<close>). Announcing stops after 20
  rounds. Error arrays hold 255 characters.

  \<^bold>\<open>What the properties show.\<close> Soundness: nothing is derived, answered or certified that a rule, a
  capability or an imported claim does not justify, on one node and across nodes. Completeness: least
  model, exact queries, exact delegation, exact validation. Formats: every encoder and its decoder,
  the parser and the printer. Invariants and life cycle: tables, trace, engine, membership, a serving
  node. Safety: which undefined behaviour is excluded, and where it is not. Some properties show where
  the code does less than it seems to mean: negation is not evaluated by strata, imported claims are
  believed, the thirty-third imported certificate overruns an array.

  \<^bold>\<open>Not modelled.\<close> Failing allocations, and the functions that only free. Sockets, processes and
  temporary files beyond their outcomes; children of a node run one client each, from start to end,
  and only their updates of the registry file interleave (\<open>Routes\<close>). A run that fails returns its error
  alone: the trace nodes it had appended are not kept. The telemetry calls are left out of \<open>Node\<close>. The
  calls of the Security framework behind signatures. The Rust proof sidecar and the JavaScript dashboard.
\<close>

end
